(* ===== verification/Prelude.thy ===== *)
theory Prelude
  imports Main "HOL-Library.Word" "HOL-Library.AList" "HOL-Library.List_Lexorder"
    "HOL-Library.Multiset"
begin

text \<open>
  What every component of the development shares.

  \<^item> The Go types: \<open>byte\<close>, byte slices and strings (both are byte sequences in Go, so both are
    \<open>bytes\<close>), \<open>uint32\<close> and \<open>uint64\<close> as words, \<open>int64\<close> as an integer with the wrap-around written
    out (\<open>wrap64\<close>).
  \<^item> The part of \<open>encoding/binary\<close> the program uses (\<open>BigEndian.PutUint32\<close>, \<open>Uint32\<close>,
    \<open>PutUint64\<close>, \<open>Uint64\<close>) with its round trips.
  \<^item> Go maps as association lists with distinct keys: an assignment is \<open>AList.update\<close>, a
    \<open>delete\<close> is \<open>AList.delete\<close>, a lookup is \<open>map_of\<close>, and a \<open>range\<close> loop visits the list.
  \<^item> Sorting by a comparison function (\<open>sort.Slice\<close>), with the fact that the result is determined
    by the multiset of elements when the comparison is a strict total order on them.
\<close>

unbundle bit_operations_syntax

named_theorems be_simps \<open>facts about the big-endian codecs\<close>
named_theorems amap_simps \<open>lookup laws of Go maps\<close>

section \<open>Go's integer and byte types\<close>

type_synonym byte = "8 word"
type_synonym bytes = "byte list"
type_synonym u8 = "8 word"
type_synonym u32 = "32 word"
type_synonym u64 = "64 word"

definition str :: "string \<Rightarrow> bytes" where
  "str s = map of_char s"

text \<open>\<open>int64\<close> arithmetic wraps around in two's complement.\<close>

definition wrap64 :: "int \<Rightarrow> int" where
  "wrap64 x = (x + 2 ^ 63) mod 2 ^ 64 - 2 ^ 63"

definition int64_range :: "int \<Rightarrow> bool" where
  "int64_range x \<longleftrightarrow> - (2 ^ 63) \<le> x \<and> x < 2 ^ 63"

lemma wrap64_id [simp]: "int64_range x \<Longrightarrow> wrap64 x = x"
  by (simp add: wrap64_def int64_range_def)

lemma wrap64_range [simp, intro]: "int64_range (wrap64 x)"
  by (simp add: wrap64_def int64_range_def)

lemma wrap64_add_left [simp]: "wrap64 (wrap64 x + y) = wrap64 (x + y)"
proof -
  have "(wrap64 x + y + 2 ^ 63) mod 2 ^ 64 = (x + y + 2 ^ 63) mod 2 ^ 64"
    unfolding wrap64_def by (simp add: algebra_simps mod_simps)
  then show ?thesis by (simp add: wrap64_def)
qed

lemma wrap64_add_right [simp]: "wrap64 (x + wrap64 y) = wrap64 (x + y)"
  using wrap64_add_left [of y x] by (simp add: add.commute)

text \<open>The conversion \<open>int64(u)\<close> of a \<open>uint64\<close> and back.\<close>

definition int64_of :: "u64 \<Rightarrow> int" where
  "int64_of w = sint w"

lemma int64_of_range [simp, intro]: "int64_range (int64_of w)"
  using sint_range_size [of w] by (simp add: int64_range_def int64_of_def word_size)

lemma int64_of_word_of_int: "int64_of (word_of_int x) = wrap64 x"
proof -
  have "signed_take_bit 63 x = wrap64 x"
    by (simp add: signed_take_bit_eq_take_bit_shift take_bit_eq_mod wrap64_def)
  then show ?thesis by (simp add: int64_of_def sint_sbintrunc')
qed

lemma word_of_int_wrap64 [simp]: "(word_of_int (wrap64 x) :: u64) = word_of_int x"
proof -
  have "(word_of_int (int64_of (word_of_int x)) :: u64) = word_of_int x"
    by (simp add: int64_of_def)
  then show ?thesis by (simp only: int64_of_word_of_int)
qed

lemma unat_lt2p: "unat (w :: 'a::len word) < 2 ^ LENGTH('a)"
  by simp

section \<open>Big-endian integers: \<open>encoding/binary\<close>\<close>

fun be_put :: "nat \<Rightarrow> nat \<Rightarrow> bytes" where
  "be_put 0 x = []"
| "be_put (Suc n) x = be_put n (x div 256) @ [of_nat (x mod 256)]"

definition be_get :: "bytes \<Rightarrow> nat" where
  "be_get bs = foldl (\<lambda>acc b. acc * 256 + unat b) 0 bs"

definition PutUint32 :: "u32 \<Rightarrow> bytes" where
  "PutUint32 v = be_put 4 (unat v)"

definition Uint32 :: "bytes \<Rightarrow> u32" where
  "Uint32 bs = of_nat (be_get (take 4 bs))"

definition PutUint64 :: "u64 \<Rightarrow> bytes" where
  "PutUint64 v = be_put 8 (unat v)"

definition Uint64 :: "bytes \<Rightarrow> u64" where
  "Uint64 bs = of_nat (be_get (take 8 bs))"

lemma length_be_put [simp]: "length (be_put n x) = n"
  by (induction n arbitrary: x) simp_all

lemma be_get_Nil [simp]: "be_get [] = 0"
  by (simp add: be_get_def)

lemma be_get_snoc [simp]: "be_get (bs @ [b]) = be_get bs * 256 + unat b"
  by (simp add: be_get_def)

lemma unat_byte_of_nat [simp]: "unat (of_nat (x mod 256) :: byte) = x mod 256"
  by (simp add: unat_of_nat)

lemma be_get_put: "be_get (be_put n x) = x mod 256 ^ n"
proof (induction n arbitrary: x)
  case 0
  then show ?case by simp
next
  case (Suc n)
  have "(x div 256) mod 256 ^ n * 256 + x mod 256 = x mod (256 * 256 ^ n)"
    by (simp add: mod_mult2_eq mult.commute)
  then show ?case by (simp add: Suc.IH)
qed

lemma be_get_less: "be_get bs < 256 ^ length bs"
proof (induction bs rule: rev_induct)
  case Nil
  then show ?case by simp
next
  case (snoc b bs)
  have "unat b < 256" using unat_lt2p [of b] by simp
  with snoc show ?case by simp
qed

lemma be_put_get: "be_put (length bs) (be_get bs) = bs"
proof (induction bs rule: rev_induct)
  case Nil
  then show ?case by simp
next
  case (snoc b bs)
  have "unat b < 256" using unat_lt2p [of b] by simp
  with snoc show ?case by simp
qed

lemma length_PutUint32 [simp, be_simps]: "length (PutUint32 v) = 4"
  by (simp add: PutUint32_def)

lemma length_PutUint64 [simp, be_simps]: "length (PutUint64 v) = 8"
  by (simp add: PutUint64_def)

lemma Uint32_PutUint32 [simp, be_simps]: "Uint32 (PutUint32 v @ rest) = v"
proof -
  have "unat v mod 256 ^ 4 = unat v"
    using unat_lt2p [of v] by simp
  then show ?thesis by (simp add: Uint32_def PutUint32_def be_get_put)
qed

lemma Uint64_PutUint64 [simp, be_simps]: "Uint64 (PutUint64 v @ rest) = v"
proof -
  have "unat v mod 256 ^ 8 = unat v"
    using unat_lt2p [of v] by simp
  then show ?thesis by (simp add: Uint64_def PutUint64_def be_get_put)
qed

lemmas Uint32_PutUint32_Nil [simp, be_simps] = Uint32_PutUint32 [where rest = "[]", simplified]
lemmas Uint64_PutUint64_Nil [simp, be_simps] = Uint64_PutUint64 [where rest = "[]", simplified]

lemma PutUint32_nonempty [simp]: "PutUint32 v \<noteq> []"
  using length_PutUint32 [of v] by fastforce

lemma PutUint64_nonempty [simp]: "PutUint64 v \<noteq> []"
  using length_PutUint64 [of v] by fastforce

lemma PutUint64_inject [simp]: "PutUint64 v = PutUint64 w \<longleftrightarrow> v = w"
  by (metis Uint64_PutUint64_Nil)

lemma PutUint64_append_inject [simp]: "PutUint64 v @ xs = PutUint64 w @ ys \<longleftrightarrow> v = w \<and> xs = ys"
  by (simp add: append_eq_append_conv)

lemma PutUint64_Uint64: "8 \<le> length bs \<Longrightarrow> PutUint64 (Uint64 bs) = take 8 bs"
proof -
  assume "8 \<le> length bs"
  then have l: "length (take 8 bs) = 8" by simp
  with be_get_less [of "take 8 bs"] have "unat (of_nat (be_get (take 8 bs)) :: u64) = be_get (take 8 bs)"
    by (simp add: unat_of_nat)
  with l be_put_get [of "take 8 bs"] show ?thesis
    by (simp add: PutUint64_def Uint64_def)
qed

lemma PutUint32_Uint32: "4 \<le> length bs \<Longrightarrow> PutUint32 (Uint32 bs) = take 4 bs"
proof -
  assume "4 \<le> length bs"
  then have l: "length (take 4 bs) = 4" by simp
  with be_get_less [of "take 4 bs"] have "unat (of_nat (be_get (take 4 bs)) :: u32) = be_get (take 4 bs)"
    by (simp add: unat_of_nat)
  with l be_put_get [of "take 4 bs"] show ?thesis
    by (simp add: PutUint32_def Uint32_def)
qed

section \<open>Go maps\<close>

text \<open>
  A Go map is an association list with distinct keys. The order of the list is one order in which
  a \<open>range\<close> loop may visit the map: Go leaves that order unspecified.
\<close>

type_synonym ('k, 'v) gomap = "('k \<times> 'v) list"

definition wf_map :: "('k, 'v) gomap \<Rightarrow> bool" where
  "wf_map m \<longleftrightarrow> distinct (map fst m)"

text \<open>\<open>if len(inner) == 0 { delete(m, name) }\<close> over every bucket of a two-level map.\<close>

definition drop_empty :: "('k, ('k2, 'v) gomap) gomap \<Rightarrow> ('k, ('k2, 'v) gomap) gomap" where
  "drop_empty m = filter (\<lambda>(k, inner). inner \<noteq> []) m"

lemma wf_map_Nil [simp, intro]: "wf_map []"
  by (simp add: wf_map_def)

lemma wf_map_update [simp, intro]: "wf_map m \<Longrightarrow> wf_map (AList.update k v m)"
  by (simp add: wf_map_def distinct_update)

lemma wf_map_delete [simp, intro]: "wf_map m \<Longrightarrow> wf_map (AList.delete k m)"
  by (simp add: wf_map_def distinct_delete)

lemma wf_map_filter [simp, intro]: "wf_map m \<Longrightarrow> wf_map (filter P m)"
  by (simp add: wf_map_def distinct_map_filter)

lemma map_of_filter: "wf_map m \<Longrightarrow> map_of (filter P m) k =
    (case map_of m k of None \<Rightarrow> None | Some v \<Rightarrow> if P (k, v) then Some v else None)"
  by (induction m) (auto simp: wf_map_def map_of_eq_None_iff split: option.splits
      dest: map_of_SomeD intro!: image_eqI)

lemma map_of_mem: "wf_map m \<Longrightarrow> map_of m k = Some v \<longleftrightarrow> (k, v) \<in> set m"
  by (simp add: wf_map_def)

lemmas [amap_simps] = update_conv' delete_conv' map_of_filter map_of_mem

section \<open>Sorting by a comparison function: \<open>sort.Slice\<close>\<close>

text \<open>
  \<open>sort.Slice\<close> promises a permutation of its input in which no element is less than an earlier
  one. The model sorts by insertion; \<open>sorted_unique\<close> below shows that under a strict total order
  every routine that keeps the promise returns this list.
\<close>

fun insort_by :: "('a \<Rightarrow> 'a \<Rightarrow> bool) \<Rightarrow> 'a \<Rightarrow> 'a list \<Rightarrow> 'a list" where
  "insort_by lt x [] = [x]"
| "insort_by lt x (y # ys) = (if lt y x then y # insort_by lt x ys else x # y # ys)"

definition sort_by :: "('a \<Rightarrow> 'a \<Rightarrow> bool) \<Rightarrow> 'a list \<Rightarrow> 'a list" where
  "sort_by lt xs = foldr (insort_by lt) xs []"

lemma mset_insort_by [simp]: "mset (insort_by lt x xs) = add_mset x (mset xs)"
  by (induction xs) simp_all

lemma mset_sort_by [simp]: "mset (sort_by lt xs) = mset xs"
  by (induction xs) (simp_all add: sort_by_def)

lemma set_sort_by [simp]: "set (sort_by lt xs) = set xs"
  by (metis mset_sort_by set_mset_mset)

lemma length_sort_by [simp]: "length (sort_by lt xs) = length xs"
  by (metis mset_sort_by size_mset)

lemma distinct_sort_by [simp]: "distinct (sort_by lt xs) = distinct xs"
  by (metis mset_sort_by mset_eq_imp_distinct_iff)

locale strict_total =
  fixes lt :: "'a \<Rightarrow> 'a \<Rightarrow> bool"
  assumes irrefl: "\<not> lt x x"
    and trans: "lt x y \<Longrightarrow> lt y z \<Longrightarrow> lt x z"
    and total: "x \<noteq> y \<Longrightarrow> lt x y \<or> lt y x"
begin

definition le :: "'a \<Rightarrow> 'a \<Rightarrow> bool" where
  "le x y \<longleftrightarrow> x = y \<or> lt x y"

lemma le_total: "\<not> lt y x \<Longrightarrow> le x y"
  using total by (auto simp: le_def)

lemma le_trans: "le x y \<Longrightarrow> le y z \<Longrightarrow> le x z"
  using trans by (auto simp: le_def)

lemma le_antisym: "le x y \<Longrightarrow> le y x \<Longrightarrow> x = y"
  using trans irrefl by (auto simp: le_def)

lemma sorted_insort_by: "sorted_wrt le xs \<Longrightarrow> sorted_wrt le (insort_by lt x xs)"
proof (induction xs)
  case Nil
  then show ?case by simp
next
  case (Cons y ys)
  have set_ins: "set (insort_by lt x ys) = insert x (set ys)"
    by (metis mset_insort_by set_mset_add_mset_insert set_mset_mset)
  show ?case
  proof (cases "lt y x")
    case True
    then have "le y x" by (simp add: le_def)
    with Cons True show ?thesis by (simp add: set_ins)
  next
    case False
    then have "le x y" by (rule le_total)
    with Cons False show ?thesis by (auto intro: le_trans)
  qed
qed

lemma sorted_sort_by: "sorted_wrt le (sort_by lt xs)"
  by (induction xs) (simp_all add: sort_by_def sorted_insort_by)

lemma sorted_unique:
  "sorted_wrt le xs \<Longrightarrow> sorted_wrt le ys \<Longrightarrow> mset xs = mset ys \<Longrightarrow> xs = ys"
proof (induction xs arbitrary: ys)
  case Nil
  then show ?case by simp
next
  case (Cons x xs)
  from Cons.prems(3) obtain y ys' where ys: "ys = y # ys'"
    by (cases ys) auto
  have "y \<in> set (x # xs)" and "x \<in> set (y # ys')"
    using Cons.prems(3) ys by (metis list.set_intros(1) set_mset_mset)+
  then have "le x y" and "le y x"
    using Cons.prems(1,2) ys by (auto simp: le_def)
  then have "x = y" by (rule le_antisym)
  with Cons ys show ?case by simp
qed

lemma sort_by_unique: "sorted_wrt le xs \<Longrightarrow> mset xs = mset ys \<Longrightarrow> sort_by lt ys = xs"
  by (rule sorted_unique) (simp_all add: sorted_sort_by)

lemma sort_by_cong: "mset xs = mset ys \<Longrightarrow> sort_by lt xs = sort_by lt ys"
  by (rule sort_by_unique) (simp_all add: sorted_sort_by)

lemma sort_by_filter: "sort_by lt (filter P xs) = filter P (sort_by lt xs)"
  by (rule sort_by_unique) (simp_all add: sorted_sort_by sorted_wrt_filter)

lemma sort_by_hd: "xs \<noteq> [] \<Longrightarrow> y \<in> set xs \<Longrightarrow> le (hd (sort_by lt xs)) y"
proof -
  assume "xs \<noteq> []" and y: "y \<in> set xs"
  have "sort_by lt xs \<noteq> []"
    using y set_sort_by [of lt xs] by (metis empty_iff empty_set)
  then obtain z zs where z: "sort_by lt xs = z # zs"
    by (meson neq_Nil_conv)
  with sorted_sort_by [of xs] have "\<forall>w\<in>set zs. le z w" by simp
  moreover have "y \<in> set (z # zs)" using y set_sort_by [of lt xs] z by simp
  ultimately show ?thesis using z by (auto simp: le_def)
qed

end

text \<open>Mapping a sorted list along an order-preserving injection commutes with sorting.\<close>

lemma sort_by_map:
  assumes t: "strict_total lt'" and s: "sorted_wrt (\<lambda>x y. lt x y) (sort_by lt xs)"
    and f: "\<And>x y. x \<in> set xs \<Longrightarrow> y \<in> set xs \<Longrightarrow> lt x y \<Longrightarrow> lt' (f x) (f y)"
  shows "map f (sort_by lt xs) = sort_by lt' (map f xs)"
proof -
  have "sorted_wrt (\<lambda>x y. strict_total.le lt' (f x) (f y)) (sort_by lt xs)"
    by (rule sorted_wrt_mono_rel [OF _ s]) (simp add: f strict_total.le_def [OF t])
  then have "sorted_wrt (strict_total.le lt') (map f (sort_by lt xs))"
    by (simp add: sorted_wrt_map)
  then show ?thesis
    by (rule strict_total.sort_by_unique [OF t, symmetric]) simp
qed

section \<open>Lists of equal rows\<close>

lemma nth_concat_rows:
  assumes "\<And>r. r \<in> set rows \<Longrightarrow> length r = c" and "i < length rows" and "j < c"
  shows "concat rows ! (i * c + j) = rows ! i ! j"
  using assms
proof (induction rows arbitrary: i)
  case Nil
  then show ?case by simp
next
  case (Cons r rows)
  show ?case
  proof (cases i)
    case 0
    with Cons.prems show ?thesis by (simp add: nth_append)
  next
    case (Suc k)
    with Cons show ?thesis by (simp add: nth_append add.assoc)
  qed
qed

section \<open>Sequences of calls\<close>

text \<open>The results of a sequence of calls against a state, in order, and the final state.\<close>

fun run_calls :: "('c \<Rightarrow> 's \<Rightarrow> 'r \<times> 's) \<Rightarrow> 'c list \<Rightarrow> 's \<Rightarrow> 'r list \<times> 's" where
  "run_calls f [] s = ([], s)"
| "run_calls f (c # cs) s =
     (case f c s of (r, s') \<Rightarrow> case run_calls f cs s' of (rs, s'') \<Rightarrow> (r # rs, s''))"

lemma run_calls_Cons [simp]:
  "fst (run_calls f (c # cs) s) = fst (f c s) # fst (run_calls f cs (snd (f c s)))"
  "snd (run_calls f (c # cs) s) = snd (run_calls f cs (snd (f c s)))"
  by (simp_all split: prod.splits)

declare run_calls.simps(2) [simp del]

lemma length_run_calls [simp]: "length (fst (run_calls f cs s)) = length cs"
  by (induction cs arbitrary: s) auto

lemma run_calls_append:
  "run_calls f (cs @ ds) s =
    (fst (run_calls f cs s) @ fst (run_calls f ds (snd (run_calls f cs s))),
     snd (run_calls f ds (snd (run_calls f cs s))))"
  by (induction cs arbitrary: s) (simp_all add: prod_eq_iff)

text \<open>A simulation of single calls is a simulation of sequences of calls.\<close>

lemma run_calls_simulation:
  assumes "R s a"
    and "\<And>c s a. c \<in> set cs \<Longrightarrow> R s a \<Longrightarrow> fst (f c s) = fst (g c a) \<and> R (snd (f c s)) (snd (g c a))"
  shows "fst (run_calls f cs s) = fst (run_calls g cs a) \<and> R (snd (run_calls f cs s)) (snd (run_calls g cs a))"
  using assms
proof (induction cs arbitrary: s a)
  case (Cons c cs)
  from Cons.prems have "fst (f c s) = fst (g c a)" "R (snd (f c s)) (snd (g c a))" by auto
  with Cons.IH [of "snd (f c s)" "snd (g c a)"] Cons.prems(2) show ?case by auto
qed simp

end
