(* ===== verification/Partition.thy ===== *)
theory Partition
  imports Prelude
begin

text \<open>
  Package \<open>partition\<close>: the key hash \<open>For\<close> (\<open>hash.go\<close>) and the rendezvous partition table
  (\<open>table.go\<close>). A table is the Go struct: the sorted members, one owner index per partition and a
  row-major array of backup indices, \<open>-1\<close> marking an empty slot.

  The lemmas reduce the arrays to one notion, the \<open>ranking\<close> of a member list for a partition (the
  ids by descending weight): the owner is its first element, the backups are the next
  \<open>backupCount\<close> ones (\<open>OwnerOf_ranking\<close>, \<open>BackupAt_ranking\<close>). Independence of the input order,
  the failover target and minimal movement on a membership change are then facts about rankings.
\<close>

section \<open>Definitions\<close>

definition Count :: nat where
  "Count = 271"

definition For :: "bytes \<Rightarrow> nat" where
  "For key =
     (let offsetBasis = (2166136261 :: u32);
          prime = (16777619 :: u32);
          h = foldl (\<lambda>h b. (h XOR ucast b) * prime) offsetBasis key
      in unat (h mod of_nat Count))"

definition hrwWeight :: "bytes \<Rightarrow> nat \<Rightarrow> u64" where
  "hrwWeight mid p =
     (let offset64 = (14695981039346656037 :: u64);
          prime64 = (1099511628211 :: u64);
          h = foldl (\<lambda>h b. (h XOR ucast b) * prime64) offset64 mid;
          u = (of_nat p :: u32);
          h = foldl (\<lambda>h i. (h XOR ucast (ucast (drop_bit (8 * i) u) :: byte)) * prime64) h [0, 1, 2, 3];
          h = h XOR drop_bit 30 h;
          h = h * 0xbf58476d1ce4e5b9;
          h = h XOR drop_bit 27 h;
          h = h * 0x94d049bb133111eb
      in h XOR drop_bit 31 h)"

record Table =
  t_members :: "bytes list"
  t_owners :: "int list"
  t_backups :: "int list"
  t_backupCount :: nat

type_synonym ranked = "u64 \<times> nat"

definition ranked_less :: "ranked \<Rightarrow> ranked \<Rightarrow> bool" where
  "ranked_less a b = (if fst a \<noteq> fst b then fst a > fst b else snd a < snd b)"

definition scratch :: "bytes list \<Rightarrow> nat \<Rightarrow> ranked list" where
  "scratch ms p = sort_by ranked_less (map (\<lambda>i. (hrwWeight (ms ! i) p, i)) [0..<length ms])"

definition owner_slot :: "bytes list \<Rightarrow> nat \<Rightarrow> int" where
  "owner_slot ms p = (if length ms = 0 then -1 else int (snd (scratch ms p ! 0)))"

definition backup_row :: "bytes list \<Rightarrow> nat \<Rightarrow> nat \<Rightarrow> int list" where
  "backup_row ms bc p =
     (if length ms = 0 then replicate bc (-1)
      else map (\<lambda>j. if j + 1 < length ms then int (snd (scratch ms p ! (j + 1))) else -1) [0..<bc])"

definition NewTable :: "bytes list \<Rightarrow> int \<Rightarrow> Table" where
  "NewTable memberIDs backupCount0 =
     (let ms = sort memberIDs;
          bc = nat (if backupCount0 < 0 then 0 else backupCount0)
      in \<lparr>t_members = ms,
          t_owners = map (owner_slot ms) [0..<Count],
          t_backups = concat (map (backup_row ms bc) [0..<Count]),
          t_backupCount = bc\<rparr>)"

definition OwnerOf :: "Table \<Rightarrow> nat \<Rightarrow> bytes" where
  "OwnerOf t p = (let i = t_owners t ! p in if i < 0 then [] else t_members t ! nat i)"

definition NumBackups :: "Table \<Rightarrow> nat \<Rightarrow> nat" where
  "NumBackups t p =
     length (filter (\<lambda>j. t_backups t ! (p * t_backupCount t + j) \<ge> 0) [0..<t_backupCount t])"

definition BackupAt :: "Table \<Rightarrow> nat \<Rightarrow> int \<Rightarrow> bytes \<times> bool" where
  "BackupAt t p i =
     (if i < 0 \<or> i \<ge> int (t_backupCount t) then ([], False)
      else let m = t_backups t ! (p * t_backupCount t + nat i)
           in if m < 0 then ([], False) else (t_members t ! nat m, True))"

definition BackupOf :: "Table \<Rightarrow> nat \<Rightarrow> bytes \<times> bool" where
  "BackupOf t p = BackupAt t p 0"

section \<open>The key hash\<close>

lemma Count_pos [simp]: "0 < Count"
  by (simp add: Count_def)

lemma For_less [simp]: "For key < Count"
proof -
  have "unat (h mod of_nat Count) < Count" for h :: u32
    by (simp add: Count_def unat_mod)
  then show ?thesis by (simp add: For_def Let_def)
qed

section \<open>Rankings\<close>

definition id_less :: "nat \<Rightarrow> bytes \<Rightarrow> bytes \<Rightarrow> bool" where
  "id_less p a b = (if hrwWeight a p \<noteq> hrwWeight b p then hrwWeight a p > hrwWeight b p else a < b)"

definition ranking :: "bytes list \<Rightarrow> nat \<Rightarrow> bytes list" where
  "ranking ms p = sort_by (id_less p) ms"

interpretation ranked: strict_total ranked_less
  by unfold_locales (auto simp: ranked_less_def prod_eq_iff split: if_splits)

interpretation ids: strict_total "id_less p" for p
  by unfold_locales (auto simp: id_less_def split: if_splits)

lemma ranking_basic [simp]:
  "set (ranking ms p) = set ms" "length (ranking ms p) = length ms"
  "distinct (ranking ms p) = distinct ms" "mset (ranking ms p) = mset ms"
  by (simp_all add: ranking_def)

lemma ranking_nonempty: "ids \<noteq> [] \<Longrightarrow> ranking ids p \<noteq> []"
  by (metis length_0_conv ranking_basic(2))

lemma ranking_cong: "mset ms = mset ms' \<Longrightarrow> ranking ms p = ranking ms' p"
  unfolding ranking_def by (rule ids.sort_by_cong)

lemma ranking_filter: "ranking (filter P ms) p = filter P (ranking ms p)"
  unfolding ranking_def by (rule ids.sort_by_filter)

lemma ranking_sort [simp]: "ranking (sort ms) p = ranking ms p"
  by (rule ranking_cong) simp

lemma scratch_sorted: "sorted_wrt ranked_less (scratch ms p)"
proof -
  have d: "distinct (scratch ms p)"
    by (simp add: scratch_def distinct_map inj_on_def)
  have "sorted_wrt ranked.le (scratch ms p)"
    unfolding scratch_def by (rule ranked.sorted_sort_by)
  with d show ?thesis
    by (auto simp: sorted_wrt_iff_nth_less ranked.le_def distinct_conv_nth)
qed

text \<open>The ranked scratch array of the code, read as ids, is the ranking.\<close>

lemma scratch_ranking:
  assumes "sorted ms" and "distinct ms"
  shows "map (\<lambda>r. ms ! snd r) (scratch ms p) = ranking ms p"
proof -
  let ?xs = "map (\<lambda>i. (hrwWeight (ms ! i) p, i)) [0..<length ms]"
  have mono: "i < j \<Longrightarrow> j < length ms \<Longrightarrow> ms ! i < ms ! j" for i j
    using assms by (simp add: sorted_wrt_nth_less strict_sorted_iff)
  have "map (\<lambda>r. ms ! snd r) (sort_by ranked_less ?xs) = sort_by (id_less p) (map (\<lambda>r. ms ! snd r) ?xs)"
  proof (rule sort_by_map)
    show "strict_total (id_less p)" by (rule ids.strict_total_axioms)
    show "sorted_wrt (\<lambda>x y. ranked_less x y) (sort_by ranked_less ?xs)"
      using scratch_sorted [of ms p] by (simp add: scratch_def)
    show "id_less p (ms ! snd x) (ms ! snd y)"
      if "x \<in> set ?xs" "y \<in> set ?xs" "ranked_less x y" for x y
      using that mono by (auto simp: ranked_less_def id_less_def split: if_splits)
  qed
  moreover have "map (\<lambda>r. ms ! snd r) ?xs = ms"
    by (simp add: comp_def map_nth)
  ultimately show ?thesis by (simp add: scratch_def ranking_def)
qed

lemma scratch_nth:
  assumes "sorted ms" "distinct ms" "j < length ms"
  shows "ms ! snd (scratch ms p ! j) = ranking ms p ! j"
proof -
  have "length (scratch ms p) = length ms" by (simp add: scratch_def)
  with assms show ?thesis
    by (metis (no_types, lifting) nth_map scratch_ranking)
qed

section \<open>The table's arrays, read as rankings\<close>

lemma length_backup_row [simp]: "length (backup_row ms bc p) = bc"
  by (simp add: backup_row_def)

lemma NewTable_backups_nth:
  "p < Count \<Longrightarrow> j < nat bc \<Longrightarrow>
   t_backups (NewTable ids bc) ! (p * nat bc + j) = backup_row (sort ids) (nat bc) p ! j"
proof -
  assume "p < Count" and j: "j < nat bc"
  then have "concat (map (backup_row (sort ids) (nat bc)) [0..<Count]) ! (p * nat bc + j)
      = map (backup_row (sort ids) (nat bc)) [0..<Count] ! p ! j"
    by (intro nth_concat_rows) auto
  with \<open>p < Count\<close> j show ?thesis by (auto simp: NewTable_def Let_def)
qed

lemma NewTable_fields [simp]:
  "t_members (NewTable ids bc) = sort ids"
  "t_backupCount (NewTable ids bc) = nat bc"
  by (simp_all add: NewTable_def Let_def)

lemma OwnerOf_ranking:
  assumes "distinct ids" "p < Count"
  shows "OwnerOf (NewTable ids bc) p = (if ids = [] then [] else ranking ids p ! 0)"
  using assms scratch_nth [of "sort ids" 0 p]
  by (auto simp: OwnerOf_def NewTable_def owner_slot_def Let_def)

lemma BackupAt_ranking:
  assumes "distinct ids" "p < Count"
  shows "BackupAt (NewTable ids bc) p i =
    (if 0 \<le> i \<and> i < bc \<and> nat i + 1 < length ids then (ranking ids p ! (nat i + 1), True)
     else ([], False))"
proof (cases "0 \<le> i \<and> i < bc")
  case False
  then show ?thesis by (auto simp: BackupAt_def)
next
  case True
  then have "nat i < nat bc" by simp
  with True assms scratch_nth [of "sort ids" "nat i + 1" p] show ?thesis
    by (auto simp: BackupAt_def Let_def NewTable_backups_nth backup_row_def)
qed

lemma filter_upt_less: "filter (\<lambda>j. j < m) [0..<n] = [0..<min n m]"
  by (induction n) (auto simp: min_def not_le less_Suc_eq_le antisym)

lemma NumBackups_eq:
  assumes "distinct ids" "p < Count"
  shows "NumBackups (NewTable ids bc) p = min (nat bc) (length ids - 1)"
proof -
  have "filter (\<lambda>j. t_backups (NewTable ids bc) ! (p * nat bc + j) \<ge> 0) [0..<nat bc]
      = filter (\<lambda>j. j < length ids - 1) [0..<nat bc]"
    using assms(2) by (intro filter_cong) (auto simp: NewTable_backups_nth backup_row_def)
  also have "length \<dots> = min (nat bc) (length ids - 1)"
    by (simp add: filter_upt_less)
  finally show ?thesis by (simp add: NumBackups_def)
qed

section \<open>Properties of the partition table\<close>

lemma ranking_remove:
  "distinct ids \<Longrightarrow> ranking (removeAll m ids) p = removeAll m (ranking ids p)"
  by (simp add: removeAll_filter_not_eq ranking_filter)

lemma hd_removeAll_ranking:
  assumes "distinct xs" "2 \<le> length xs"
  shows "removeAll m xs ! 0 = (if m = xs ! 0 then xs ! 1 else xs ! 0)"
proof -
  from assms(2) obtain a b ys where "xs = a # b # ys"
    by (cases xs; cases "tl xs") auto
  with assms(1) show ?thesis by simp
qed

lemma removeAll_nonempty: "distinct xs \<Longrightarrow> 2 \<le> length xs \<Longrightarrow> removeAll m xs \<noteq> []"
  by (cases xs; cases "tl xs") auto

text \<open>every node that sees the same members computes the same table: the table depends on the
  multiset of member ids only, not on the order in which they were collected from the member map.\<close>

theorem table_order_independent:
  "mset ids = mset ids' \<Longrightarrow> NewTable ids bc = NewTable ids' bc"
  using properties_for_sort [of "sort ids'" ids] by (simp add: NewTable_def Let_def)

theorem table_order_independent_witness:
  "NewTable [str ''b'', str ''a''] 1 = NewTable [str ''a'', str ''b''] 1"
  by (rule table_order_independent) simp

text \<open>the owner of a partition is a member of the cluster with the highest rendezvous weight.\<close>

theorem table_owner_top:
  assumes "distinct ids" "ids \<noteq> []" "p < Count"
  shows "OwnerOf (NewTable ids bc) p \<in> set ids \<and>
    (\<forall>m\<in>set ids. hrwWeight m p \<le> hrwWeight (OwnerOf (NewTable ids bc) p) p)"
proof -
  have o: "OwnerOf (NewTable ids bc) p = hd (ranking ids p)"
    using assms by (simp add: OwnerOf_ranking hd_conv_nth ranking_nonempty)
  have "hd (ranking ids p) \<in> set ids"
    by (metis assms(2) hd_in_set length_0_conv ranking_basic(1,2))
  moreover have "hrwWeight m p \<le> hrwWeight (hd (ranking ids p)) p" if "m \<in> set ids" for m
    using ids.sort_by_hd [OF assms(2) that, of p]
    by (auto simp: ids.le_def id_less_def ranking_def split: if_splits)
  ultimately show ?thesis by (simp add: o)
qed

theorem table_owner_top_witness:
  "OwnerOf (NewTable [str ''a'', str ''b''] 1) 7 \<in> {str ''a'', str ''b''} \<and>
   hrwWeight (str ''a'') 7 \<le> hrwWeight (OwnerOf (NewTable [str ''a'', str ''b''] 1) 7) 7"
  using table_owner_top [of "[str ''a'', str ''b'']" 7 1] by (simp add: str_def Count_def)

text \<open>the replicas of a partition (its owner and its \<open>NumBackups\<close> backups) are distinct members,
  there are as many backups as configured or as the cluster can supply, and slots past that number
  are empty.\<close>

theorem table_replicas_distinct:
  assumes "distinct ids" "ids \<noteq> []" "p < Count"
  shows "let t = NewTable ids bc; n = NumBackups t p;
             rs = OwnerOf t p # map (\<lambda>i. fst (BackupAt t p (int i))) [0..<n]
         in n = min (nat bc) (length ids - 1) \<and> distinct rs \<and> set rs \<subseteq> set ids \<and>
            (\<forall>i. snd (BackupAt t p i) \<longleftrightarrow> 0 \<le> i \<and> i < int n)"
proof -
  let ?t = "NewTable ids bc" and ?n = "min (nat bc) (length ids - 1)"
  have len: "Suc ?n \<le> length ids" using assms(2) by (cases ids) auto
  have "OwnerOf ?t p # map (\<lambda>i. fst (BackupAt ?t p (int i))) [0..<?n] = take (Suc ?n) (ranking ids p)"
    using assms len
    by (intro nth_equalityI) (auto simp: OwnerOf_ranking BackupAt_ranking nth_Cons split: nat.split)
  moreover have "distinct (take (Suc ?n) (ranking ids p))"
    using assms(1) by (simp add: distinct_take)
  moreover have "set (take (Suc ?n) (ranking ids p)) \<subseteq> set ids"
    using set_take_subset [of "Suc ?n" "ranking ids p"] by simp
  moreover have "\<forall>i. snd (BackupAt ?t p i) \<longleftrightarrow> 0 \<le> i \<and> i < int ?n"
    using assms by (auto simp: BackupAt_ranking)
  ultimately show ?thesis
    using assms unfolding Let_def by (simp only: NumBackups_eq) auto
qed

theorem table_replicas_distinct_witness:
  "distinct [str ''a'', str ''b'', str ''c''] \<and> NumBackups (NewTable [str ''a'', str ''b'', str ''c''] 5) 3 = 2"
  using table_replicas_distinct [of "[str ''a'', str ''b'', str ''c'']" 3 5]
  by (simp add: str_def Count_def Let_def)

text \<open>C17: when a member leaves, a partition it did not own keeps its owner, and a partition it did own
  goes to its first backup, so a failover target already holds the data.\<close>

theorem table_leave:
  assumes "distinct ids" "2 \<le> length ids" "1 \<le> bc" "p < Count"
  shows "OwnerOf (NewTable (removeAll m ids) bc') p =
    (if m = OwnerOf (NewTable ids bc) p then fst (BackupOf (NewTable ids bc) p)
     else OwnerOf (NewTable ids bc) p)"
  using assms hd_removeAll_ranking [of "ranking ids p" m] removeAll_nonempty [of ids m]
  by (auto simp: OwnerOf_ranking BackupOf_def BackupAt_ranking ranking_remove distinct_removeAll)

theorem table_leave_witness:
  "OwnerOf (NewTable (removeAll (str ''a'') [str ''a'', str ''b'']) 1) 9 =
    (if str ''a'' = OwnerOf (NewTable [str ''a'', str ''b''] 1) 9
     then fst (BackupOf (NewTable [str ''a'', str ''b''] 1) 9)
     else OwnerOf (NewTable [str ''a'', str ''b''] 1) 9)"
  by (rule table_leave) (simp_all add: str_def Count_def)

text \<open>C16: when a member joins, a partition either keeps its owner or goes to the new member: no data
  moves between the old members.\<close>

theorem table_join:
  assumes "distinct (m # ids)" "ids \<noteq> []" "p < Count"
  shows "OwnerOf (NewTable (m # ids) bc) p \<in> {m, OwnerOf (NewTable ids bc') p}"
proof -
  have "ranking ids p = removeAll m (ranking (m # ids) p)"
    using ranking_remove [of "m # ids" m p] assms(1) by simp
  moreover have "2 \<le> length (m # ids)" using assms(2) by (cases ids) auto
  ultimately show ?thesis
    using assms hd_removeAll_ranking [of "ranking (m # ids) p" m]
    by (auto simp: OwnerOf_ranking)
qed

theorem table_join_witness:
  "OwnerOf (NewTable [str ''c'', str ''a'', str ''b''] 1) 0
     \<in> {str ''c'', OwnerOf (NewTable [str ''a'', str ''b''] 1) 0}"
  by (rule table_join) (simp_all add: str_def Count_def)

end
