(* ===== verification/Phi.thy ===== *)
theory Phi
  imports Prelude Complex_Main
begin

text \<open>
  The phi-accrual failure detector of \<open>cluster/phi.go\<close>: the window of heartbeat intervals of a peer
  and the suspicion level computed from it.

  The \<open>float64\<close> values are real numbers here: the model leaves out rounding. The lemmas are the ones
  that do not depend on the last bits: the window is bounded and its running sums are the sums of its
  elements; the suspicion level is between 0 and 300, does not fall while a peer stays silent, and
  passes the threshold after a silence the window determines.
\<close>

section \<open>The detector\<close>

definition phiWindow :: nat where
  "phiWindow = 200"

definition phiMinSamples :: nat where
  "phiMinSamples = 3"

definition defaultPhiThreshold :: real where
  "defaultPhiThreshold = 8"

definition phiAcceptablePauseFactor :: real where
  "phiAcceptablePauseFactor = 1"

definition phiMinStdDevFactor :: real where
  "phiMinStdDevFactor = 1 / 2"

record phiHistory =
  ph_intervals :: "real list"
  ph_next :: nat
  ph_sum :: real
  ph_sumSq :: real
  ph_last :: int

definition newPhiHistory :: phiHistory where
  "newPhiHistory = \<lparr>ph_intervals = [], ph_next = 0, ph_sum = 0, ph_sumSq = 0, ph_last = 0\<rparr>"

definition phi_push :: "real \<Rightarrow> phiHistory \<Rightarrow> phiHistory" where
  "phi_push iv h =
     (let h2 = (if length (ph_intervals h) < phiWindow
                then h\<lparr>ph_intervals := ph_intervals h @ [iv]\<rparr>
                else let old = ph_intervals h ! ph_next h
                     in h\<lparr>ph_sum := ph_sum h - old, ph_sumSq := ph_sumSq h - old * old,
                          ph_intervals := (ph_intervals h)[ph_next h := iv],
                          ph_next := (ph_next h + 1) mod phiWindow\<rparr>)
      in h2\<lparr>ph_sum := ph_sum h2 + iv, ph_sumSq := ph_sumSq h2 + iv * iv\<rparr>)"

definition phi_record :: "int \<Rightarrow> phiHistory \<Rightarrow> phiHistory" where
  "phi_record now h =
     (let h1 = (if ph_last h \<noteq> 0 \<and> now > ph_last h then phi_push (real_of_int (now - ph_last h)) h else h)
      in h1\<lparr>ph_last := now\<rparr>)"

definition warm :: "phiHistory \<Rightarrow> bool" where
  "warm h \<longleftrightarrow> length (ph_intervals h) \<ge> phiMinSamples"

definition phi_mean :: "phiHistory \<Rightarrow> real" where
  "phi_mean h = ph_sum h / real (length (ph_intervals h))"

definition stdDev :: "phiHistory \<Rightarrow> real" where
  "stdDev h =
     (let n = real (length (ph_intervals h));
          mean = ph_sum h / n;
          variance = ph_sumSq h / n - mean * mean;
          variance = (if variance < 0 then 0 else variance);
          sd = sqrt variance;
          floor = mean * phiMinStdDevFactor
      in if sd < floor then floor else sd)"

text \<open>\<open>pLater\<close>: the logistic approximation of the probability that a heartbeat still arrives.\<close>

definition pLater :: "real \<Rightarrow> real \<Rightarrow> real \<Rightarrow> real" where
  "pLater elapsed adjMean sd =
     (let y = (elapsed - adjMean) / sd;
          e = exp (- y * (1.5976 + 0.070566 * y * y))
      in if elapsed > adjMean then e / (1 + e) else 1 - 1 / (1 + e))"

definition phi :: "int \<Rightarrow> phiHistory \<Rightarrow> real" where
  "phi now h =
     (if \<not> warm h \<or> ph_last h = 0 then 0
      else let elapsed = real_of_int (now - ph_last h);
               adjMean = phi_mean h * (1 + phiAcceptablePauseFactor);
               p = pLater elapsed adjMean (stdDev h);
               p = (if p < 1 / 10 ^ 300 then 1 / 10 ^ 300 else p)
           in - log 10 p)"

section \<open>The window\<close>

inductive phi_reach :: "phiHistory \<Rightarrow> bool" where
  phi_new: "phi_reach newPhiHistory"
| phi_rec: "phi_reach h \<Longrightarrow> phi_reach (phi_record now h)"

definition phi_inv :: "phiHistory \<Rightarrow> bool" where
  "phi_inv h \<longleftrightarrow> length (ph_intervals h) \<le> phiWindow \<and> ph_next h < phiWindow \<and>
     ph_sum h = sum_list (ph_intervals h) \<and> ph_sumSq h = sum_list (map (\<lambda>x. x * x) (ph_intervals h)) \<and>
     (\<forall>x \<in> set (ph_intervals h). 0 < x)"

lemma sum_list_list_update:
  fixes xs :: "real list"
  shows "i < length xs \<Longrightarrow> sum_list (xs[i := v]) = sum_list xs - xs ! i + v"
  by (induction xs arbitrary: i) (auto split: nat.splits)

lemma phi_inv_push:
  assumes "phi_inv h" "0 < iv"
  shows "phi_inv (phi_push iv h)"
proof (cases "length (ph_intervals h) < phiWindow")
  case True
  with assms show ?thesis by (auto simp: phi_push_def phi_inv_def Let_def)
next
  case False
  with assms have l: "length (ph_intervals h) = phiWindow" by (simp add: phi_inv_def)
  have n: "ph_next h < length (ph_intervals h)" using assms l by (simp add: phi_inv_def)
  have "\<forall>x \<in> set ((ph_intervals h)[ph_next h := iv]). 0 < x"
    using assms set_update_subset_insert [of "ph_intervals h" "ph_next h" iv] by (auto simp: phi_inv_def)
  moreover have "Suc (ph_next h) mod phiWindow < phiWindow" by (simp add: phiWindow_def)
  ultimately show ?thesis
    using False assms l n by (simp add: phi_push_def phi_inv_def Let_def sum_list_list_update map_update)
qed

lemma phi_inv_record: "phi_inv h \<Longrightarrow> phi_inv (phi_record now h)"
  using phi_inv_push [of h "real_of_int (now - ph_last h)"]
  by (simp add: phi_record_def Let_def) (simp add: phi_inv_def)

lemma phi_reach_inv: "phi_reach h \<Longrightarrow> phi_inv h"
proof (induction rule: phi_reach.induct)
  case phi_new
  show ?case by (simp add: phi_inv_def newPhiHistory_def phiWindow_def)
qed (rule phi_inv_record)

section \<open>The suspicion level\<close>

lemma warm_mean_pos:
  assumes "phi_inv h" "warm h"
  shows "0 < phi_mean h" "0 < stdDev h"
proof -
  have n: "ph_intervals h \<noteq> []" using assms(2) by (auto simp: warm_def phiMinSamples_def)
  have "xs \<noteq> [] \<Longrightarrow> \<forall>x \<in> set xs. 0 < x \<Longrightarrow> 0 < sum_list xs" for xs :: "real list"
    by (induction xs rule: induct_list012) (auto simp: add_pos_pos)
  then have "0 < sum_list (ph_intervals h)" using assms(1) n by (simp add: phi_inv_def)
  then have "0 < ph_sum h" using assms(1) by (simp add: phi_inv_def)
  with n show m: "0 < phi_mean h" by (simp add: phi_mean_def)
  then have f: "0 < phi_mean h * phiMinStdDevFactor" by (simp add: phiMinStdDevFactor_def)
  have "phi_mean h * phiMinStdDevFactor \<le> stdDev h"
    by (auto simp: stdDev_def phi_mean_def Let_def)
  with f show "0 < stdDev h" by linarith
qed

lemma pLater_alt: "pLater elapsed adjMean sd =
    (let y = (elapsed - adjMean) / sd in 1 / (1 + exp (y * (1.5976 + 0.070566 * y * y))))"
proof -
  define u where "u = (elapsed - adjMean) / sd * (1.5976 + 0.070566 * ((elapsed - adjMean) / sd) * ((elapsed - adjMean) / sd))"
  have p: "0 < exp u" "1 + exp u \<noteq> 0" by (simp_all add: add_pos_pos less_imp_neq [symmetric])
  have "exp (- u) / (1 + exp (- u)) = 1 / (1 + exp u)"
    using p by (simp add: exp_minus field_simps)
  moreover have "1 - 1 / (1 + exp (- u)) = 1 / (1 + exp u)"
  proof -
    have "1 + exp (- u) \<noteq> 0" by (simp add: add_pos_pos less_imp_neq [symmetric])
    then have "1 - 1 / (1 + exp (- u)) = exp (- u) / (1 + exp (- u))" by (simp add: field_simps)
    with \<open>exp (- u) / (1 + exp (- u)) = 1 / (1 + exp u)\<close> show ?thesis by simp
  qed
  ultimately show ?thesis
    unfolding pLater_def Let_def by (simp add: u_def mult.assoc)
qed

definition phi_u :: "real \<Rightarrow> real" where
  "phi_u y = y * (1.5976 + 0.070566 * y * y)"

lemma phi_u_mono: "x \<le> y \<Longrightarrow> phi_u x \<le> phi_u y"
proof -
  assume "x \<le> y"
  then have "x * 1.5976 \<le> y * 1.5976" by simp
  moreover have "x ^ 3 \<le> y ^ 3" using \<open>x \<le> y\<close> by (intro power_mono_odd) auto
  ultimately show ?thesis by (simp add: phi_u_def algebra_simps power3_eq_cube)
qed

lemma pLater_phi_u: "pLater elapsed adjMean sd = 1 / (1 + exp (phi_u ((elapsed - adjMean) / sd)))"
  by (simp add: pLater_alt phi_u_def Let_def)

lemma logistic_range: "0 < 1 / (1 + exp (u :: real))" "1 / (1 + exp u) < 1"
proof -
  have "0 < exp u" by simp
  then show "0 < 1 / (1 + exp u)" "1 / (1 + exp u) < 1" by (simp_all add: add_pos_pos)
qed

lemma phi_value:
  assumes "warm h" "ph_last h \<noteq> 0"
  shows "phi now h = - log 10 (max (1 / 10 ^ 300)
    (1 / (1 + exp (phi_u ((real_of_int (now - ph_last h) - phi_mean h * 2) / stdDev h)))))"
  using assms by (simp add: phi_def Let_def pLater_phi_u phiAcceptablePauseFactor_def max_def del: of_int_diff)

lemma neg_log_power: "- log 10 (1 / 10 ^ n) = real n"
  by (simp add: log_divide log_nat_power)

lemma neg_log_mono: "0 < p \<Longrightarrow> p \<le> q \<Longrightarrow> - log 10 q \<le> - log 10 p"
  by simp

text \<open>
  The suspicion level stays between 0 and 300 whatever heartbeats were recorded, and it never
  falls while a peer stays silent: a later check with no heartbeat in between is at least as
  suspicious.
\<close>

theorem phi_bounded_monotone:
  assumes "phi_reach h" "now \<le> now'"
  shows "0 \<le> phi now h \<and> phi now h \<le> phi now' h \<and> phi now' h \<le> 300"
proof (cases "warm h \<and> ph_last h \<noteq> 0")
  case False
  then show ?thesis by (auto simp: phi_def)
next
  case True
  then have sd: "0 < stdDev h" using warm_mean_pos phi_reach_inv [OF assms(1)] by blast
  let ?y = "\<lambda>t. (real_of_int (t - ph_last h) - phi_mean h * 2) / stdDev h"
  let ?q = "\<lambda>t. max (1 / 10 ^ 300 :: real) (1 / (1 + exp (phi_u (?y t))))"
  have v: "phi t h = - log 10 (?q t)" for t using True by (intro phi_value) auto
  have pos: "0 < ?q t" for t by (simp add: less_max_iff_disj)
  have le1: "?q t \<le> 1" for t
    using logistic_range(2) [of "phi_u (?y t)"] by (intro max.boundedI) (auto simp del: divide_less_eq_1)
  have "?y now \<le> ?y now'" using assms(2) sd by (intro divide_right_mono) auto
  then have "exp (phi_u (?y now)) \<le> exp (phi_u (?y now'))" by (simp add: phi_u_mono)
  then have "1 / (1 + exp (phi_u (?y now'))) \<le> 1 / (1 + exp (phi_u (?y now)))"
    by (intro divide_left_mono) (auto simp: add_pos_pos)
  then have "?q now' \<le> ?q now" by (intro max.mono) auto
  then have "phi now h \<le> phi now' h" unfolding v using pos by (intro neg_log_mono)
  moreover have "0 \<le> phi now h" unfolding v using neg_log_mono [OF pos le1] by simp
  moreover have "phi now' h \<le> 300"
  proof -
    have "- log 10 (?q now') \<le> - log 10 (1 / 10 ^ 300)" by (intro neg_log_mono) auto
    also have "\<dots> = 300" unfolding neg_log_power by simp
    finally show ?thesis unfolding v .
  qed
  ultimately show ?thesis by blast
qed

theorem phi_bounded_monotone_witness: "phi 5 (phi_record 3 newPhiHistory) \<le> phi 9 (phi_record 3 newPhiHistory)"
  using phi_bounded_monotone [OF phi_rec [OF phi_new], of 5 9 3] by simp

lemma exp_24: "(10 :: real) ^ 8 \<le> exp 24"
proof -
  have "(5 / 2 :: real) \<le> exp 1" using exp_lower_Taylor_quadratic [of 1] by simp
  then have "(5 / 2 :: real) ^ 24 \<le> exp 1 ^ 24" by (intro power_mono) auto
  moreover have "(10 :: real) ^ 8 \<le> (5 / 2) ^ 24" by (simp add: power_divide)
  moreover have "exp (1 :: real) ^ 24 = exp 24" by (simp flip: exp_of_nat_mult)
  ultimately show ?thesis by linarith
qed

text \<open>
  C26: A peer that stays silent is eventually suspected. Once a peer has enough history, a silence of
  twice the mean interval plus six standard deviations brings the suspicion level to the eviction
  threshold, and every later check finds it there.
\<close>

theorem phi_detects_silence:
  assumes "phi_reach h" "warm h" "ph_last h \<noteq> 0"
    "real_of_int (now - ph_last h) \<ge> 2 * phi_mean h + 6 * stdDev h"
  shows "phi now h \<ge> defaultPhiThreshold"
proof -
  have sd: "0 < stdDev h" using warm_mean_pos phi_reach_inv [OF assms(1)] assms(2) by blast
  let ?y = "(real_of_int (now - ph_last h) - phi_mean h * 2) / stdDev h"
  have "6 \<le> ?y" using assms(4) sd by (simp add: field_simps)
  then have "phi_u 6 \<le> phi_u ?y" by (rule phi_u_mono)
  moreover have "24 \<le> phi_u 6" by (simp add: phi_u_def)
  ultimately have "exp 24 \<le> exp (phi_u ?y)" by simp
  with exp_24 have "10 ^ 8 \<le> 1 + exp (phi_u ?y)" by linarith
  then have "1 / (1 + exp (phi_u ?y)) \<le> 1 / 10 ^ 8" by (intro divide_left_mono) (auto simp: add_pos_pos)
  then have "max (1 / 10 ^ 300) (1 / (1 + exp (phi_u ?y))) \<le> 1 / 10 ^ 8" by (intro max.boundedI) auto
  then have "- log 10 (1 / 10 ^ 8) \<le> phi now h"
    unfolding phi_value [OF assms(2,3)] by (intro neg_log_mono) (simp add: less_max_iff_disj)
  moreover have "- log 10 (1 / 10 ^ 8) = (8 :: real)" unfolding neg_log_power by simp
  ultimately show ?thesis by (simp add: defaultPhiThreshold_def)
qed

definition demo_history :: phiHistory where
  "demo_history = phi_record 5 (phi_record 4 (phi_record 3 (phi_record 2 newPhiHistory)))"

lemma demo_history_value: "demo_history = \<lparr>ph_intervals = [1, 1, 1], ph_next = 0, ph_sum = 3, ph_sumSq = 3, ph_last = 5\<rparr>"
  by (simp add: demo_history_def phi_record_def phi_push_def newPhiHistory_def phiWindow_def)

theorem phi_detects_silence_witness: "phi 10 demo_history \<ge> defaultPhiThreshold"
proof (rule phi_detects_silence)
  show "phi_reach demo_history" by (simp add: demo_history_def phi_new phi_rec)
qed (simp_all add: demo_history_value warm_def phiMinSamples_def phi_mean_def stdDev_def phiMinStdDevFactor_def)

end
