(* ===== verification/Wire.thy ===== *)
theory Wire
  imports Prelude
begin

text \<open>
  The protobuf wire format as the generated code reads and writes it: the helpers of
  \<open>vendor/github.com/planetscale/vtprotobuf/protohelpers\<close> (\<open>EncodeVarint\<close>, \<open>SizeOfVarint\<close>, \<open>Skip\<close>)
  and the loop that every generated \<open>UnmarshalVT\<close> consists of, with the fields of the message as a
  parameter (\<open>decode_loop\<close>). The messages themselves are in theory \<open>Messages\<close>.

  A generated \<open>MarshalToSizedBufferVT\<close> fills a buffer of \<open>SizeVT\<close> bytes from the back; the model
  writes the same fields in their order in the buffer. The index \<open>iNdEx\<close> of the decoder is the
  number of bytes already consumed, \<open>l\<close> minus the length of the rest.
\<close>

section \<open>Varints\<close>

datatype proto_error =
  ErrIntOverflow | ErrUnexpectedEOF | ErrInvalidLength | ErrUnexpectedEndOfGroup
  | ErrEndGroup | ErrIllegalTag | ErrWrongWireType | ErrIllegalWireType

lemma unat_drop_bit7 [simp]: "unat (drop_bit 7 v :: u64) = unat v div 128"
  by (simp add: drop_bit_eq_div unat_div_distrib)

function EncodeVarint :: "u64 \<Rightarrow> bytes" where
  "EncodeVarint v =
     (if v \<ge> 128 then ucast (v AND 0x7f OR 0x80) # EncodeVarint (drop_bit 7 v) else [ucast v])"
  by pat_completeness auto
termination
  by (relation "measure unat") (auto simp: word_le_nat_alt)

declare EncodeVarint.simps [simp del]

text \<open>\<open>math/bits.Len64\<close>: the number of bits needed to represent the argument.\<close>

function Len64 :: "u64 \<Rightarrow> nat" where
  "Len64 x = (if x = 0 then 0 else Suc (Len64 (drop_bit 1 x)))"
  by pat_completeness auto
termination
  by (relation "measure unat") (auto simp: unat_drop_bit_eq drop_bit_eq_div unat_div_distrib unat_gt_0)

declare Len64.simps [simp del]

definition SizeOfVarint :: "u64 \<Rightarrow> nat" where
  "SizeOfVarint x = (Len64 (x OR 1) + 6) div 7"

fun varint_loop :: "nat \<Rightarrow> u64 \<Rightarrow> bytes \<Rightarrow> proto_error + (u64 \<times> bytes)" where
  "varint_loop shift acc [] = (if shift \<ge> 64 then Inl ErrIntOverflow else Inl ErrUnexpectedEOF)"
| "varint_loop shift acc (b # bs) =
     (if shift \<ge> 64 then Inl ErrIntOverflow
      else let acc = acc OR push_bit shift (ucast (b AND 0x7f))
           in if b < 0x80 then Inr (acc, bs) else varint_loop (shift + 7) acc bs)"

declare varint_loop.simps [simp del]

lemma varint_loop_shorter: "varint_loop s a bs = Inr (v, rest) \<Longrightarrow> length rest < length bs"
proof (induction s a bs rule: varint_loop.induct)
  case (2 shift acc b bs)
  then show ?case by (auto simp: varint_loop.simps Let_def split: if_splits)
qed (simp add: varint_loop.simps split: if_splits)

section \<open>Skipping an unknown record\<close>

definition skip_value :: "bytes \<Rightarrow> nat \<Rightarrow> nat \<Rightarrow> nat \<Rightarrow> proto_error + (nat \<times> nat)" where
  "skip_value d wireType i depth =
     (if wireType = 0 then
        (case varint_loop 0 0 (drop i d) of
           Inl e \<Rightarrow> Inl e | Inr (_, rest) \<Rightarrow> Inr (length d - length rest, depth))
      else if wireType = 1 then Inr (i + 8, depth)
      else if wireType = 2 then
        (case varint_loop 0 0 (drop i d) of
           Inl e \<Rightarrow> Inl e
         | Inr (n, rest) \<Rightarrow>
             (let len = int64_of n; i = length d - length rest
              in if len < 0 then Inl ErrInvalidLength
                 else if wrap64 (int i + len) < 0 then Inl ErrInvalidLength
                 else Inr (i + nat len, depth)))
      else if wireType = 3 then Inr (i, depth + 1)
      else if wireType = 4 then
        (if depth = 0 then Inl ErrUnexpectedEndOfGroup else Inr (i, depth - 1))
      else if wireType = 5 then Inr (i + 4, depth)
      else Inl ErrIllegalWireType)"

lemma skip_value_mono: "skip_value d w i depth = Inr (i', depth') \<Longrightarrow> i \<le> length d \<Longrightarrow> i \<le> i'"
  by (auto simp: skip_value_def Let_def dest!: varint_loop_shorter split: if_splits sum.splits)

function Skip_loop :: "bytes \<Rightarrow> nat \<Rightarrow> nat \<Rightarrow> proto_error + nat" where
  "Skip_loop d i depth =
     (if i < length d then
        (case varint_loop 0 0 (drop i d) of
           Inl e \<Rightarrow> Inl e
         | Inr (wire, rest) \<Rightarrow>
             (case skip_value d (unat (wire AND 0x7)) (length d - length rest) depth of
                Inl e \<Rightarrow> Inl e
              | Inr (i', depth') \<Rightarrow> if depth' = 0 then Inr i' else Skip_loop d i' depth'))
      else Inl ErrUnexpectedEOF)"
  by pat_completeness auto
termination
proof (relation "measure (\<lambda>(d, i, _). length d - i)")
  fix d i depth x wire rest y i' depth'
  assume "i < length d" "varint_loop 0 0 (drop i d) = Inr x" "(wire, rest) = x"
    "skip_value d (unat (wire AND 0x7)) (length d - length rest) depth = Inr y" "(i', depth') = y"
  then show "((d, i', depth'), d, i, depth) \<in> measure (\<lambda>(d, i, _). length d - i)"
    using varint_loop_shorter [of 0 0 "drop i d" wire rest]
      skip_value_mono [of d "unat (wire AND 0x7)" "length d - length rest" depth i' depth']
    by auto
qed simp

declare Skip_loop.simps [simp del]

definition Skip :: "bytes \<Rightarrow> proto_error + nat" where
  "Skip d = Skip_loop d 0 0"

lemma Skip_loop_advances: "Skip_loop d i depth = Inr n \<Longrightarrow> i < n"
proof (induction d i depth rule: Skip_loop.induct)
  case (1 d i depth)
  from 1(2) show ?case
    using varint_loop_shorter [of 0 0 "drop i d"] 1(1)
    by (subst (asm) Skip_loop.simps)
       (fastforce split: if_splits sum.splits prod.splits dest: skip_value_mono)
qed

lemma Skip_pos: "Skip d = Inr n \<Longrightarrow> 0 < n"
  unfolding Skip_def by (rule Skip_loop_advances)

section \<open>The decoding loop of a message\<close>

datatype 'm field = LenField "bytes \<Rightarrow> 'm \<Rightarrow> proto_error + 'm" | VarField "u64 \<Rightarrow> 'm \<Rightarrow> 'm"

definition len_payload :: "nat \<Rightarrow> bytes \<Rightarrow> proto_error + (bytes \<times> bytes)" where
  "len_payload l bs =
     (case varint_loop 0 0 bs of
        Inl e \<Rightarrow> Inl e
      | Inr (n, rest) \<Rightarrow>
          (let byteLen = int64_of n; iNdEx = int (l - length rest)
           in if byteLen < 0 then Inl ErrInvalidLength
              else if wrap64 (iNdEx + byteLen) < 0 then Inl ErrInvalidLength
              else if iNdEx + byteLen > int l then Inl ErrUnexpectedEOF
              else Inr (take (nat byteLen) rest, drop (nat byteLen) rest)))"

lemma len_payload_shorter: "len_payload l bs = Inr (p, rest) \<Longrightarrow> length rest < length bs"
  by (auto simp: len_payload_def Let_def dest!: varint_loop_shorter split: sum.splits if_splits)

function decode_loop ::
  "(int \<Rightarrow> 'm field option) \<Rightarrow> (bytes \<Rightarrow> 'm \<Rightarrow> 'm) \<Rightarrow> nat \<Rightarrow> bytes \<Rightarrow> 'm \<Rightarrow> proto_error + 'm" where
  "decode_loop sch unk l bs m =
     (if bs = [] then Inr m
      else case varint_loop 0 0 bs of
        Inl e \<Rightarrow> Inl e
      | Inr (wire, rest) \<Rightarrow>
          (let fieldNum = sint (ucast (drop_bit 3 wire) :: u32); wireType = wire AND 0x7
           in if wireType = 4 then Inl ErrEndGroup
              else if fieldNum \<le> 0 then Inl ErrIllegalTag
              else case sch fieldNum of
                Some (LenField h) \<Rightarrow>
                  if wireType \<noteq> 2 then Inl ErrWrongWireType
                  else (case len_payload l rest of
                          Inl e \<Rightarrow> Inl e
                        | Inr (p, rest') \<Rightarrow>
                            (case h p m of Inl e \<Rightarrow> Inl e | Inr m' \<Rightarrow> decode_loop sch unk l rest' m'))
              | Some (VarField h) \<Rightarrow>
                  if wireType \<noteq> 0 then Inl ErrWrongWireType
                  else (case varint_loop 0 0 rest of
                          Inl e \<Rightarrow> Inl e
                        | Inr (v, rest') \<Rightarrow> decode_loop sch unk l rest' (h v m))
              | None \<Rightarrow>
                  (case Skip bs of
                     Inl e \<Rightarrow> Inl e
                   | Inr skippy \<Rightarrow>
                       if wrap64 (int (l - length bs) + int skippy) < 0 then Inl ErrInvalidLength
                       else if skippy > length bs then Inl ErrUnexpectedEOF
                       else decode_loop sch unk l (drop skippy bs) (unk (take skippy bs) m))))"
  by pat_completeness auto
termination
  by (relation "measure (\<lambda>(_, _, _, bs, _). length bs)")
     (auto dest!: varint_loop_shorter len_payload_shorter Skip_pos)

declare decode_loop.simps [simp del]

definition unmarshal :: "(int \<Rightarrow> 'm field option) \<Rightarrow> (bytes \<Rightarrow> 'm \<Rightarrow> 'm) \<Rightarrow> bytes \<Rightarrow> 'm \<Rightarrow> proto_error + 'm" where
  "unmarshal sch unk dAtA m = decode_loop sch unk (length dAtA) dAtA m"

section \<open>Writing a field\<close>

definition len_field :: "byte \<Rightarrow> bytes \<Rightarrow> bytes" where
  "len_field tag b = (if length b > 0 then tag # EncodeVarint (of_nat (length b)) @ b else [])"

definition var_field :: "byte \<Rightarrow> u64 \<Rightarrow> bytes" where
  "var_field tag v = (if v \<noteq> 0 then tag # EncodeVarint v else [])"

definition int_field :: "byte \<Rightarrow> int \<Rightarrow> bytes" where
  "int_field tag v = (if v \<noteq> 0 then tag # EncodeVarint (word_of_int v) else [])"

definition bool_field :: "byte \<Rightarrow> bool \<Rightarrow> bytes" where
  "bool_field tag b = (if b then [tag, 1] else [])"

definition msg_field :: "byte \<Rightarrow> bytes \<Rightarrow> bytes" where
  "msg_field tag b = tag # EncodeVarint (of_nat (length b)) @ b"

section \<open>Varint round trip\<close>

lemma varint_split: "push_bit s (v AND 0x7f) OR push_bit (s + 7) (drop_bit 7 v) = push_bit s (v :: u64)"
proof -
  have "v AND 0x7f = take_bit 7 v" by (simp add: take_bit_eq_mask mask_eq_exp_minus_1)
  then have "v AND 0x7f OR push_bit 7 (drop_bit 7 v) = v"
    by (auto simp: bit_eq_iff bit_simps)
  then have "push_bit s (v AND 0x7f OR push_bit 7 (drop_bit 7 v)) = push_bit s v" by simp
  then show ?thesis by (simp add: push_bit_or add.commute)
qed

lemma varint_byte:
  fixes v :: u64
  shows "(ucast (ucast (v AND 0x7f OR 0x80) AND 0x7f :: byte) :: u64) = v AND 0x7f"
    "\<not> (ucast (v AND 0x7f OR 0x80) :: byte) < 0x80"
proof -
  have m: "v AND 0x7f = take_bit 7 v" by (simp add: take_bit_eq_mask mask_eq_exp_minus_1)
  have n: "(b :: byte) AND 0x7f = take_bit 7 b" for b by (simp add: take_bit_eq_mask mask_eq_exp_minus_1)
  have e: "bit (0x80 :: u64) i \<longleftrightarrow> i = 7" for i
    using bit_exp_iff [where 'a = "64 word", of 7 i] by auto
  have e': "bit (0x80 :: byte) i \<longleftrightarrow> i = 7" for i
    using bit_exp_iff [where 'a = "8 word", of 7 i] by auto
  have e'': "bit (0x80 :: int) i \<longleftrightarrow> i = 7" "bit (0x80 :: nat) i \<longleftrightarrow> i = 7" for i
    using bit_exp_iff [where 'a = int, of 7 i] bit_exp_iff [where 'a = nat, of 7 i] by auto
  show "(ucast (ucast (v AND 0x7f OR 0x80) AND 0x7f :: byte) :: u64) = v AND 0x7f"
    unfolding m n by (rule bit_word_eqI) (auto simp: bit_simps e e' e'')
  have "bit (ucast (v AND 0x7f OR 0x80) :: byte) 7" unfolding m by (simp add: bit_simps e e' e'')
  moreover have "\<not> bit (b :: byte) 7" if "b < 0x80" for b
  proof -
    from that have "b div 128 = 0" by (simp add: word_unat_eq_iff unat_div_distrib word_less_nat_alt)
    then show ?thesis by (simp add: bit_iff_odd)
  qed
  ultimately show "\<not> (ucast (v AND 0x7f OR 0x80) :: byte) < 0x80" by blast
qed

lemma varint_last:
  fixes v :: u64
  assumes "v < 128"
  shows "(ucast (ucast v AND 0x7f :: byte) :: u64) = v" "(ucast v :: byte) < 0x80"
proof -
  have v: "unat v < 128" using assms by (simp add: word_less_nat_alt)
  then show "(ucast v :: byte) < 0x80" by (simp add: word_less_nat_alt unsigned_ucast_eq take_bit_eq_mod)
  have "(b :: byte) AND 0x7f = take_bit 7 b" for b by (simp add: take_bit_eq_mask mask_eq_exp_minus_1)
  then have "unat (ucast (ucast v AND 0x7f :: byte) :: u64) = unat v"
    using v by (simp add: unsigned_ucast_eq unsigned_take_bit_eq take_bit_eq_mod unat_mod_distrib)
  then show "(ucast (ucast v AND 0x7f :: byte) :: u64) = v" by (simp add: word_unat_eq_iff)
qed

lemma varint_loop_Encode:
  assumes "shift < 64" "unat v < 2 ^ (64 - shift)"
  shows "varint_loop shift acc (EncodeVarint v @ rest) = Inr (acc OR push_bit shift v, rest)"
  using assms
proof (induction v arbitrary: shift acc rule: EncodeVarint.induct)
  case (1 v)
  show ?case
  proof (cases "v \<ge> 128")
    case True
    then have "128 \<le> unat v" by (simp add: word_le_nat_alt)
    with 1(3) have "(2 :: nat) ^ 7 < 2 ^ (64 - shift)" by simp
    then have s: "7 < 64 - shift" by (simp only: power_strict_increasing_iff one_less_numeral_iff semiring_norm)
    then have "(2 :: nat) ^ (64 - shift) = 2 ^ ((64 - (shift + 7)) + 7)" by simp
    also have "\<dots> = 128 * 2 ^ (64 - (shift + 7))" by (simp only: power_add) simp
    finally have "(2 :: nat) ^ (64 - shift) = 128 * 2 ^ (64 - (shift + 7))" .
    with 1(3) have d: "unat (drop_bit 7 v) < 2 ^ (64 - (shift + 7))"
      by (simp add: less_mult_imp_div_less mult.commute)
    have "shift + 7 < 64" using s by simp
    from 1(1) [OF True this d, of "acc OR push_bit shift (v AND 0x7f)"]
    have ih: "varint_loop (shift + 7) (acc OR push_bit shift (v AND 0x7f)) (EncodeVarint (drop_bit 7 v) @ rest) =
        Inr (acc OR push_bit shift v, rest)"
      by (simp only: or.assoc varint_split)
    have "EncodeVarint v = ucast (v AND 0x7f OR 0x80) # EncodeVarint (drop_bit 7 v)"
      using True by (subst EncodeVarint.simps) simp
    then show ?thesis using 1(2) ih varint_byte [of v]
      by (simp only: append_Cons varint_loop.simps(2) not_le Let_def if_False) simp
  next
    case False
    then have "v < 128" by simp
    moreover have "EncodeVarint v = [ucast v]" using False by (subst EncodeVarint.simps) simp
    ultimately show ?thesis using varint_last [of v] 1(2) by (simp add: varint_loop.simps)
  qed
qed

lemma varint_roundtrip [simp]: "varint_loop 0 0 (EncodeVarint v @ rest) = Inr (v, rest)"
  using varint_loop_Encode [of 0 v 0 rest] unat_lt2p [of v] by simp

lemma varint_roundtrip_Nil [simp]: "varint_loop 0 0 (EncodeVarint v) = Inr (v, [])"
  using varint_roundtrip [of v "[]"] by simp

lemma varint_tag: "tag < 0x80 \<Longrightarrow> varint_loop 0 0 (tag # rest) = Inr (ucast tag, rest)"
proof -
  assume a: "tag < 0x80"
  then have "unat tag < 128" by (simp add: word_less_nat_alt)
  moreover have "(b :: byte) AND 0x7f = take_bit 7 b" for b by (simp add: take_bit_eq_mask mask_eq_exp_minus_1)
  ultimately have "tag AND 0x7f = tag" by (simp add: word_unat_eq_iff unsigned_take_bit_eq take_bit_eq_mod unat_mod_distrib)
  with a show ?thesis by (simp add: varint_loop.simps)
qed

section \<open>The size of a varint\<close>

lemma Len64_bound: "Len64 x \<le> n \<longleftrightarrow> unat x < 2 ^ n"
proof (induction x arbitrary: n rule: Len64.induct)
  case (1 x)
  show ?case
  proof (cases "x = 0")
    case True
    then show ?thesis by (subst Len64.simps) simp
  next
    case False
    have "unat (drop_bit 1 x) = unat x div 2" by (simp add: drop_bit_eq_div unat_div_distrib)
    with 1 [OF False] False have s: "Len64 x \<le> Suc m \<longleftrightarrow> unat x div 2 < 2 ^ m" for m
      by (subst Len64.simps) simp
    show ?thesis
    proof (cases n)
      case 0
      with False show ?thesis by (subst Len64.simps) (simp add: unat_gt_0)
    next
      case (Suc m)
      with s show ?thesis by (simp add: div_less_iff_less_mult mult.commute)
    qed
  qed
qed

lemma unat_or_1: "unat (x OR 1 :: u64) = unat x + of_bool (even (unat x))"
proof -
  have "unat (x OR 1) = unat x OR 1" by (simp only: unsigned_or_eq unsigned_1)
  then show ?thesis by (simp only: or_one_eq)
qed

lemma Len64_or_1: "Len64 (x OR 1) \<le> Suc n \<longleftrightarrow> unat x < 2 ^ Suc n"
proof -
  have "even (2 ^ Suc n :: nat)" by simp
  then have "unat x + of_bool (even (unat x)) < 2 ^ Suc n \<longleftrightarrow> unat x < 2 ^ Suc n"
    by (cases "even (unat x)") (simp_all, presburger)
  then show ?thesis unfolding Len64_bound unat_or_1 .
qed

lemma EncodeVarint_le: "length (EncodeVarint v) \<le> Suc n \<longleftrightarrow> unat v < 128 ^ Suc n"
proof (induction v arbitrary: n rule: EncodeVarint.induct)
  case (1 v)
  show ?case
  proof (cases "v \<ge> 128")
    case True
    then have l: "length (EncodeVarint v) = Suc (length (EncodeVarint (drop_bit 7 v)))"
      by (subst EncodeVarint.simps) simp
    have pos: "0 < length (EncodeVarint w)" for w by (subst EncodeVarint.simps) simp
    have v: "128 \<le> unat v" using True by (simp add: word_le_nat_alt)
    show ?thesis
    proof (cases n)
      case 0
      with l v pos [of "drop_bit 7 v"] show ?thesis by simp
    next
      case (Suc m)
      with 1 [OF True, of m] l show ?thesis by (simp add: div_less_iff_less_mult mult.commute)
    qed
  next
    case False
    then have "unat v < 128" by (simp add: not_le word_less_nat_alt)
    moreover have "(128 :: nat) \<le> 128 ^ Suc n" by simp
    ultimately have "unat v < 128 ^ Suc n" by linarith
    with False show ?thesis by (subst EncodeVarint.simps) simp
  qed
qed

lemma EncodeVarint_pos: "0 < length (EncodeVarint v)"
  by (subst EncodeVarint.simps) simp

text \<open>\<open>SizeOfVarint\<close> is the number of bytes \<open>EncodeVarint\<close> writes.\<close>

lemma length_EncodeVarint: "length (EncodeVarint v) = SizeOfVarint v"
proof -
  have p: "0 < SizeOfVarint v"
  proof -
    have "\<not> Len64 (v OR 1) \<le> 0" unfolding Len64_bound unat_or_1 by (auto dest: odd_pos)
    then show ?thesis unfolding SizeOfVarint_def by linarith
  qed
  have "SizeOfVarint v \<le> Suc n \<longleftrightarrow> unat v < 128 ^ Suc n" for n
  proof -
    have "SizeOfVarint v \<le> Suc n \<longleftrightarrow> Len64 (v OR 1) \<le> Suc (7 * n + 6)"
      unfolding SizeOfVarint_def by linarith
    also have "\<dots> \<longleftrightarrow> unat v < 2 ^ Suc (7 * n + 6)" by (rule Len64_or_1)
    also have "(2 :: nat) ^ Suc (7 * n + 6) = 128 ^ Suc n"
    proof -
      have "Suc (7 * n + 6) = 7 * Suc n" by simp
      then have "(2 :: nat) ^ Suc (7 * n + 6) = (2 ^ 7) ^ Suc n" by (metis power_mult)
      then show ?thesis by simp
    qed
    finally show ?thesis .
  qed
  with EncodeVarint_le [of v] have "length (EncodeVarint v) \<le> Suc n \<longleftrightarrow> SizeOfVarint v \<le> Suc n" for n by blast
  from this [of "length (EncodeVarint v) - 1"] this [of "SizeOfVarint v - 1"] EncodeVarint_pos [of v] p show ?thesis
    by simp
qed

section \<open>Reading a written field\<close>

definition tag_number :: "byte \<Rightarrow> int" where
  "tag_number tag = sint (ucast (drop_bit 3 (ucast tag :: u64)) :: u32)"

definition tag_type :: "byte \<Rightarrow> u64" where
  "tag_type tag = ucast tag AND 0x7"

text \<open>The bytes \<open>bs\<close> are the rest of a buffer of \<open>l\<close> bytes that a Go slice can have.\<close>

definition in_buffer :: "nat \<Rightarrow> bytes \<Rightarrow> bool" where
  "in_buffer l bs \<longleftrightarrow> length bs \<le> l \<and> l < 2 ^ 63"

lemma in_buffer_append [simp]: "in_buffer l (xs @ ys) \<Longrightarrow> in_buffer l ys"
  by (simp add: in_buffer_def)

lemma int64_of_nat: "n < 2 ^ 63 \<Longrightarrow> int64_of (of_nat n) = int n"
  using int64_of_word_of_int [of "int n"] by (simp add: int64_range_def)

lemma len_payload_read:
  assumes "in_buffer l (EncodeVarint (of_nat (length b)) @ b @ rest)"
  shows "len_payload l (EncodeVarint (of_nat (length b)) @ b @ rest) = Inr (b, rest)"
proof -
  from assms have l: "length b + length rest \<le> l" "l < 2 ^ 63" by (simp_all add: in_buffer_def)
  then have i: "int64_of (of_nat (length b)) = int (length b)" by (intro int64_of_nat) simp
  have "int (l - length (b @ rest)) + int (length b) = int (l - length rest)" using l by simp
  moreover from l have "int64_range (int (l - length rest))" by (simp add: int64_range_def)
  ultimately show ?thesis by (simp add: len_payload_def i Let_def)
qed

lemma decode_Nil [simp]: "decode_loop sch unk l [] m = Inr m"
  by (subst decode_loop.simps) simp

lemma decode_msg_field:
  assumes "tag < 0x80" "tag_type tag = 2" "0 < tag_number tag" "sch (tag_number tag) = Some (LenField h)"
    "in_buffer l (msg_field tag b @ rest)"
  shows "decode_loop sch unk l (msg_field tag b @ rest) m =
    (case h b m of Inl e \<Rightarrow> Inl e | Inr m' \<Rightarrow> decode_loop sch unk l rest m')"
proof -
  have "in_buffer l (EncodeVarint (of_nat (length b)) @ b @ rest)"
    using assms(5) by (simp add: in_buffer_def msg_field_def)
  from len_payload_read [OF this] varint_tag [OF assms(1)] show ?thesis
    using assms(2-4) by (subst decode_loop.simps) (simp add: msg_field_def tag_number_def tag_type_def Let_def)
qed

lemma decode_len_field:
  assumes "tag < 0x80" "tag_type tag = 2" "0 < tag_number tag" "sch (tag_number tag) = Some (LenField h)"
    "in_buffer l (len_field tag b @ rest)"
  shows "decode_loop sch unk l (len_field tag b @ rest) m =
    (if b = [] then decode_loop sch unk l rest m
     else case h b m of Inl e \<Rightarrow> Inl e | Inr m' \<Rightarrow> decode_loop sch unk l rest m')"
proof (cases "b = []")
  case False
  then have "len_field tag b = msg_field tag b" by (simp add: len_field_def msg_field_def)
  with assms False decode_msg_field [of tag sch h l b rest unk m] show ?thesis by simp
qed (simp add: len_field_def)

lemma decode_set_field:
  assumes "tag < 0x80" "tag_type tag = 2" "0 < tag_number tag"
    "sch (tag_number tag) = Some (LenField (\<lambda>b m. Inr (upd b m)))" "in_buffer l (len_field tag b @ rest)"
  shows "decode_loop sch unk l (len_field tag b @ rest) m = decode_loop sch unk l rest (if b = [] then m else upd b m)"
  using decode_len_field [where sch = sch and tag = tag, OF assms, of unk m] by simp

lemma decode_var_field:
  assumes "tag < 0x80" "tag_type tag = 0" "0 < tag_number tag" "sch (tag_number tag) = Some (VarField h)"
  shows "decode_loop sch unk l (var_field tag v @ rest) m =
    decode_loop sch unk l rest (if v = 0 then m else h v m)"
proof (cases "v = 0")
  case False
  with assms(2-4) varint_tag [OF assms(1)] show ?thesis
    by (subst decode_loop.simps) (simp add: var_field_def tag_number_def tag_type_def Let_def)
qed (simp add: var_field_def)

lemma decode_int_field:
  assumes "tag < 0x80" "tag_type tag = 0" "0 < tag_number tag" "sch (tag_number tag) = Some (VarField h)"
  shows "decode_loop sch unk l (int_field tag v @ rest) m =
    decode_loop sch unk l rest (if v = 0 then m else h (word_of_int v) m)"
proof (cases "v = 0")
  case False
  with assms(2-4) varint_tag [OF assms(1)] show ?thesis
    by (subst decode_loop.simps) (simp add: int_field_def tag_number_def tag_type_def Let_def)
qed (simp add: int_field_def)

lemma decode_bool_field:
  assumes "tag < 0x80" "tag_type tag = 0" "0 < tag_number tag" "sch (tag_number tag) = Some (VarField h)"
  shows "decode_loop sch unk l (bool_field tag b @ rest) m =
    decode_loop sch unk l rest (if b then h 1 m else m)"
proof -
  have "EncodeVarint 1 = [1]" by (subst EncodeVarint.simps) (simp add: word_le_nat_alt)
  then have "bool_field tag b = var_field tag (if b then 1 else 0)" by (simp add: bool_field_def var_field_def)
  with decode_var_field [where sch = sch and tag = tag, OF assms, of unk l "if b then 1 else 0" rest m] show ?thesis by simp
qed

lemma decode_repeated:
  assumes "tag < 0x80" "tag_type tag = 2" "0 < tag_number tag" "sch (tag_number tag) = Some (LenField h)"
    "in_buffer l (concat (map (\<lambda>x. msg_field tag (enc x)) xs) @ rest)"
    "\<And>x m. x \<in> set xs \<Longrightarrow> h (enc x) m = Inr (add x m)"
  shows "decode_loop sch unk l (concat (map (\<lambda>x. msg_field tag (enc x)) xs) @ rest) m =
    decode_loop sch unk l rest (fold add xs m)"
  using assms(5,6)
proof (induction xs arbitrary: m)
  case (Cons x xs)
  have "in_buffer l (msg_field tag (enc x) @ concat (map (\<lambda>x. msg_field tag (enc x)) xs) @ rest)"
    using Cons.prems(1) by simp
  from decode_msg_field [where sch = sch and tag = tag, OF assms(1-4) this, of unk m] Cons.prems(2) [of x m] Cons.IH [of "add x m"] Cons.prems
  show ?case by simp
qed simp

text \<open>The sizes the generated \<open>SizeVT\<close> functions add up.\<close>

definition len_size :: "bytes \<Rightarrow> nat" where
  "len_size b = (let l = length b in if l > 0 then 1 + l + SizeOfVarint (of_nat l) else 0)"

definition var_size :: "u64 \<Rightarrow> nat" where
  "var_size v = (if v \<noteq> 0 then 1 + SizeOfVarint v else 0)"

definition int_size :: "int \<Rightarrow> nat" where
  "int_size v = (if v \<noteq> 0 then 1 + SizeOfVarint (word_of_int v) else 0)"

definition bool_size :: "bool \<Rightarrow> nat" where
  "bool_size b = (if b then 2 else 0)"

definition msg_size :: "nat \<Rightarrow> nat" where
  "msg_size l = 1 + l + SizeOfVarint (of_nat l)"

named_theorems field_sizes \<open>the length of a written field\<close>

lemma length_fields [field_sizes]:
  "length (len_field tag b) = len_size b" "length (var_field tag v) = var_size v"
  "length (int_field tag i) = int_size i" "length (bool_field tag c) = bool_size c"
  "length (msg_field tag b) = msg_size (length b)"
  by (simp_all add: len_field_def var_field_def int_field_def bool_field_def msg_field_def
      len_size_def var_size_def int_size_def bool_size_def msg_size_def length_EncodeVarint Let_def)

lemma length_repeated [field_sizes]:
  "length (concat (map (\<lambda>x. msg_field tag (enc x)) xs)) = sum_list (map (\<lambda>x. msg_size (length (enc x))) xs)"
  by (induction xs) (simp_all add: length_fields)

end
