(* ===== verification/Messages.thy ===== *)
theory Messages
  imports Wire
begin

text \<open>
  The messages of \<open>genproto/medusa/v1\<close>, as the generated code of \<open>map_vtproto.pb.go\<close>,
  \<open>cluster_vtproto.pb.go\<close> and \<open>transport_vtproto.pb.go\<close> encodes and decodes them, and
  \<open>codec/codec.go\<close>, which marshals into a buffer of exactly \<open>SizeVT\<close> bytes.

  Each message is a record with the fields of the Go struct (\<open>unknown\<close> is \<open>unknownFields\<close>);
  \<open>X_MarshalVT\<close> is the content of the buffer that \<open>MarshalToSizedBufferVT\<close> fills, \<open>X_SizeVT\<close> its
  size, \<open>X_schema\<close> the field switch of \<open>UnmarshalVT\<close>, \<open>X_zero\<close> the zero value the callers decode
  into. The locale \<open>vt_message\<close> is what the callers of the codec rely on: the size is exact and a
  message below the largest Go slice decodes to itself. It is interpreted for every message.
\<close>

section \<open>What the codec promises\<close>

lemma int64_of_word [simp]: "int64_range x \<Longrightarrow> int64_of (word_of_int x) = x"
  by (simp add: int64_of_word_of_int)

lemma tags [simp]:
  "tag_type 0x08 = 0" "tag_number 0x08 = 1" "tag_type 0x10 = 0" "tag_number 0x10 = 2"
  "tag_type 0x18 = 0" "tag_number 0x18 = 3" "tag_type 0x20 = 0" "tag_number 0x20 = 4"
  "tag_type 0x28 = 0" "tag_number 0x28 = 5"
  "tag_type 0x0a = 2" "tag_number 0x0a = 1" "tag_type 0x12 = 2" "tag_number 0x12 = 2"
  "tag_type 0x1a = 2" "tag_number 0x1a = 3" "tag_type 0x22 = 2" "tag_number 0x22 = 4"
  by code_simp+

lemma ucast_u32_roundtrip [simp]: "ucast (ucast (v :: u32) :: u64) = v" "(ucast (v :: u32) :: u64) = 0 \<longleftrightarrow> v = 0"
proof -
  show u: "ucast (ucast v :: u64) = v" by (rule bit_word_eqI) (simp add: bit_simps)
  have "v = 0" if "(ucast v :: u64) = 0" using u unfolding that by simp
  then show "(ucast v :: u64) = 0 \<longleftrightarrow> v = 0" by auto
qed

lemmas decode_fields =
  decode_set_field decode_set_field [where rest = "[]", simplified]
  decode_var_field decode_var_field [where rest = "[]", simplified]
  decode_int_field decode_int_field [where rest = "[]", simplified]
  decode_bool_field decode_bool_field [where rest = "[]", simplified]
  decode_msg_field decode_msg_field [where rest = "[]", simplified]

text \<open>
  \<open>codec.Marshal\<close>: \<open>dst\<close> is the backing array of the caller's buffer up to its capacity, reused when
  it is large enough. \<open>MarshalToSizedBufferVT\<close> fills the buffer from the end.
\<close>

definition codec_Marshal :: "('m \<Rightarrow> nat) \<Rightarrow> ('m \<Rightarrow> bytes) \<Rightarrow> bytes \<Rightarrow> 'm \<Rightarrow> bytes" where
  "codec_Marshal SizeVT MarshalVT dst m =
     (let size = SizeVT m;
          buf = (if length dst < size then replicate size 0 else take size dst)
      in take (length buf - length (MarshalVT m)) buf @ MarshalVT m)"

locale vt_message =
  fixes SizeVT :: "'m \<Rightarrow> nat" and MarshalVT :: "'m \<Rightarrow> bytes"
    and UnmarshalVT :: "bytes \<Rightarrow> 'm \<Rightarrow> proto_error + 'm" and zero :: 'm and ok :: "'m \<Rightarrow> bool"
  assumes length_MarshalVT: "length (MarshalVT m) = SizeVT m"
    and roundtrip: "ok m \<Longrightarrow> UnmarshalVT (MarshalVT m) zero = Inr m"
begin

lemma codec_Marshal_eq: "codec_Marshal SizeVT MarshalVT dst m = MarshalVT m"
  by (simp add: codec_Marshal_def length_MarshalVT Let_def)

lemma Marshal_inject: "ok m \<Longrightarrow> ok m' \<Longrightarrow> MarshalVT m = MarshalVT m' \<Longrightarrow> m = m'"
  by (metis Inr_inject roundtrip)

end

section \<open>The messages\<close>

subsection \<open>Member\<close>

record MemberMsg =
  mb_Id :: bytes
  mb_Addr :: bytes
  mb_unknown :: bytes

definition MemberMsg_zero :: MemberMsg where
  "MemberMsg_zero = \<lparr>mb_Id = [], mb_Addr = [], mb_unknown = []\<rparr>"

definition MemberMsg_MarshalVT :: "MemberMsg \<Rightarrow> bytes" where
  "MemberMsg_MarshalVT m =
     len_field 0x0a (mb_Id m) @
     len_field 0x12 (mb_Addr m) @
     mb_unknown m"

definition MemberMsg_SizeVT :: "MemberMsg \<Rightarrow> nat" where
  "MemberMsg_SizeVT m =
     len_size (mb_Id m) +
     len_size (mb_Addr m) +
     length (mb_unknown m)"

definition MemberMsg_schema :: "int \<Rightarrow> MemberMsg field option" where
  "MemberMsg_schema n =
     (if n = 1 then Some (LenField (\<lambda>b m. Inr (m\<lparr>mb_Id := b\<rparr>)))
      else if n = 2 then Some (LenField (\<lambda>b m. Inr (m\<lparr>mb_Addr := b\<rparr>)))
      else None)"

definition MemberMsg_UnmarshalVT :: "bytes \<Rightarrow> MemberMsg \<Rightarrow> proto_error + MemberMsg" where
  "MemberMsg_UnmarshalVT dAtA m =
     unmarshal MemberMsg_schema (\<lambda>b m. m\<lparr>mb_unknown := mb_unknown m @ b\<rparr>) dAtA m"

definition MemberMsg_ok :: "MemberMsg \<Rightarrow> bool" where
  "MemberMsg_ok m \<longleftrightarrow> mb_unknown m = [] \<and> MemberMsg_SizeVT m < 2 ^ 63"

interpretation mb_m: vt_message MemberMsg_SizeVT MemberMsg_MarshalVT MemberMsg_UnmarshalVT MemberMsg_zero MemberMsg_ok
proof
  show sz: "length (MemberMsg_MarshalVT m) = MemberMsg_SizeVT m" for m
    by (simp add: MemberMsg_MarshalVT_def MemberMsg_SizeVT_def field_sizes split: option.split)
  show "MemberMsg_UnmarshalVT (MemberMsg_MarshalVT m) MemberMsg_zero = Inr m" if ok: "MemberMsg_ok m" for m
  proof -
    from ok sz [of m] have l: "length (MemberMsg_MarshalVT m) < 2 ^ 63" by (simp add: MemberMsg_ok_def)
    then show ?thesis using ok
      by (cases m) (simp add: MemberMsg_ok_def MemberMsg_MarshalVT_def MemberMsg_UnmarshalVT_def unmarshal_def MemberMsg_schema_def
        MemberMsg_zero_def in_buffer_def decode_fields split del: if_split, simp)
  qed
qed

subsection \<open>JoinRequest\<close>

record JoinRequest =
  jq_Candidate :: "MemberMsg option"
  jq_unknown :: bytes

definition JoinRequest_zero :: JoinRequest where
  "JoinRequest_zero = \<lparr>jq_Candidate = None, jq_unknown = []\<rparr>"

definition JoinRequest_MarshalVT :: "JoinRequest \<Rightarrow> bytes" where
  "JoinRequest_MarshalVT m =
     (case jq_Candidate m of None \<Rightarrow> [] | Some x \<Rightarrow> msg_field 0x0a (MemberMsg_MarshalVT x)) @
     jq_unknown m"

definition JoinRequest_SizeVT :: "JoinRequest \<Rightarrow> nat" where
  "JoinRequest_SizeVT m =
     (case jq_Candidate m of None \<Rightarrow> 0 | Some x \<Rightarrow> msg_size (MemberMsg_SizeVT x)) +
     length (jq_unknown m)"

definition JoinRequest_schema :: "int \<Rightarrow> JoinRequest field option" where
  "JoinRequest_schema n =
     (if n = 1 then Some (LenField (\<lambda>b m.
          case MemberMsg_UnmarshalVT b (case jq_Candidate m of None \<Rightarrow> MemberMsg_zero | Some x \<Rightarrow> x) of
            Inl e \<Rightarrow> Inl e | Inr x \<Rightarrow> Inr (m\<lparr>jq_Candidate := Some x\<rparr>)))
      else None)"

definition JoinRequest_UnmarshalVT :: "bytes \<Rightarrow> JoinRequest \<Rightarrow> proto_error + JoinRequest" where
  "JoinRequest_UnmarshalVT dAtA m =
     unmarshal JoinRequest_schema (\<lambda>b m. m\<lparr>jq_unknown := jq_unknown m @ b\<rparr>) dAtA m"

definition JoinRequest_ok :: "JoinRequest \<Rightarrow> bool" where
  "JoinRequest_ok m \<longleftrightarrow> jq_unknown m = [] \<and> JoinRequest_SizeVT m < 2 ^ 63 \<and> (case jq_Candidate m of None \<Rightarrow> True | Some x \<Rightarrow> MemberMsg_ok x)"

interpretation jq_m: vt_message JoinRequest_SizeVT JoinRequest_MarshalVT JoinRequest_UnmarshalVT JoinRequest_zero JoinRequest_ok
proof
  show sz: "length (JoinRequest_MarshalVT m) = JoinRequest_SizeVT m" for m
    by (simp add: JoinRequest_MarshalVT_def JoinRequest_SizeVT_def field_sizes mb_m.length_MarshalVT split: option.split)
  show "JoinRequest_UnmarshalVT (JoinRequest_MarshalVT m) JoinRequest_zero = Inr m" if ok: "JoinRequest_ok m" for m
  proof -
    from ok sz [of m] have l: "length (JoinRequest_MarshalVT m) < 2 ^ 63" by (simp add: JoinRequest_ok_def)
    then show ?thesis using ok
      by (cases m) (auto simp: JoinRequest_ok_def JoinRequest_MarshalVT_def JoinRequest_UnmarshalVT_def unmarshal_def JoinRequest_schema_def
        JoinRequest_zero_def in_buffer_def decode_fields mb_m.roundtrip split: option.splits)
  qed
qed

subsection \<open>JoinResponse\<close>

record JoinResponse =
  jr_Members :: "MemberMsg list"
  jr_unknown :: bytes

definition JoinResponse_zero :: JoinResponse where
  "JoinResponse_zero = \<lparr>jr_Members = [], jr_unknown = []\<rparr>"

definition JoinResponse_MarshalVT :: "JoinResponse \<Rightarrow> bytes" where
  "JoinResponse_MarshalVT m =
     concat (map (\<lambda>x. msg_field 0x0a (MemberMsg_MarshalVT x)) (jr_Members m)) @
     jr_unknown m"

definition JoinResponse_SizeVT :: "JoinResponse \<Rightarrow> nat" where
  "JoinResponse_SizeVT m =
     sum_list (map (\<lambda>x. msg_size (MemberMsg_SizeVT x)) (jr_Members m)) +
     length (jr_unknown m)"

definition JoinResponse_schema :: "int \<Rightarrow> JoinResponse field option" where
  "JoinResponse_schema n =
     (if n = 1 then Some (LenField (\<lambda>b m.
          case MemberMsg_UnmarshalVT b MemberMsg_zero of
            Inl e \<Rightarrow> Inl e | Inr x \<Rightarrow> Inr (m\<lparr>jr_Members := jr_Members m @ [x]\<rparr>)))
      else None)"

definition JoinResponse_UnmarshalVT :: "bytes \<Rightarrow> JoinResponse \<Rightarrow> proto_error + JoinResponse" where
  "JoinResponse_UnmarshalVT dAtA m =
     unmarshal JoinResponse_schema (\<lambda>b m. m\<lparr>jr_unknown := jr_unknown m @ b\<rparr>) dAtA m"

definition JoinResponse_ok :: "JoinResponse \<Rightarrow> bool" where
  "JoinResponse_ok m \<longleftrightarrow> jr_unknown m = [] \<and> JoinResponse_SizeVT m < 2 ^ 63 \<and> list_all MemberMsg_ok (jr_Members m)"

lemma JoinResponse_fold: "fold (\<lambda>x m. m\<lparr>jr_Members := jr_Members m @ [x]\<rparr>) xs m = m\<lparr>jr_Members := jr_Members m @ xs\<rparr>"
  by (induction xs arbitrary: m) simp_all

interpretation jr_m: vt_message JoinResponse_SizeVT JoinResponse_MarshalVT JoinResponse_UnmarshalVT JoinResponse_zero JoinResponse_ok
proof
  show sz: "length (JoinResponse_MarshalVT m) = JoinResponse_SizeVT m" for m
    by (simp add: JoinResponse_MarshalVT_def JoinResponse_SizeVT_def field_sizes mb_m.length_MarshalVT split: option.split)
  show "JoinResponse_UnmarshalVT (JoinResponse_MarshalVT m) JoinResponse_zero = Inr m" if ok: "JoinResponse_ok m" for m
  proof -
    from ok sz [of m] have l: "length (JoinResponse_MarshalVT m) < 2 ^ 63" by (simp add: JoinResponse_ok_def)
    then show ?thesis using ok
      by (cases m) (simp add: JoinResponse_ok_def JoinResponse_MarshalVT_def JoinResponse_UnmarshalVT_def unmarshal_def JoinResponse_schema_def
        JoinResponse_zero_def in_buffer_def decode_fields list_all_iff mb_m.roundtrip
        decode_repeated [where add = "\<lambda>x m. m\<lparr>jr_Members := jr_Members m @ [x]\<rparr>"]
        decode_repeated [where add = "\<lambda>x m. m\<lparr>jr_Members := jr_Members m @ [x]\<rparr>" and rest = "[]", simplified]
        split del: if_split, simp add: JoinResponse_fold)
  qed
qed

subsection \<open>Heartbeat\<close>

record Heartbeat =
  hb_MemberId :: bytes
  hb_Sequence :: u64
  hb_unknown :: bytes

definition Heartbeat_zero :: Heartbeat where
  "Heartbeat_zero = \<lparr>hb_MemberId = [], hb_Sequence = 0, hb_unknown = []\<rparr>"

definition Heartbeat_MarshalVT :: "Heartbeat \<Rightarrow> bytes" where
  "Heartbeat_MarshalVT m =
     len_field 0x0a (hb_MemberId m) @
     var_field 0x10 (hb_Sequence m) @
     hb_unknown m"

definition Heartbeat_SizeVT :: "Heartbeat \<Rightarrow> nat" where
  "Heartbeat_SizeVT m =
     len_size (hb_MemberId m) +
     var_size (hb_Sequence m) +
     length (hb_unknown m)"

definition Heartbeat_schema :: "int \<Rightarrow> Heartbeat field option" where
  "Heartbeat_schema n =
     (if n = 1 then Some (LenField (\<lambda>b m. Inr (m\<lparr>hb_MemberId := b\<rparr>)))
      else if n = 2 then Some (VarField (\<lambda>v m. m\<lparr>hb_Sequence := v\<rparr>))
      else None)"

definition Heartbeat_UnmarshalVT :: "bytes \<Rightarrow> Heartbeat \<Rightarrow> proto_error + Heartbeat" where
  "Heartbeat_UnmarshalVT dAtA m =
     unmarshal Heartbeat_schema (\<lambda>b m. m\<lparr>hb_unknown := hb_unknown m @ b\<rparr>) dAtA m"

definition Heartbeat_ok :: "Heartbeat \<Rightarrow> bool" where
  "Heartbeat_ok m \<longleftrightarrow> hb_unknown m = [] \<and> Heartbeat_SizeVT m < 2 ^ 63"

interpretation hb_m: vt_message Heartbeat_SizeVT Heartbeat_MarshalVT Heartbeat_UnmarshalVT Heartbeat_zero Heartbeat_ok
proof
  show sz: "length (Heartbeat_MarshalVT m) = Heartbeat_SizeVT m" for m
    by (simp add: Heartbeat_MarshalVT_def Heartbeat_SizeVT_def field_sizes split: option.split)
  show "Heartbeat_UnmarshalVT (Heartbeat_MarshalVT m) Heartbeat_zero = Inr m" if ok: "Heartbeat_ok m" for m
  proof -
    from ok sz [of m] have l: "length (Heartbeat_MarshalVT m) < 2 ^ 63" by (simp add: Heartbeat_ok_def)
    then show ?thesis using ok
      by (cases m) (simp add: Heartbeat_ok_def Heartbeat_MarshalVT_def Heartbeat_UnmarshalVT_def unmarshal_def Heartbeat_schema_def
        Heartbeat_zero_def in_buffer_def decode_fields split del: if_split, simp)
  qed
qed

subsection \<open>MemberList\<close>

record MemberList =
  ml_Members :: "MemberMsg list"
  ml_Version :: u64
  ml_unknown :: bytes

definition MemberList_zero :: MemberList where
  "MemberList_zero = \<lparr>ml_Members = [], ml_Version = 0, ml_unknown = []\<rparr>"

definition MemberList_MarshalVT :: "MemberList \<Rightarrow> bytes" where
  "MemberList_MarshalVT m =
     concat (map (\<lambda>x. msg_field 0x0a (MemberMsg_MarshalVT x)) (ml_Members m)) @
     var_field 0x10 (ml_Version m) @
     ml_unknown m"

definition MemberList_SizeVT :: "MemberList \<Rightarrow> nat" where
  "MemberList_SizeVT m =
     sum_list (map (\<lambda>x. msg_size (MemberMsg_SizeVT x)) (ml_Members m)) +
     var_size (ml_Version m) +
     length (ml_unknown m)"

definition MemberList_schema :: "int \<Rightarrow> MemberList field option" where
  "MemberList_schema n =
     (if n = 1 then Some (LenField (\<lambda>b m.
          case MemberMsg_UnmarshalVT b MemberMsg_zero of
            Inl e \<Rightarrow> Inl e | Inr x \<Rightarrow> Inr (m\<lparr>ml_Members := ml_Members m @ [x]\<rparr>)))
      else if n = 2 then Some (VarField (\<lambda>v m. m\<lparr>ml_Version := v\<rparr>))
      else None)"

definition MemberList_UnmarshalVT :: "bytes \<Rightarrow> MemberList \<Rightarrow> proto_error + MemberList" where
  "MemberList_UnmarshalVT dAtA m =
     unmarshal MemberList_schema (\<lambda>b m. m\<lparr>ml_unknown := ml_unknown m @ b\<rparr>) dAtA m"

definition MemberList_ok :: "MemberList \<Rightarrow> bool" where
  "MemberList_ok m \<longleftrightarrow> ml_unknown m = [] \<and> MemberList_SizeVT m < 2 ^ 63 \<and> list_all MemberMsg_ok (ml_Members m)"

lemma MemberList_fold: "fold (\<lambda>x m. m\<lparr>ml_Members := ml_Members m @ [x]\<rparr>) xs m = m\<lparr>ml_Members := ml_Members m @ xs\<rparr>"
  by (induction xs arbitrary: m) simp_all

interpretation ml_m: vt_message MemberList_SizeVT MemberList_MarshalVT MemberList_UnmarshalVT MemberList_zero MemberList_ok
proof
  show sz: "length (MemberList_MarshalVT m) = MemberList_SizeVT m" for m
    by (simp add: MemberList_MarshalVT_def MemberList_SizeVT_def field_sizes mb_m.length_MarshalVT split: option.split)
  show "MemberList_UnmarshalVT (MemberList_MarshalVT m) MemberList_zero = Inr m" if ok: "MemberList_ok m" for m
  proof -
    from ok sz [of m] have l: "length (MemberList_MarshalVT m) < 2 ^ 63" by (simp add: MemberList_ok_def)
    then show ?thesis using ok
      by (cases m) (simp add: MemberList_ok_def MemberList_MarshalVT_def MemberList_UnmarshalVT_def unmarshal_def MemberList_schema_def
        MemberList_zero_def in_buffer_def decode_fields list_all_iff mb_m.roundtrip
        decode_repeated [where add = "\<lambda>x m. m\<lparr>ml_Members := ml_Members m @ [x]\<rparr>"]
        decode_repeated [where add = "\<lambda>x m. m\<lparr>ml_Members := ml_Members m @ [x]\<rparr>" and rest = "[]", simplified]
        split del: if_split, simp add: MemberList_fold)
  qed
qed

subsection \<open>LeaveRequest\<close>

record LeaveRequest =
  lq_MemberId :: bytes
  lq_unknown :: bytes

definition LeaveRequest_zero :: LeaveRequest where
  "LeaveRequest_zero = \<lparr>lq_MemberId = [], lq_unknown = []\<rparr>"

definition LeaveRequest_MarshalVT :: "LeaveRequest \<Rightarrow> bytes" where
  "LeaveRequest_MarshalVT m =
     len_field 0x0a (lq_MemberId m) @
     lq_unknown m"

definition LeaveRequest_SizeVT :: "LeaveRequest \<Rightarrow> nat" where
  "LeaveRequest_SizeVT m =
     len_size (lq_MemberId m) +
     length (lq_unknown m)"

definition LeaveRequest_schema :: "int \<Rightarrow> LeaveRequest field option" where
  "LeaveRequest_schema n =
     (if n = 1 then Some (LenField (\<lambda>b m. Inr (m\<lparr>lq_MemberId := b\<rparr>)))
      else None)"

definition LeaveRequest_UnmarshalVT :: "bytes \<Rightarrow> LeaveRequest \<Rightarrow> proto_error + LeaveRequest" where
  "LeaveRequest_UnmarshalVT dAtA m =
     unmarshal LeaveRequest_schema (\<lambda>b m. m\<lparr>lq_unknown := lq_unknown m @ b\<rparr>) dAtA m"

definition LeaveRequest_ok :: "LeaveRequest \<Rightarrow> bool" where
  "LeaveRequest_ok m \<longleftrightarrow> lq_unknown m = [] \<and> LeaveRequest_SizeVT m < 2 ^ 63"

interpretation lq_m: vt_message LeaveRequest_SizeVT LeaveRequest_MarshalVT LeaveRequest_UnmarshalVT LeaveRequest_zero LeaveRequest_ok
proof
  show sz: "length (LeaveRequest_MarshalVT m) = LeaveRequest_SizeVT m" for m
    by (simp add: LeaveRequest_MarshalVT_def LeaveRequest_SizeVT_def field_sizes split: option.split)
  show "LeaveRequest_UnmarshalVT (LeaveRequest_MarshalVT m) LeaveRequest_zero = Inr m" if ok: "LeaveRequest_ok m" for m
  proof -
    from ok sz [of m] have l: "length (LeaveRequest_MarshalVT m) < 2 ^ 63" by (simp add: LeaveRequest_ok_def)
    then show ?thesis using ok
      by (cases m) (simp add: LeaveRequest_ok_def LeaveRequest_MarshalVT_def LeaveRequest_UnmarshalVT_def unmarshal_def LeaveRequest_schema_def
        LeaveRequest_zero_def in_buffer_def decode_fields split del: if_split, simp)
  qed
qed

subsection \<open>PutRequest\<close>

record PutRequest =
  pq_Map :: bytes
  pq_Key :: bytes
  pq_Value :: bytes
  pq_Backup :: bool
  pq_TtlMs :: int
  pq_unknown :: bytes

definition PutRequest_zero :: PutRequest where
  "PutRequest_zero = \<lparr>pq_Map = [], pq_Key = [], pq_Value = [], pq_Backup = False, pq_TtlMs = 0, pq_unknown = []\<rparr>"

definition PutRequest_MarshalVT :: "PutRequest \<Rightarrow> bytes" where
  "PutRequest_MarshalVT m =
     len_field 0x0a (pq_Map m) @
     len_field 0x12 (pq_Key m) @
     len_field 0x1a (pq_Value m) @
     bool_field 0x20 (pq_Backup m) @
     int_field 0x28 (pq_TtlMs m) @
     pq_unknown m"

definition PutRequest_SizeVT :: "PutRequest \<Rightarrow> nat" where
  "PutRequest_SizeVT m =
     len_size (pq_Map m) +
     len_size (pq_Key m) +
     len_size (pq_Value m) +
     bool_size (pq_Backup m) +
     int_size (pq_TtlMs m) +
     length (pq_unknown m)"

definition PutRequest_schema :: "int \<Rightarrow> PutRequest field option" where
  "PutRequest_schema n =
     (if n = 1 then Some (LenField (\<lambda>b m. Inr (m\<lparr>pq_Map := b\<rparr>)))
      else if n = 2 then Some (LenField (\<lambda>b m. Inr (m\<lparr>pq_Key := b\<rparr>)))
      else if n = 3 then Some (LenField (\<lambda>b m. Inr (m\<lparr>pq_Value := b\<rparr>)))
      else if n = 4 then Some (VarField (\<lambda>v m. m\<lparr>pq_Backup := (v \<noteq> 0)\<rparr>))
      else if n = 5 then Some (VarField (\<lambda>v m. m\<lparr>pq_TtlMs := int64_of v\<rparr>))
      else None)"

definition PutRequest_UnmarshalVT :: "bytes \<Rightarrow> PutRequest \<Rightarrow> proto_error + PutRequest" where
  "PutRequest_UnmarshalVT dAtA m =
     unmarshal PutRequest_schema (\<lambda>b m. m\<lparr>pq_unknown := pq_unknown m @ b\<rparr>) dAtA m"

definition PutRequest_ok :: "PutRequest \<Rightarrow> bool" where
  "PutRequest_ok m \<longleftrightarrow> pq_unknown m = [] \<and> PutRequest_SizeVT m < 2 ^ 63 \<and> int64_range (pq_TtlMs m)"

interpretation pq_m: vt_message PutRequest_SizeVT PutRequest_MarshalVT PutRequest_UnmarshalVT PutRequest_zero PutRequest_ok
proof
  show sz: "length (PutRequest_MarshalVT m) = PutRequest_SizeVT m" for m
    by (simp add: PutRequest_MarshalVT_def PutRequest_SizeVT_def field_sizes split: option.split)
  show "PutRequest_UnmarshalVT (PutRequest_MarshalVT m) PutRequest_zero = Inr m" if ok: "PutRequest_ok m" for m
  proof -
    from ok sz [of m] have l: "length (PutRequest_MarshalVT m) < 2 ^ 63" by (simp add: PutRequest_ok_def)
    then show ?thesis using ok
      by (cases m) (simp add: PutRequest_ok_def PutRequest_MarshalVT_def PutRequest_UnmarshalVT_def unmarshal_def PutRequest_schema_def
        PutRequest_zero_def in_buffer_def decode_fields split del: if_split, simp)
  qed
qed

subsection \<open>PutResponse\<close>

record PutResponse =
  pr_Created :: bool
  pr_unknown :: bytes

definition PutResponse_zero :: PutResponse where
  "PutResponse_zero = \<lparr>pr_Created = False, pr_unknown = []\<rparr>"

definition PutResponse_MarshalVT :: "PutResponse \<Rightarrow> bytes" where
  "PutResponse_MarshalVT m =
     bool_field 0x08 (pr_Created m) @
     pr_unknown m"

definition PutResponse_SizeVT :: "PutResponse \<Rightarrow> nat" where
  "PutResponse_SizeVT m =
     bool_size (pr_Created m) +
     length (pr_unknown m)"

definition PutResponse_schema :: "int \<Rightarrow> PutResponse field option" where
  "PutResponse_schema n =
     (if n = 1 then Some (VarField (\<lambda>v m. m\<lparr>pr_Created := (v \<noteq> 0)\<rparr>))
      else None)"

definition PutResponse_UnmarshalVT :: "bytes \<Rightarrow> PutResponse \<Rightarrow> proto_error + PutResponse" where
  "PutResponse_UnmarshalVT dAtA m =
     unmarshal PutResponse_schema (\<lambda>b m. m\<lparr>pr_unknown := pr_unknown m @ b\<rparr>) dAtA m"

definition PutResponse_ok :: "PutResponse \<Rightarrow> bool" where
  "PutResponse_ok m \<longleftrightarrow> pr_unknown m = [] \<and> PutResponse_SizeVT m < 2 ^ 63"

interpretation pr_m: vt_message PutResponse_SizeVT PutResponse_MarshalVT PutResponse_UnmarshalVT PutResponse_zero PutResponse_ok
proof
  show sz: "length (PutResponse_MarshalVT m) = PutResponse_SizeVT m" for m
    by (simp add: PutResponse_MarshalVT_def PutResponse_SizeVT_def field_sizes split: option.split)
  show "PutResponse_UnmarshalVT (PutResponse_MarshalVT m) PutResponse_zero = Inr m" if ok: "PutResponse_ok m" for m
  proof -
    from ok sz [of m] have l: "length (PutResponse_MarshalVT m) < 2 ^ 63" by (simp add: PutResponse_ok_def)
    then show ?thesis using ok
      by (cases m) (simp add: PutResponse_ok_def PutResponse_MarshalVT_def PutResponse_UnmarshalVT_def unmarshal_def PutResponse_schema_def
        PutResponse_zero_def in_buffer_def decode_fields split del: if_split, simp)
  qed
qed

subsection \<open>GetRequest\<close>

record GetRequest =
  gq_Map :: bytes
  gq_Key :: bytes
  gq_unknown :: bytes

definition GetRequest_zero :: GetRequest where
  "GetRequest_zero = \<lparr>gq_Map = [], gq_Key = [], gq_unknown = []\<rparr>"

definition GetRequest_MarshalVT :: "GetRequest \<Rightarrow> bytes" where
  "GetRequest_MarshalVT m =
     len_field 0x0a (gq_Map m) @
     len_field 0x12 (gq_Key m) @
     gq_unknown m"

definition GetRequest_SizeVT :: "GetRequest \<Rightarrow> nat" where
  "GetRequest_SizeVT m =
     len_size (gq_Map m) +
     len_size (gq_Key m) +
     length (gq_unknown m)"

definition GetRequest_schema :: "int \<Rightarrow> GetRequest field option" where
  "GetRequest_schema n =
     (if n = 1 then Some (LenField (\<lambda>b m. Inr (m\<lparr>gq_Map := b\<rparr>)))
      else if n = 2 then Some (LenField (\<lambda>b m. Inr (m\<lparr>gq_Key := b\<rparr>)))
      else None)"

definition GetRequest_UnmarshalVT :: "bytes \<Rightarrow> GetRequest \<Rightarrow> proto_error + GetRequest" where
  "GetRequest_UnmarshalVT dAtA m =
     unmarshal GetRequest_schema (\<lambda>b m. m\<lparr>gq_unknown := gq_unknown m @ b\<rparr>) dAtA m"

definition GetRequest_ok :: "GetRequest \<Rightarrow> bool" where
  "GetRequest_ok m \<longleftrightarrow> gq_unknown m = [] \<and> GetRequest_SizeVT m < 2 ^ 63"

interpretation gq_m: vt_message GetRequest_SizeVT GetRequest_MarshalVT GetRequest_UnmarshalVT GetRequest_zero GetRequest_ok
proof
  show sz: "length (GetRequest_MarshalVT m) = GetRequest_SizeVT m" for m
    by (simp add: GetRequest_MarshalVT_def GetRequest_SizeVT_def field_sizes split: option.split)
  show "GetRequest_UnmarshalVT (GetRequest_MarshalVT m) GetRequest_zero = Inr m" if ok: "GetRequest_ok m" for m
  proof -
    from ok sz [of m] have l: "length (GetRequest_MarshalVT m) < 2 ^ 63" by (simp add: GetRequest_ok_def)
    then show ?thesis using ok
      by (cases m) (simp add: GetRequest_ok_def GetRequest_MarshalVT_def GetRequest_UnmarshalVT_def unmarshal_def GetRequest_schema_def
        GetRequest_zero_def in_buffer_def decode_fields split del: if_split, simp)
  qed
qed

subsection \<open>GetResponse\<close>

record GetResponse =
  gr_Found :: bool
  gr_Value :: bytes
  gr_unknown :: bytes

definition GetResponse_zero :: GetResponse where
  "GetResponse_zero = \<lparr>gr_Found = False, gr_Value = [], gr_unknown = []\<rparr>"

definition GetResponse_MarshalVT :: "GetResponse \<Rightarrow> bytes" where
  "GetResponse_MarshalVT m =
     bool_field 0x08 (gr_Found m) @
     len_field 0x12 (gr_Value m) @
     gr_unknown m"

definition GetResponse_SizeVT :: "GetResponse \<Rightarrow> nat" where
  "GetResponse_SizeVT m =
     bool_size (gr_Found m) +
     len_size (gr_Value m) +
     length (gr_unknown m)"

definition GetResponse_schema :: "int \<Rightarrow> GetResponse field option" where
  "GetResponse_schema n =
     (if n = 1 then Some (VarField (\<lambda>v m. m\<lparr>gr_Found := (v \<noteq> 0)\<rparr>))
      else if n = 2 then Some (LenField (\<lambda>b m. Inr (m\<lparr>gr_Value := b\<rparr>)))
      else None)"

definition GetResponse_UnmarshalVT :: "bytes \<Rightarrow> GetResponse \<Rightarrow> proto_error + GetResponse" where
  "GetResponse_UnmarshalVT dAtA m =
     unmarshal GetResponse_schema (\<lambda>b m. m\<lparr>gr_unknown := gr_unknown m @ b\<rparr>) dAtA m"

definition GetResponse_ok :: "GetResponse \<Rightarrow> bool" where
  "GetResponse_ok m \<longleftrightarrow> gr_unknown m = [] \<and> GetResponse_SizeVT m < 2 ^ 63"

interpretation gr_m: vt_message GetResponse_SizeVT GetResponse_MarshalVT GetResponse_UnmarshalVT GetResponse_zero GetResponse_ok
proof
  show sz: "length (GetResponse_MarshalVT m) = GetResponse_SizeVT m" for m
    by (simp add: GetResponse_MarshalVT_def GetResponse_SizeVT_def field_sizes split: option.split)
  show "GetResponse_UnmarshalVT (GetResponse_MarshalVT m) GetResponse_zero = Inr m" if ok: "GetResponse_ok m" for m
  proof -
    from ok sz [of m] have l: "length (GetResponse_MarshalVT m) < 2 ^ 63" by (simp add: GetResponse_ok_def)
    then show ?thesis using ok
      by (cases m) (simp add: GetResponse_ok_def GetResponse_MarshalVT_def GetResponse_UnmarshalVT_def unmarshal_def GetResponse_schema_def
        GetResponse_zero_def in_buffer_def decode_fields split del: if_split, simp)
  qed
qed

subsection \<open>RemoveRequest\<close>

record RemoveRequest =
  rq_Map :: bytes
  rq_Key :: bytes
  rq_Backup :: bool
  rq_unknown :: bytes

definition RemoveRequest_zero :: RemoveRequest where
  "RemoveRequest_zero = \<lparr>rq_Map = [], rq_Key = [], rq_Backup = False, rq_unknown = []\<rparr>"

definition RemoveRequest_MarshalVT :: "RemoveRequest \<Rightarrow> bytes" where
  "RemoveRequest_MarshalVT m =
     len_field 0x0a (rq_Map m) @
     len_field 0x12 (rq_Key m) @
     bool_field 0x18 (rq_Backup m) @
     rq_unknown m"

definition RemoveRequest_SizeVT :: "RemoveRequest \<Rightarrow> nat" where
  "RemoveRequest_SizeVT m =
     len_size (rq_Map m) +
     len_size (rq_Key m) +
     bool_size (rq_Backup m) +
     length (rq_unknown m)"

definition RemoveRequest_schema :: "int \<Rightarrow> RemoveRequest field option" where
  "RemoveRequest_schema n =
     (if n = 1 then Some (LenField (\<lambda>b m. Inr (m\<lparr>rq_Map := b\<rparr>)))
      else if n = 2 then Some (LenField (\<lambda>b m. Inr (m\<lparr>rq_Key := b\<rparr>)))
      else if n = 3 then Some (VarField (\<lambda>v m. m\<lparr>rq_Backup := (v \<noteq> 0)\<rparr>))
      else None)"

definition RemoveRequest_UnmarshalVT :: "bytes \<Rightarrow> RemoveRequest \<Rightarrow> proto_error + RemoveRequest" where
  "RemoveRequest_UnmarshalVT dAtA m =
     unmarshal RemoveRequest_schema (\<lambda>b m. m\<lparr>rq_unknown := rq_unknown m @ b\<rparr>) dAtA m"

definition RemoveRequest_ok :: "RemoveRequest \<Rightarrow> bool" where
  "RemoveRequest_ok m \<longleftrightarrow> rq_unknown m = [] \<and> RemoveRequest_SizeVT m < 2 ^ 63"

interpretation rq_m: vt_message RemoveRequest_SizeVT RemoveRequest_MarshalVT RemoveRequest_UnmarshalVT RemoveRequest_zero RemoveRequest_ok
proof
  show sz: "length (RemoveRequest_MarshalVT m) = RemoveRequest_SizeVT m" for m
    by (simp add: RemoveRequest_MarshalVT_def RemoveRequest_SizeVT_def field_sizes split: option.split)
  show "RemoveRequest_UnmarshalVT (RemoveRequest_MarshalVT m) RemoveRequest_zero = Inr m" if ok: "RemoveRequest_ok m" for m
  proof -
    from ok sz [of m] have l: "length (RemoveRequest_MarshalVT m) < 2 ^ 63" by (simp add: RemoveRequest_ok_def)
    then show ?thesis using ok
      by (cases m) (simp add: RemoveRequest_ok_def RemoveRequest_MarshalVT_def RemoveRequest_UnmarshalVT_def unmarshal_def RemoveRequest_schema_def
        RemoveRequest_zero_def in_buffer_def decode_fields split del: if_split, simp)
  qed
qed

subsection \<open>RemoveResponse\<close>

record RemoveResponse =
  rr_Existed :: bool
  rr_unknown :: bytes

definition RemoveResponse_zero :: RemoveResponse where
  "RemoveResponse_zero = \<lparr>rr_Existed = False, rr_unknown = []\<rparr>"

definition RemoveResponse_MarshalVT :: "RemoveResponse \<Rightarrow> bytes" where
  "RemoveResponse_MarshalVT m =
     bool_field 0x08 (rr_Existed m) @
     rr_unknown m"

definition RemoveResponse_SizeVT :: "RemoveResponse \<Rightarrow> nat" where
  "RemoveResponse_SizeVT m =
     bool_size (rr_Existed m) +
     length (rr_unknown m)"

definition RemoveResponse_schema :: "int \<Rightarrow> RemoveResponse field option" where
  "RemoveResponse_schema n =
     (if n = 1 then Some (VarField (\<lambda>v m. m\<lparr>rr_Existed := (v \<noteq> 0)\<rparr>))
      else None)"

definition RemoveResponse_UnmarshalVT :: "bytes \<Rightarrow> RemoveResponse \<Rightarrow> proto_error + RemoveResponse" where
  "RemoveResponse_UnmarshalVT dAtA m =
     unmarshal RemoveResponse_schema (\<lambda>b m. m\<lparr>rr_unknown := rr_unknown m @ b\<rparr>) dAtA m"

definition RemoveResponse_ok :: "RemoveResponse \<Rightarrow> bool" where
  "RemoveResponse_ok m \<longleftrightarrow> rr_unknown m = [] \<and> RemoveResponse_SizeVT m < 2 ^ 63"

interpretation rr_m: vt_message RemoveResponse_SizeVT RemoveResponse_MarshalVT RemoveResponse_UnmarshalVT RemoveResponse_zero RemoveResponse_ok
proof
  show sz: "length (RemoveResponse_MarshalVT m) = RemoveResponse_SizeVT m" for m
    by (simp add: RemoveResponse_MarshalVT_def RemoveResponse_SizeVT_def field_sizes split: option.split)
  show "RemoveResponse_UnmarshalVT (RemoveResponse_MarshalVT m) RemoveResponse_zero = Inr m" if ok: "RemoveResponse_ok m" for m
  proof -
    from ok sz [of m] have l: "length (RemoveResponse_MarshalVT m) < 2 ^ 63" by (simp add: RemoveResponse_ok_def)
    then show ?thesis using ok
      by (cases m) (simp add: RemoveResponse_ok_def RemoveResponse_MarshalVT_def RemoveResponse_UnmarshalVT_def unmarshal_def RemoveResponse_schema_def
        RemoveResponse_zero_def in_buffer_def decode_fields split del: if_split, simp)
  qed
qed

subsection \<open>ExecuteRequest\<close>

record ExecuteRequest =
  xq_Map :: bytes
  xq_Key :: bytes
  xq_Processor :: bytes
  xq_Arg :: bytes
  xq_unknown :: bytes

definition ExecuteRequest_zero :: ExecuteRequest where
  "ExecuteRequest_zero = \<lparr>xq_Map = [], xq_Key = [], xq_Processor = [], xq_Arg = [], xq_unknown = []\<rparr>"

definition ExecuteRequest_MarshalVT :: "ExecuteRequest \<Rightarrow> bytes" where
  "ExecuteRequest_MarshalVT m =
     len_field 0x0a (xq_Map m) @
     len_field 0x12 (xq_Key m) @
     len_field 0x1a (xq_Processor m) @
     len_field 0x22 (xq_Arg m) @
     xq_unknown m"

definition ExecuteRequest_SizeVT :: "ExecuteRequest \<Rightarrow> nat" where
  "ExecuteRequest_SizeVT m =
     len_size (xq_Map m) +
     len_size (xq_Key m) +
     len_size (xq_Processor m) +
     len_size (xq_Arg m) +
     length (xq_unknown m)"

definition ExecuteRequest_schema :: "int \<Rightarrow> ExecuteRequest field option" where
  "ExecuteRequest_schema n =
     (if n = 1 then Some (LenField (\<lambda>b m. Inr (m\<lparr>xq_Map := b\<rparr>)))
      else if n = 2 then Some (LenField (\<lambda>b m. Inr (m\<lparr>xq_Key := b\<rparr>)))
      else if n = 3 then Some (LenField (\<lambda>b m. Inr (m\<lparr>xq_Processor := b\<rparr>)))
      else if n = 4 then Some (LenField (\<lambda>b m. Inr (m\<lparr>xq_Arg := b\<rparr>)))
      else None)"

definition ExecuteRequest_UnmarshalVT :: "bytes \<Rightarrow> ExecuteRequest \<Rightarrow> proto_error + ExecuteRequest" where
  "ExecuteRequest_UnmarshalVT dAtA m =
     unmarshal ExecuteRequest_schema (\<lambda>b m. m\<lparr>xq_unknown := xq_unknown m @ b\<rparr>) dAtA m"

definition ExecuteRequest_ok :: "ExecuteRequest \<Rightarrow> bool" where
  "ExecuteRequest_ok m \<longleftrightarrow> xq_unknown m = [] \<and> ExecuteRequest_SizeVT m < 2 ^ 63"

interpretation xq_m: vt_message ExecuteRequest_SizeVT ExecuteRequest_MarshalVT ExecuteRequest_UnmarshalVT ExecuteRequest_zero ExecuteRequest_ok
proof
  show sz: "length (ExecuteRequest_MarshalVT m) = ExecuteRequest_SizeVT m" for m
    by (simp add: ExecuteRequest_MarshalVT_def ExecuteRequest_SizeVT_def field_sizes split: option.split)
  show "ExecuteRequest_UnmarshalVT (ExecuteRequest_MarshalVT m) ExecuteRequest_zero = Inr m" if ok: "ExecuteRequest_ok m" for m
  proof -
    from ok sz [of m] have l: "length (ExecuteRequest_MarshalVT m) < 2 ^ 63" by (simp add: ExecuteRequest_ok_def)
    then show ?thesis using ok
      by (cases m) (simp add: ExecuteRequest_ok_def ExecuteRequest_MarshalVT_def ExecuteRequest_UnmarshalVT_def unmarshal_def ExecuteRequest_schema_def
        ExecuteRequest_zero_def in_buffer_def decode_fields split del: if_split, simp)
  qed
qed

subsection \<open>ExecuteResponse\<close>

record ExecuteResponse =
  xr_Result :: bytes
  xr_unknown :: bytes

definition ExecuteResponse_zero :: ExecuteResponse where
  "ExecuteResponse_zero = \<lparr>xr_Result = [], xr_unknown = []\<rparr>"

definition ExecuteResponse_MarshalVT :: "ExecuteResponse \<Rightarrow> bytes" where
  "ExecuteResponse_MarshalVT m =
     len_field 0x0a (xr_Result m) @
     xr_unknown m"

definition ExecuteResponse_SizeVT :: "ExecuteResponse \<Rightarrow> nat" where
  "ExecuteResponse_SizeVT m =
     len_size (xr_Result m) +
     length (xr_unknown m)"

definition ExecuteResponse_schema :: "int \<Rightarrow> ExecuteResponse field option" where
  "ExecuteResponse_schema n =
     (if n = 1 then Some (LenField (\<lambda>b m. Inr (m\<lparr>xr_Result := b\<rparr>)))
      else None)"

definition ExecuteResponse_UnmarshalVT :: "bytes \<Rightarrow> ExecuteResponse \<Rightarrow> proto_error + ExecuteResponse" where
  "ExecuteResponse_UnmarshalVT dAtA m =
     unmarshal ExecuteResponse_schema (\<lambda>b m. m\<lparr>xr_unknown := xr_unknown m @ b\<rparr>) dAtA m"

definition ExecuteResponse_ok :: "ExecuteResponse \<Rightarrow> bool" where
  "ExecuteResponse_ok m \<longleftrightarrow> xr_unknown m = [] \<and> ExecuteResponse_SizeVT m < 2 ^ 63"

interpretation xr_m: vt_message ExecuteResponse_SizeVT ExecuteResponse_MarshalVT ExecuteResponse_UnmarshalVT ExecuteResponse_zero ExecuteResponse_ok
proof
  show sz: "length (ExecuteResponse_MarshalVT m) = ExecuteResponse_SizeVT m" for m
    by (simp add: ExecuteResponse_MarshalVT_def ExecuteResponse_SizeVT_def field_sizes split: option.split)
  show "ExecuteResponse_UnmarshalVT (ExecuteResponse_MarshalVT m) ExecuteResponse_zero = Inr m" if ok: "ExecuteResponse_ok m" for m
  proof -
    from ok sz [of m] have l: "length (ExecuteResponse_MarshalVT m) < 2 ^ 63" by (simp add: ExecuteResponse_ok_def)
    then show ?thesis using ok
      by (cases m) (simp add: ExecuteResponse_ok_def ExecuteResponse_MarshalVT_def ExecuteResponse_UnmarshalVT_def unmarshal_def ExecuteResponse_schema_def
        ExecuteResponse_zero_def in_buffer_def decode_fields split del: if_split, simp)
  qed
qed

subsection \<open>SnapshotEntry\<close>

record SnapshotEntry =
  se_Map :: bytes
  se_Key :: bytes
  se_Value :: bytes
  se_ExpireAt :: int
  se_unknown :: bytes

definition SnapshotEntry_zero :: SnapshotEntry where
  "SnapshotEntry_zero = \<lparr>se_Map = [], se_Key = [], se_Value = [], se_ExpireAt = 0, se_unknown = []\<rparr>"

definition SnapshotEntry_MarshalVT :: "SnapshotEntry \<Rightarrow> bytes" where
  "SnapshotEntry_MarshalVT m =
     len_field 0x0a (se_Map m) @
     len_field 0x12 (se_Key m) @
     len_field 0x1a (se_Value m) @
     int_field 0x20 (se_ExpireAt m) @
     se_unknown m"

definition SnapshotEntry_SizeVT :: "SnapshotEntry \<Rightarrow> nat" where
  "SnapshotEntry_SizeVT m =
     len_size (se_Map m) +
     len_size (se_Key m) +
     len_size (se_Value m) +
     int_size (se_ExpireAt m) +
     length (se_unknown m)"

definition SnapshotEntry_schema :: "int \<Rightarrow> SnapshotEntry field option" where
  "SnapshotEntry_schema n =
     (if n = 1 then Some (LenField (\<lambda>b m. Inr (m\<lparr>se_Map := b\<rparr>)))
      else if n = 2 then Some (LenField (\<lambda>b m. Inr (m\<lparr>se_Key := b\<rparr>)))
      else if n = 3 then Some (LenField (\<lambda>b m. Inr (m\<lparr>se_Value := b\<rparr>)))
      else if n = 4 then Some (VarField (\<lambda>v m. m\<lparr>se_ExpireAt := int64_of v\<rparr>))
      else None)"

definition SnapshotEntry_UnmarshalVT :: "bytes \<Rightarrow> SnapshotEntry \<Rightarrow> proto_error + SnapshotEntry" where
  "SnapshotEntry_UnmarshalVT dAtA m =
     unmarshal SnapshotEntry_schema (\<lambda>b m. m\<lparr>se_unknown := se_unknown m @ b\<rparr>) dAtA m"

definition SnapshotEntry_ok :: "SnapshotEntry \<Rightarrow> bool" where
  "SnapshotEntry_ok m \<longleftrightarrow> se_unknown m = [] \<and> SnapshotEntry_SizeVT m < 2 ^ 63 \<and> int64_range (se_ExpireAt m)"

interpretation se_m: vt_message SnapshotEntry_SizeVT SnapshotEntry_MarshalVT SnapshotEntry_UnmarshalVT SnapshotEntry_zero SnapshotEntry_ok
proof
  show sz: "length (SnapshotEntry_MarshalVT m) = SnapshotEntry_SizeVT m" for m
    by (simp add: SnapshotEntry_MarshalVT_def SnapshotEntry_SizeVT_def field_sizes split: option.split)
  show "SnapshotEntry_UnmarshalVT (SnapshotEntry_MarshalVT m) SnapshotEntry_zero = Inr m" if ok: "SnapshotEntry_ok m" for m
  proof -
    from ok sz [of m] have l: "length (SnapshotEntry_MarshalVT m) < 2 ^ 63" by (simp add: SnapshotEntry_ok_def)
    then show ?thesis using ok
      by (cases m) (simp add: SnapshotEntry_ok_def SnapshotEntry_MarshalVT_def SnapshotEntry_UnmarshalVT_def unmarshal_def SnapshotEntry_schema_def
        SnapshotEntry_zero_def in_buffer_def decode_fields split del: if_split, simp)
  qed
qed

subsection \<open>Snapshot\<close>

record Snapshot =
  sn_Entries :: "SnapshotEntry list"
  sn_unknown :: bytes

definition Snapshot_zero :: Snapshot where
  "Snapshot_zero = \<lparr>sn_Entries = [], sn_unknown = []\<rparr>"

definition Snapshot_MarshalVT :: "Snapshot \<Rightarrow> bytes" where
  "Snapshot_MarshalVT m =
     concat (map (\<lambda>x. msg_field 0x0a (SnapshotEntry_MarshalVT x)) (sn_Entries m)) @
     sn_unknown m"

definition Snapshot_SizeVT :: "Snapshot \<Rightarrow> nat" where
  "Snapshot_SizeVT m =
     sum_list (map (\<lambda>x. msg_size (SnapshotEntry_SizeVT x)) (sn_Entries m)) +
     length (sn_unknown m)"

definition Snapshot_schema :: "int \<Rightarrow> Snapshot field option" where
  "Snapshot_schema n =
     (if n = 1 then Some (LenField (\<lambda>b m.
          case SnapshotEntry_UnmarshalVT b SnapshotEntry_zero of
            Inl e \<Rightarrow> Inl e | Inr x \<Rightarrow> Inr (m\<lparr>sn_Entries := sn_Entries m @ [x]\<rparr>)))
      else None)"

definition Snapshot_UnmarshalVT :: "bytes \<Rightarrow> Snapshot \<Rightarrow> proto_error + Snapshot" where
  "Snapshot_UnmarshalVT dAtA m =
     unmarshal Snapshot_schema (\<lambda>b m. m\<lparr>sn_unknown := sn_unknown m @ b\<rparr>) dAtA m"

definition Snapshot_ok :: "Snapshot \<Rightarrow> bool" where
  "Snapshot_ok m \<longleftrightarrow> sn_unknown m = [] \<and> Snapshot_SizeVT m < 2 ^ 63 \<and> list_all SnapshotEntry_ok (sn_Entries m)"

lemma Snapshot_fold: "fold (\<lambda>x m. m\<lparr>sn_Entries := sn_Entries m @ [x]\<rparr>) xs m = m\<lparr>sn_Entries := sn_Entries m @ xs\<rparr>"
  by (induction xs arbitrary: m) simp_all

interpretation sn_m: vt_message Snapshot_SizeVT Snapshot_MarshalVT Snapshot_UnmarshalVT Snapshot_zero Snapshot_ok
proof
  show sz: "length (Snapshot_MarshalVT m) = Snapshot_SizeVT m" for m
    by (simp add: Snapshot_MarshalVT_def Snapshot_SizeVT_def field_sizes se_m.length_MarshalVT split: option.split)
  show "Snapshot_UnmarshalVT (Snapshot_MarshalVT m) Snapshot_zero = Inr m" if ok: "Snapshot_ok m" for m
  proof -
    from ok sz [of m] have l: "length (Snapshot_MarshalVT m) < 2 ^ 63" by (simp add: Snapshot_ok_def)
    then show ?thesis using ok
      by (cases m) (simp add: Snapshot_ok_def Snapshot_MarshalVT_def Snapshot_UnmarshalVT_def unmarshal_def Snapshot_schema_def
        Snapshot_zero_def in_buffer_def decode_fields list_all_iff se_m.roundtrip
        decode_repeated [where add = "\<lambda>x m. m\<lparr>sn_Entries := sn_Entries m @ [x]\<rparr>"]
        decode_repeated [where add = "\<lambda>x m. m\<lparr>sn_Entries := sn_Entries m @ [x]\<rparr>" and rest = "[]", simplified]
        split del: if_split, simp add: Snapshot_fold)
  qed
qed

subsection \<open>DigestRequest\<close>

record DigestRequest =
  dq_Partition :: u32
  dq_Digest :: u64
  dq_unknown :: bytes

definition DigestRequest_zero :: DigestRequest where
  "DigestRequest_zero = \<lparr>dq_Partition = 0, dq_Digest = 0, dq_unknown = []\<rparr>"

definition DigestRequest_MarshalVT :: "DigestRequest \<Rightarrow> bytes" where
  "DigestRequest_MarshalVT m =
     var_field 0x08 (ucast (dq_Partition m)) @
     var_field 0x10 (dq_Digest m) @
     dq_unknown m"

definition DigestRequest_SizeVT :: "DigestRequest \<Rightarrow> nat" where
  "DigestRequest_SizeVT m =
     var_size (ucast (dq_Partition m)) +
     var_size (dq_Digest m) +
     length (dq_unknown m)"

definition DigestRequest_schema :: "int \<Rightarrow> DigestRequest field option" where
  "DigestRequest_schema n =
     (if n = 1 then Some (VarField (\<lambda>v m. m\<lparr>dq_Partition := ucast v\<rparr>))
      else if n = 2 then Some (VarField (\<lambda>v m. m\<lparr>dq_Digest := v\<rparr>))
      else None)"

definition DigestRequest_UnmarshalVT :: "bytes \<Rightarrow> DigestRequest \<Rightarrow> proto_error + DigestRequest" where
  "DigestRequest_UnmarshalVT dAtA m =
     unmarshal DigestRequest_schema (\<lambda>b m. m\<lparr>dq_unknown := dq_unknown m @ b\<rparr>) dAtA m"

definition DigestRequest_ok :: "DigestRequest \<Rightarrow> bool" where
  "DigestRequest_ok m \<longleftrightarrow> dq_unknown m = [] \<and> DigestRequest_SizeVT m < 2 ^ 63"

interpretation dq_m: vt_message DigestRequest_SizeVT DigestRequest_MarshalVT DigestRequest_UnmarshalVT DigestRequest_zero DigestRequest_ok
proof
  show sz: "length (DigestRequest_MarshalVT m) = DigestRequest_SizeVT m" for m
    by (simp add: DigestRequest_MarshalVT_def DigestRequest_SizeVT_def field_sizes split: option.split)
  show "DigestRequest_UnmarshalVT (DigestRequest_MarshalVT m) DigestRequest_zero = Inr m" if ok: "DigestRequest_ok m" for m
  proof -
    from ok sz [of m] have l: "length (DigestRequest_MarshalVT m) < 2 ^ 63" by (simp add: DigestRequest_ok_def)
    then show ?thesis using ok
      by (cases m) (simp add: DigestRequest_ok_def DigestRequest_MarshalVT_def DigestRequest_UnmarshalVT_def unmarshal_def DigestRequest_schema_def
        DigestRequest_zero_def in_buffer_def decode_fields split del: if_split, simp)
  qed
qed

subsection \<open>DigestResponse\<close>

record DigestResponse =
  dr_Match :: bool
  dr_unknown :: bytes

definition DigestResponse_zero :: DigestResponse where
  "DigestResponse_zero = \<lparr>dr_Match = False, dr_unknown = []\<rparr>"

definition DigestResponse_MarshalVT :: "DigestResponse \<Rightarrow> bytes" where
  "DigestResponse_MarshalVT m =
     bool_field 0x08 (dr_Match m) @
     dr_unknown m"

definition DigestResponse_SizeVT :: "DigestResponse \<Rightarrow> nat" where
  "DigestResponse_SizeVT m =
     bool_size (dr_Match m) +
     length (dr_unknown m)"

definition DigestResponse_schema :: "int \<Rightarrow> DigestResponse field option" where
  "DigestResponse_schema n =
     (if n = 1 then Some (VarField (\<lambda>v m. m\<lparr>dr_Match := (v \<noteq> 0)\<rparr>))
      else None)"

definition DigestResponse_UnmarshalVT :: "bytes \<Rightarrow> DigestResponse \<Rightarrow> proto_error + DigestResponse" where
  "DigestResponse_UnmarshalVT dAtA m =
     unmarshal DigestResponse_schema (\<lambda>b m. m\<lparr>dr_unknown := dr_unknown m @ b\<rparr>) dAtA m"

definition DigestResponse_ok :: "DigestResponse \<Rightarrow> bool" where
  "DigestResponse_ok m \<longleftrightarrow> dr_unknown m = [] \<and> DigestResponse_SizeVT m < 2 ^ 63"

interpretation dr_m: vt_message DigestResponse_SizeVT DigestResponse_MarshalVT DigestResponse_UnmarshalVT DigestResponse_zero DigestResponse_ok
proof
  show sz: "length (DigestResponse_MarshalVT m) = DigestResponse_SizeVT m" for m
    by (simp add: DigestResponse_MarshalVT_def DigestResponse_SizeVT_def field_sizes split: option.split)
  show "DigestResponse_UnmarshalVT (DigestResponse_MarshalVT m) DigestResponse_zero = Inr m" if ok: "DigestResponse_ok m" for m
  proof -
    from ok sz [of m] have l: "length (DigestResponse_MarshalVT m) < 2 ^ 63" by (simp add: DigestResponse_ok_def)
    then show ?thesis using ok
      by (cases m) (simp add: DigestResponse_ok_def DigestResponse_MarshalVT_def DigestResponse_UnmarshalVT_def unmarshal_def DigestResponse_schema_def
        DigestResponse_zero_def in_buffer_def decode_fields split del: if_split, simp)
  qed
qed

subsection \<open>SizeRequest\<close>

record SizeRequest =
  sq_Map :: bytes
  sq_unknown :: bytes

definition SizeRequest_zero :: SizeRequest where
  "SizeRequest_zero = \<lparr>sq_Map = [], sq_unknown = []\<rparr>"

definition SizeRequest_MarshalVT :: "SizeRequest \<Rightarrow> bytes" where
  "SizeRequest_MarshalVT m =
     len_field 0x0a (sq_Map m) @
     sq_unknown m"

definition SizeRequest_SizeVT :: "SizeRequest \<Rightarrow> nat" where
  "SizeRequest_SizeVT m =
     len_size (sq_Map m) +
     length (sq_unknown m)"

definition SizeRequest_schema :: "int \<Rightarrow> SizeRequest field option" where
  "SizeRequest_schema n =
     (if n = 1 then Some (LenField (\<lambda>b m. Inr (m\<lparr>sq_Map := b\<rparr>)))
      else None)"

definition SizeRequest_UnmarshalVT :: "bytes \<Rightarrow> SizeRequest \<Rightarrow> proto_error + SizeRequest" where
  "SizeRequest_UnmarshalVT dAtA m =
     unmarshal SizeRequest_schema (\<lambda>b m. m\<lparr>sq_unknown := sq_unknown m @ b\<rparr>) dAtA m"

definition SizeRequest_ok :: "SizeRequest \<Rightarrow> bool" where
  "SizeRequest_ok m \<longleftrightarrow> sq_unknown m = [] \<and> SizeRequest_SizeVT m < 2 ^ 63"

interpretation sq_m: vt_message SizeRequest_SizeVT SizeRequest_MarshalVT SizeRequest_UnmarshalVT SizeRequest_zero SizeRequest_ok
proof
  show sz: "length (SizeRequest_MarshalVT m) = SizeRequest_SizeVT m" for m
    by (simp add: SizeRequest_MarshalVT_def SizeRequest_SizeVT_def field_sizes split: option.split)
  show "SizeRequest_UnmarshalVT (SizeRequest_MarshalVT m) SizeRequest_zero = Inr m" if ok: "SizeRequest_ok m" for m
  proof -
    from ok sz [of m] have l: "length (SizeRequest_MarshalVT m) < 2 ^ 63" by (simp add: SizeRequest_ok_def)
    then show ?thesis using ok
      by (cases m) (simp add: SizeRequest_ok_def SizeRequest_MarshalVT_def SizeRequest_UnmarshalVT_def unmarshal_def SizeRequest_schema_def
        SizeRequest_zero_def in_buffer_def decode_fields split del: if_split, simp)
  qed
qed

subsection \<open>SizeResponse\<close>

record SizeResponse =
  sr_Cnt :: u64
  sr_unknown :: bytes

definition SizeResponse_zero :: SizeResponse where
  "SizeResponse_zero = \<lparr>sr_Cnt = 0, sr_unknown = []\<rparr>"

definition SizeResponse_MarshalVT :: "SizeResponse \<Rightarrow> bytes" where
  "SizeResponse_MarshalVT m =
     var_field 0x08 (sr_Cnt m) @
     sr_unknown m"

definition SizeResponse_SizeVT :: "SizeResponse \<Rightarrow> nat" where
  "SizeResponse_SizeVT m =
     var_size (sr_Cnt m) +
     length (sr_unknown m)"

definition SizeResponse_schema :: "int \<Rightarrow> SizeResponse field option" where
  "SizeResponse_schema n =
     (if n = 1 then Some (VarField (\<lambda>v m. m\<lparr>sr_Cnt := v\<rparr>))
      else None)"

definition SizeResponse_UnmarshalVT :: "bytes \<Rightarrow> SizeResponse \<Rightarrow> proto_error + SizeResponse" where
  "SizeResponse_UnmarshalVT dAtA m =
     unmarshal SizeResponse_schema (\<lambda>b m. m\<lparr>sr_unknown := sr_unknown m @ b\<rparr>) dAtA m"

definition SizeResponse_ok :: "SizeResponse \<Rightarrow> bool" where
  "SizeResponse_ok m \<longleftrightarrow> sr_unknown m = [] \<and> SizeResponse_SizeVT m < 2 ^ 63"

interpretation sr_m: vt_message SizeResponse_SizeVT SizeResponse_MarshalVT SizeResponse_UnmarshalVT SizeResponse_zero SizeResponse_ok
proof
  show sz: "length (SizeResponse_MarshalVT m) = SizeResponse_SizeVT m" for m
    by (simp add: SizeResponse_MarshalVT_def SizeResponse_SizeVT_def field_sizes split: option.split)
  show "SizeResponse_UnmarshalVT (SizeResponse_MarshalVT m) SizeResponse_zero = Inr m" if ok: "SizeResponse_ok m" for m
  proof -
    from ok sz [of m] have l: "length (SizeResponse_MarshalVT m) < 2 ^ 63" by (simp add: SizeResponse_ok_def)
    then show ?thesis using ok
      by (cases m) (simp add: SizeResponse_ok_def SizeResponse_MarshalVT_def SizeResponse_UnmarshalVT_def unmarshal_def SizeResponse_schema_def
        SizeResponse_zero_def in_buffer_def decode_fields split del: if_split, simp)
  qed
qed

subsection \<open>ClearRequest\<close>

record ClearRequest =
  cq_Map :: bytes
  cq_unknown :: bytes

definition ClearRequest_zero :: ClearRequest where
  "ClearRequest_zero = \<lparr>cq_Map = [], cq_unknown = []\<rparr>"

definition ClearRequest_MarshalVT :: "ClearRequest \<Rightarrow> bytes" where
  "ClearRequest_MarshalVT m =
     len_field 0x0a (cq_Map m) @
     cq_unknown m"

definition ClearRequest_SizeVT :: "ClearRequest \<Rightarrow> nat" where
  "ClearRequest_SizeVT m =
     len_size (cq_Map m) +
     length (cq_unknown m)"

definition ClearRequest_schema :: "int \<Rightarrow> ClearRequest field option" where
  "ClearRequest_schema n =
     (if n = 1 then Some (LenField (\<lambda>b m. Inr (m\<lparr>cq_Map := b\<rparr>)))
      else None)"

definition ClearRequest_UnmarshalVT :: "bytes \<Rightarrow> ClearRequest \<Rightarrow> proto_error + ClearRequest" where
  "ClearRequest_UnmarshalVT dAtA m =
     unmarshal ClearRequest_schema (\<lambda>b m. m\<lparr>cq_unknown := cq_unknown m @ b\<rparr>) dAtA m"

definition ClearRequest_ok :: "ClearRequest \<Rightarrow> bool" where
  "ClearRequest_ok m \<longleftrightarrow> cq_unknown m = [] \<and> ClearRequest_SizeVT m < 2 ^ 63"

interpretation cq_m: vt_message ClearRequest_SizeVT ClearRequest_MarshalVT ClearRequest_UnmarshalVT ClearRequest_zero ClearRequest_ok
proof
  show sz: "length (ClearRequest_MarshalVT m) = ClearRequest_SizeVT m" for m
    by (simp add: ClearRequest_MarshalVT_def ClearRequest_SizeVT_def field_sizes split: option.split)
  show "ClearRequest_UnmarshalVT (ClearRequest_MarshalVT m) ClearRequest_zero = Inr m" if ok: "ClearRequest_ok m" for m
  proof -
    from ok sz [of m] have l: "length (ClearRequest_MarshalVT m) < 2 ^ 63" by (simp add: ClearRequest_ok_def)
    then show ?thesis using ok
      by (cases m) (simp add: ClearRequest_ok_def ClearRequest_MarshalVT_def ClearRequest_UnmarshalVT_def unmarshal_def ClearRequest_schema_def
        ClearRequest_zero_def in_buffer_def decode_fields split del: if_split, simp)
  qed
qed

subsection \<open>ClearResponse\<close>

record ClearResponse =
  cr_Removed :: u64
  cr_unknown :: bytes

definition ClearResponse_zero :: ClearResponse where
  "ClearResponse_zero = \<lparr>cr_Removed = 0, cr_unknown = []\<rparr>"

definition ClearResponse_MarshalVT :: "ClearResponse \<Rightarrow> bytes" where
  "ClearResponse_MarshalVT m =
     var_field 0x08 (cr_Removed m) @
     cr_unknown m"

definition ClearResponse_SizeVT :: "ClearResponse \<Rightarrow> nat" where
  "ClearResponse_SizeVT m =
     var_size (cr_Removed m) +
     length (cr_unknown m)"

definition ClearResponse_schema :: "int \<Rightarrow> ClearResponse field option" where
  "ClearResponse_schema n =
     (if n = 1 then Some (VarField (\<lambda>v m. m\<lparr>cr_Removed := v\<rparr>))
      else None)"

definition ClearResponse_UnmarshalVT :: "bytes \<Rightarrow> ClearResponse \<Rightarrow> proto_error + ClearResponse" where
  "ClearResponse_UnmarshalVT dAtA m =
     unmarshal ClearResponse_schema (\<lambda>b m. m\<lparr>cr_unknown := cr_unknown m @ b\<rparr>) dAtA m"

definition ClearResponse_ok :: "ClearResponse \<Rightarrow> bool" where
  "ClearResponse_ok m \<longleftrightarrow> cr_unknown m = [] \<and> ClearResponse_SizeVT m < 2 ^ 63"

interpretation cr_m: vt_message ClearResponse_SizeVT ClearResponse_MarshalVT ClearResponse_UnmarshalVT ClearResponse_zero ClearResponse_ok
proof
  show sz: "length (ClearResponse_MarshalVT m) = ClearResponse_SizeVT m" for m
    by (simp add: ClearResponse_MarshalVT_def ClearResponse_SizeVT_def field_sizes split: option.split)
  show "ClearResponse_UnmarshalVT (ClearResponse_MarshalVT m) ClearResponse_zero = Inr m" if ok: "ClearResponse_ok m" for m
  proof -
    from ok sz [of m] have l: "length (ClearResponse_MarshalVT m) < 2 ^ 63" by (simp add: ClearResponse_ok_def)
    then show ?thesis using ok
      by (cases m) (simp add: ClearResponse_ok_def ClearResponse_MarshalVT_def ClearResponse_UnmarshalVT_def unmarshal_def ClearResponse_schema_def
        ClearResponse_zero_def in_buffer_def decode_fields split del: if_split, simp)
  qed
qed

subsection \<open>AggregateRequest\<close>

record AggregateRequest =
  aq_Map :: bytes
  aq_Aggregator :: bytes
  aq_unknown :: bytes

definition AggregateRequest_zero :: AggregateRequest where
  "AggregateRequest_zero = \<lparr>aq_Map = [], aq_Aggregator = [], aq_unknown = []\<rparr>"

definition AggregateRequest_MarshalVT :: "AggregateRequest \<Rightarrow> bytes" where
  "AggregateRequest_MarshalVT m =
     len_field 0x0a (aq_Map m) @
     len_field 0x12 (aq_Aggregator m) @
     aq_unknown m"

definition AggregateRequest_SizeVT :: "AggregateRequest \<Rightarrow> nat" where
  "AggregateRequest_SizeVT m =
     len_size (aq_Map m) +
     len_size (aq_Aggregator m) +
     length (aq_unknown m)"

definition AggregateRequest_schema :: "int \<Rightarrow> AggregateRequest field option" where
  "AggregateRequest_schema n =
     (if n = 1 then Some (LenField (\<lambda>b m. Inr (m\<lparr>aq_Map := b\<rparr>)))
      else if n = 2 then Some (LenField (\<lambda>b m. Inr (m\<lparr>aq_Aggregator := b\<rparr>)))
      else None)"

definition AggregateRequest_UnmarshalVT :: "bytes \<Rightarrow> AggregateRequest \<Rightarrow> proto_error + AggregateRequest" where
  "AggregateRequest_UnmarshalVT dAtA m =
     unmarshal AggregateRequest_schema (\<lambda>b m. m\<lparr>aq_unknown := aq_unknown m @ b\<rparr>) dAtA m"

definition AggregateRequest_ok :: "AggregateRequest \<Rightarrow> bool" where
  "AggregateRequest_ok m \<longleftrightarrow> aq_unknown m = [] \<and> AggregateRequest_SizeVT m < 2 ^ 63"

interpretation aq_m: vt_message AggregateRequest_SizeVT AggregateRequest_MarshalVT AggregateRequest_UnmarshalVT AggregateRequest_zero AggregateRequest_ok
proof
  show sz: "length (AggregateRequest_MarshalVT m) = AggregateRequest_SizeVT m" for m
    by (simp add: AggregateRequest_MarshalVT_def AggregateRequest_SizeVT_def field_sizes split: option.split)
  show "AggregateRequest_UnmarshalVT (AggregateRequest_MarshalVT m) AggregateRequest_zero = Inr m" if ok: "AggregateRequest_ok m" for m
  proof -
    from ok sz [of m] have l: "length (AggregateRequest_MarshalVT m) < 2 ^ 63" by (simp add: AggregateRequest_ok_def)
    then show ?thesis using ok
      by (cases m) (simp add: AggregateRequest_ok_def AggregateRequest_MarshalVT_def AggregateRequest_UnmarshalVT_def unmarshal_def AggregateRequest_schema_def
        AggregateRequest_zero_def in_buffer_def decode_fields split del: if_split, simp)
  qed
qed

subsection \<open>AggregateResponse\<close>

record AggregateResponse =
  ar_Partial :: bytes
  ar_unknown :: bytes

definition AggregateResponse_zero :: AggregateResponse where
  "AggregateResponse_zero = \<lparr>ar_Partial = [], ar_unknown = []\<rparr>"

definition AggregateResponse_MarshalVT :: "AggregateResponse \<Rightarrow> bytes" where
  "AggregateResponse_MarshalVT m =
     len_field 0x0a (ar_Partial m) @
     ar_unknown m"

definition AggregateResponse_SizeVT :: "AggregateResponse \<Rightarrow> nat" where
  "AggregateResponse_SizeVT m =
     len_size (ar_Partial m) +
     length (ar_unknown m)"

definition AggregateResponse_schema :: "int \<Rightarrow> AggregateResponse field option" where
  "AggregateResponse_schema n =
     (if n = 1 then Some (LenField (\<lambda>b m. Inr (m\<lparr>ar_Partial := b\<rparr>)))
      else None)"

definition AggregateResponse_UnmarshalVT :: "bytes \<Rightarrow> AggregateResponse \<Rightarrow> proto_error + AggregateResponse" where
  "AggregateResponse_UnmarshalVT dAtA m =
     unmarshal AggregateResponse_schema (\<lambda>b m. m\<lparr>ar_unknown := ar_unknown m @ b\<rparr>) dAtA m"

definition AggregateResponse_ok :: "AggregateResponse \<Rightarrow> bool" where
  "AggregateResponse_ok m \<longleftrightarrow> ar_unknown m = [] \<and> AggregateResponse_SizeVT m < 2 ^ 63"

interpretation ar_m: vt_message AggregateResponse_SizeVT AggregateResponse_MarshalVT AggregateResponse_UnmarshalVT AggregateResponse_zero AggregateResponse_ok
proof
  show sz: "length (AggregateResponse_MarshalVT m) = AggregateResponse_SizeVT m" for m
    by (simp add: AggregateResponse_MarshalVT_def AggregateResponse_SizeVT_def field_sizes split: option.split)
  show "AggregateResponse_UnmarshalVT (AggregateResponse_MarshalVT m) AggregateResponse_zero = Inr m" if ok: "AggregateResponse_ok m" for m
  proof -
    from ok sz [of m] have l: "length (AggregateResponse_MarshalVT m) < 2 ^ 63" by (simp add: AggregateResponse_ok_def)
    then show ?thesis using ok
      by (cases m) (simp add: AggregateResponse_ok_def AggregateResponse_MarshalVT_def AggregateResponse_UnmarshalVT_def unmarshal_def AggregateResponse_schema_def
        AggregateResponse_zero_def in_buffer_def decode_fields split del: if_split, simp)
  qed
qed

subsection \<open>EvictRequest\<close>

record EvictRequest =
  eq_Map :: bytes
  eq_Key :: bytes
  eq_unknown :: bytes

definition EvictRequest_zero :: EvictRequest where
  "EvictRequest_zero = \<lparr>eq_Map = [], eq_Key = [], eq_unknown = []\<rparr>"

definition EvictRequest_MarshalVT :: "EvictRequest \<Rightarrow> bytes" where
  "EvictRequest_MarshalVT m =
     len_field 0x0a (eq_Map m) @
     len_field 0x12 (eq_Key m) @
     eq_unknown m"

definition EvictRequest_SizeVT :: "EvictRequest \<Rightarrow> nat" where
  "EvictRequest_SizeVT m =
     len_size (eq_Map m) +
     len_size (eq_Key m) +
     length (eq_unknown m)"

definition EvictRequest_schema :: "int \<Rightarrow> EvictRequest field option" where
  "EvictRequest_schema n =
     (if n = 1 then Some (LenField (\<lambda>b m. Inr (m\<lparr>eq_Map := b\<rparr>)))
      else if n = 2 then Some (LenField (\<lambda>b m. Inr (m\<lparr>eq_Key := b\<rparr>)))
      else None)"

definition EvictRequest_UnmarshalVT :: "bytes \<Rightarrow> EvictRequest \<Rightarrow> proto_error + EvictRequest" where
  "EvictRequest_UnmarshalVT dAtA m =
     unmarshal EvictRequest_schema (\<lambda>b m. m\<lparr>eq_unknown := eq_unknown m @ b\<rparr>) dAtA m"

definition EvictRequest_ok :: "EvictRequest \<Rightarrow> bool" where
  "EvictRequest_ok m \<longleftrightarrow> eq_unknown m = [] \<and> EvictRequest_SizeVT m < 2 ^ 63"

interpretation eq_m: vt_message EvictRequest_SizeVT EvictRequest_MarshalVT EvictRequest_UnmarshalVT EvictRequest_zero EvictRequest_ok
proof
  show sz: "length (EvictRequest_MarshalVT m) = EvictRequest_SizeVT m" for m
    by (simp add: EvictRequest_MarshalVT_def EvictRequest_SizeVT_def field_sizes split: option.split)
  show "EvictRequest_UnmarshalVT (EvictRequest_MarshalVT m) EvictRequest_zero = Inr m" if ok: "EvictRequest_ok m" for m
  proof -
    from ok sz [of m] have l: "length (EvictRequest_MarshalVT m) < 2 ^ 63" by (simp add: EvictRequest_ok_def)
    then show ?thesis using ok
      by (cases m) (simp add: EvictRequest_ok_def EvictRequest_MarshalVT_def EvictRequest_UnmarshalVT_def unmarshal_def EvictRequest_schema_def
        EvictRequest_zero_def in_buffer_def decode_fields split del: if_split, simp)
  qed
qed

subsection \<open>EvictResponse\<close>

record EvictResponse =
  er_Existed :: bool
  er_unknown :: bytes

definition EvictResponse_zero :: EvictResponse where
  "EvictResponse_zero = \<lparr>er_Existed = False, er_unknown = []\<rparr>"

definition EvictResponse_MarshalVT :: "EvictResponse \<Rightarrow> bytes" where
  "EvictResponse_MarshalVT m =
     bool_field 0x08 (er_Existed m) @
     er_unknown m"

definition EvictResponse_SizeVT :: "EvictResponse \<Rightarrow> nat" where
  "EvictResponse_SizeVT m =
     bool_size (er_Existed m) +
     length (er_unknown m)"

definition EvictResponse_schema :: "int \<Rightarrow> EvictResponse field option" where
  "EvictResponse_schema n =
     (if n = 1 then Some (VarField (\<lambda>v m. m\<lparr>er_Existed := (v \<noteq> 0)\<rparr>))
      else None)"

definition EvictResponse_UnmarshalVT :: "bytes \<Rightarrow> EvictResponse \<Rightarrow> proto_error + EvictResponse" where
  "EvictResponse_UnmarshalVT dAtA m =
     unmarshal EvictResponse_schema (\<lambda>b m. m\<lparr>er_unknown := er_unknown m @ b\<rparr>) dAtA m"

definition EvictResponse_ok :: "EvictResponse \<Rightarrow> bool" where
  "EvictResponse_ok m \<longleftrightarrow> er_unknown m = [] \<and> EvictResponse_SizeVT m < 2 ^ 63"

interpretation er_m: vt_message EvictResponse_SizeVT EvictResponse_MarshalVT EvictResponse_UnmarshalVT EvictResponse_zero EvictResponse_ok
proof
  show sz: "length (EvictResponse_MarshalVT m) = EvictResponse_SizeVT m" for m
    by (simp add: EvictResponse_MarshalVT_def EvictResponse_SizeVT_def field_sizes split: option.split)
  show "EvictResponse_UnmarshalVT (EvictResponse_MarshalVT m) EvictResponse_zero = Inr m" if ok: "EvictResponse_ok m" for m
  proof -
    from ok sz [of m] have l: "length (EvictResponse_MarshalVT m) < 2 ^ 63" by (simp add: EvictResponse_ok_def)
    then show ?thesis using ok
      by (cases m) (simp add: EvictResponse_ok_def EvictResponse_MarshalVT_def EvictResponse_UnmarshalVT_def unmarshal_def EvictResponse_schema_def
        EvictResponse_zero_def in_buffer_def decode_fields split del: if_split, simp)
  qed
qed

subsection \<open>KeyRef\<close>

record KeyRef =
  kr_Map :: bytes
  kr_Key :: bytes
  kr_unknown :: bytes

definition KeyRef_zero :: KeyRef where
  "KeyRef_zero = \<lparr>kr_Map = [], kr_Key = [], kr_unknown = []\<rparr>"

definition KeyRef_MarshalVT :: "KeyRef \<Rightarrow> bytes" where
  "KeyRef_MarshalVT m =
     len_field 0x0a (kr_Map m) @
     len_field 0x12 (kr_Key m) @
     kr_unknown m"

definition KeyRef_SizeVT :: "KeyRef \<Rightarrow> nat" where
  "KeyRef_SizeVT m =
     len_size (kr_Map m) +
     len_size (kr_Key m) +
     length (kr_unknown m)"

definition KeyRef_schema :: "int \<Rightarrow> KeyRef field option" where
  "KeyRef_schema n =
     (if n = 1 then Some (LenField (\<lambda>b m. Inr (m\<lparr>kr_Map := b\<rparr>)))
      else if n = 2 then Some (LenField (\<lambda>b m. Inr (m\<lparr>kr_Key := b\<rparr>)))
      else None)"

definition KeyRef_UnmarshalVT :: "bytes \<Rightarrow> KeyRef \<Rightarrow> proto_error + KeyRef" where
  "KeyRef_UnmarshalVT dAtA m =
     unmarshal KeyRef_schema (\<lambda>b m. m\<lparr>kr_unknown := kr_unknown m @ b\<rparr>) dAtA m"

definition KeyRef_ok :: "KeyRef \<Rightarrow> bool" where
  "KeyRef_ok m \<longleftrightarrow> kr_unknown m = [] \<and> KeyRef_SizeVT m < 2 ^ 63"

interpretation kr_m: vt_message KeyRef_SizeVT KeyRef_MarshalVT KeyRef_UnmarshalVT KeyRef_zero KeyRef_ok
proof
  show sz: "length (KeyRef_MarshalVT m) = KeyRef_SizeVT m" for m
    by (simp add: KeyRef_MarshalVT_def KeyRef_SizeVT_def field_sizes split: option.split)
  show "KeyRef_UnmarshalVT (KeyRef_MarshalVT m) KeyRef_zero = Inr m" if ok: "KeyRef_ok m" for m
  proof -
    from ok sz [of m] have l: "length (KeyRef_MarshalVT m) < 2 ^ 63" by (simp add: KeyRef_ok_def)
    then show ?thesis using ok
      by (cases m) (simp add: KeyRef_ok_def KeyRef_MarshalVT_def KeyRef_UnmarshalVT_def unmarshal_def KeyRef_schema_def
        KeyRef_zero_def in_buffer_def decode_fields split del: if_split, simp)
  qed
qed

subsection \<open>ReconcileRequest\<close>

record ReconcileRequest =
  kq_Partition :: u32
  kq_Keys :: "KeyRef list"
  kq_unknown :: bytes

definition ReconcileRequest_zero :: ReconcileRequest where
  "ReconcileRequest_zero = \<lparr>kq_Partition = 0, kq_Keys = [], kq_unknown = []\<rparr>"

definition ReconcileRequest_MarshalVT :: "ReconcileRequest \<Rightarrow> bytes" where
  "ReconcileRequest_MarshalVT m =
     var_field 0x08 (ucast (kq_Partition m)) @
     concat (map (\<lambda>x. msg_field 0x12 (KeyRef_MarshalVT x)) (kq_Keys m)) @
     kq_unknown m"

definition ReconcileRequest_SizeVT :: "ReconcileRequest \<Rightarrow> nat" where
  "ReconcileRequest_SizeVT m =
     var_size (ucast (kq_Partition m)) +
     sum_list (map (\<lambda>x. msg_size (KeyRef_SizeVT x)) (kq_Keys m)) +
     length (kq_unknown m)"

definition ReconcileRequest_schema :: "int \<Rightarrow> ReconcileRequest field option" where
  "ReconcileRequest_schema n =
     (if n = 1 then Some (VarField (\<lambda>v m. m\<lparr>kq_Partition := ucast v\<rparr>))
      else if n = 2 then Some (LenField (\<lambda>b m.
          case KeyRef_UnmarshalVT b KeyRef_zero of
            Inl e \<Rightarrow> Inl e | Inr x \<Rightarrow> Inr (m\<lparr>kq_Keys := kq_Keys m @ [x]\<rparr>)))
      else None)"

definition ReconcileRequest_UnmarshalVT :: "bytes \<Rightarrow> ReconcileRequest \<Rightarrow> proto_error + ReconcileRequest" where
  "ReconcileRequest_UnmarshalVT dAtA m =
     unmarshal ReconcileRequest_schema (\<lambda>b m. m\<lparr>kq_unknown := kq_unknown m @ b\<rparr>) dAtA m"

definition ReconcileRequest_ok :: "ReconcileRequest \<Rightarrow> bool" where
  "ReconcileRequest_ok m \<longleftrightarrow> kq_unknown m = [] \<and> ReconcileRequest_SizeVT m < 2 ^ 63 \<and> list_all KeyRef_ok (kq_Keys m)"

lemma ReconcileRequest_fold: "fold (\<lambda>x m. m\<lparr>kq_Keys := kq_Keys m @ [x]\<rparr>) xs m = m\<lparr>kq_Keys := kq_Keys m @ xs\<rparr>"
  by (induction xs arbitrary: m) simp_all

interpretation kq_m: vt_message ReconcileRequest_SizeVT ReconcileRequest_MarshalVT ReconcileRequest_UnmarshalVT ReconcileRequest_zero ReconcileRequest_ok
proof
  show sz: "length (ReconcileRequest_MarshalVT m) = ReconcileRequest_SizeVT m" for m
    by (simp add: ReconcileRequest_MarshalVT_def ReconcileRequest_SizeVT_def field_sizes kr_m.length_MarshalVT split: option.split)
  show "ReconcileRequest_UnmarshalVT (ReconcileRequest_MarshalVT m) ReconcileRequest_zero = Inr m" if ok: "ReconcileRequest_ok m" for m
  proof -
    from ok sz [of m] have l: "length (ReconcileRequest_MarshalVT m) < 2 ^ 63" by (simp add: ReconcileRequest_ok_def)
    then show ?thesis using ok
      by (cases m) (simp add: ReconcileRequest_ok_def ReconcileRequest_MarshalVT_def ReconcileRequest_UnmarshalVT_def unmarshal_def ReconcileRequest_schema_def
        ReconcileRequest_zero_def in_buffer_def decode_fields list_all_iff kr_m.roundtrip
        decode_repeated [where add = "\<lambda>x m. m\<lparr>kq_Keys := kq_Keys m @ [x]\<rparr>"]
        decode_repeated [where add = "\<lambda>x m. m\<lparr>kq_Keys := kq_Keys m @ [x]\<rparr>" and rest = "[]", simplified]
        split del: if_split, simp add: ReconcileRequest_fold)
  qed
qed

subsection \<open>ReconcileResponse\<close>

record ReconcileResponse =
  kp_Pruned :: u64
  kp_unknown :: bytes

definition ReconcileResponse_zero :: ReconcileResponse where
  "ReconcileResponse_zero = \<lparr>kp_Pruned = 0, kp_unknown = []\<rparr>"

definition ReconcileResponse_MarshalVT :: "ReconcileResponse \<Rightarrow> bytes" where
  "ReconcileResponse_MarshalVT m =
     var_field 0x08 (kp_Pruned m) @
     kp_unknown m"

definition ReconcileResponse_SizeVT :: "ReconcileResponse \<Rightarrow> nat" where
  "ReconcileResponse_SizeVT m =
     var_size (kp_Pruned m) +
     length (kp_unknown m)"

definition ReconcileResponse_schema :: "int \<Rightarrow> ReconcileResponse field option" where
  "ReconcileResponse_schema n =
     (if n = 1 then Some (VarField (\<lambda>v m. m\<lparr>kp_Pruned := v\<rparr>))
      else None)"

definition ReconcileResponse_UnmarshalVT :: "bytes \<Rightarrow> ReconcileResponse \<Rightarrow> proto_error + ReconcileResponse" where
  "ReconcileResponse_UnmarshalVT dAtA m =
     unmarshal ReconcileResponse_schema (\<lambda>b m. m\<lparr>kp_unknown := kp_unknown m @ b\<rparr>) dAtA m"

definition ReconcileResponse_ok :: "ReconcileResponse \<Rightarrow> bool" where
  "ReconcileResponse_ok m \<longleftrightarrow> kp_unknown m = [] \<and> ReconcileResponse_SizeVT m < 2 ^ 63"

interpretation kp_m: vt_message ReconcileResponse_SizeVT ReconcileResponse_MarshalVT ReconcileResponse_UnmarshalVT ReconcileResponse_zero ReconcileResponse_ok
proof
  show sz: "length (ReconcileResponse_MarshalVT m) = ReconcileResponse_SizeVT m" for m
    by (simp add: ReconcileResponse_MarshalVT_def ReconcileResponse_SizeVT_def field_sizes split: option.split)
  show "ReconcileResponse_UnmarshalVT (ReconcileResponse_MarshalVT m) ReconcileResponse_zero = Inr m" if ok: "ReconcileResponse_ok m" for m
  proof -
    from ok sz [of m] have l: "length (ReconcileResponse_MarshalVT m) < 2 ^ 63" by (simp add: ReconcileResponse_ok_def)
    then show ?thesis using ok
      by (cases m) (simp add: ReconcileResponse_ok_def ReconcileResponse_MarshalVT_def ReconcileResponse_UnmarshalVT_def unmarshal_def ReconcileResponse_schema_def
        ReconcileResponse_zero_def in_buffer_def decode_fields split del: if_split, simp)
  qed
qed

subsection \<open>Error\<close>

record ErrorMsg =
  em_Code :: u32
  em_Message :: bytes
  em_unknown :: bytes

definition ErrorMsg_zero :: ErrorMsg where
  "ErrorMsg_zero = \<lparr>em_Code = 0, em_Message = [], em_unknown = []\<rparr>"

definition ErrorMsg_MarshalVT :: "ErrorMsg \<Rightarrow> bytes" where
  "ErrorMsg_MarshalVT m =
     var_field 0x08 (ucast (em_Code m)) @
     len_field 0x12 (em_Message m) @
     em_unknown m"

definition ErrorMsg_SizeVT :: "ErrorMsg \<Rightarrow> nat" where
  "ErrorMsg_SizeVT m =
     var_size (ucast (em_Code m)) +
     len_size (em_Message m) +
     length (em_unknown m)"

definition ErrorMsg_schema :: "int \<Rightarrow> ErrorMsg field option" where
  "ErrorMsg_schema n =
     (if n = 1 then Some (VarField (\<lambda>v m. m\<lparr>em_Code := ucast v\<rparr>))
      else if n = 2 then Some (LenField (\<lambda>b m. Inr (m\<lparr>em_Message := b\<rparr>)))
      else None)"

definition ErrorMsg_UnmarshalVT :: "bytes \<Rightarrow> ErrorMsg \<Rightarrow> proto_error + ErrorMsg" where
  "ErrorMsg_UnmarshalVT dAtA m =
     unmarshal ErrorMsg_schema (\<lambda>b m. m\<lparr>em_unknown := em_unknown m @ b\<rparr>) dAtA m"

definition ErrorMsg_ok :: "ErrorMsg \<Rightarrow> bool" where
  "ErrorMsg_ok m \<longleftrightarrow> em_unknown m = [] \<and> ErrorMsg_SizeVT m < 2 ^ 63"

interpretation em_m: vt_message ErrorMsg_SizeVT ErrorMsg_MarshalVT ErrorMsg_UnmarshalVT ErrorMsg_zero ErrorMsg_ok
proof
  show sz: "length (ErrorMsg_MarshalVT m) = ErrorMsg_SizeVT m" for m
    by (simp add: ErrorMsg_MarshalVT_def ErrorMsg_SizeVT_def field_sizes split: option.split)
  show "ErrorMsg_UnmarshalVT (ErrorMsg_MarshalVT m) ErrorMsg_zero = Inr m" if ok: "ErrorMsg_ok m" for m
  proof -
    from ok sz [of m] have l: "length (ErrorMsg_MarshalVT m) < 2 ^ 63" by (simp add: ErrorMsg_ok_def)
    then show ?thesis using ok
      by (cases m) (simp add: ErrorMsg_ok_def ErrorMsg_MarshalVT_def ErrorMsg_UnmarshalVT_def unmarshal_def ErrorMsg_schema_def
        ErrorMsg_zero_def in_buffer_def decode_fields split del: if_split, simp)
  qed
qed

end
