(* ===== verification/Wal.thy ===== *)
theory Wal
  imports Messages
begin

text \<open>
  The write-ahead log of \<open>imap/wal.go\<close>.

  A file is missing, holds bytes, or cannot be opened. The handle \<open>wal\<close> keeps the write offset of
  the open file (\<open>None\<close> is the nil \<open>f\<close> of a closed log). What the operating system does to a write
  is the argument \<open>io\<close>: success, or how many bytes reached the file before the call failed.
  \<open>replayWAL\<close> is the loop over the records with its three callbacks as functions on a state.

  The lemmas give the state that replaying a log reaches: the records that were appended, in order,
  and nothing of a torn last record, whose bytes \<open>truncateTail\<close> removes.
\<close>

section \<open>Files and records\<close>

datatype os_file = Missing | Content bytes | Unreadable

datatype os_error = ErrOsClosed | ErrOsOpen | ErrOsWrite | ErrOsSync | ErrOsTruncate

datatype io = IoOk | HdrFails nat | PayloadFails nat | SyncFails

record wal =
  wal_off :: "nat option"

definition walOpPut :: u8 where
  "walOpPut = 1"

definition walOpRemove :: u8 where
  "walOpRemove = 2"

definition walOpClear :: u8 where
  "walOpClear = 3"

lemmas walOps = walOpPut_def walOpRemove_def walOpClear_def

definition maxWALRecord :: nat where
  "maxWALRecord = 134217728"

definition file_bytes :: "os_file \<Rightarrow> bytes" where
  "file_bytes f = (case f of Content b \<Rightarrow> b | _ \<Rightarrow> [])"

text \<open>\<open>openWAL\<close> creates the file if needed and positions the write offset at its end.\<close>

definition openWAL :: "os_file \<Rightarrow> os_error + (wal \<times> os_file)" where
  "openWAL f =
     (case f of
        Unreadable \<Rightarrow> Inl ErrOsOpen
      | Missing \<Rightarrow> Inr (\<lparr>wal_off = Some 0\<rparr>, Content [])
      | Content b \<Rightarrow> Inr (\<lparr>wal_off = Some (length b)\<rparr>, Content b))"

text \<open>\<open>Write\<close> at an offset overwrites what is there, extends the file and advances the offset.\<close>

definition write_at :: "nat \<Rightarrow> bytes \<Rightarrow> bytes \<Rightarrow> bytes" where
  "write_at off bs b =
     take off b @ replicate (off - length b) 0 @ bs @ drop (off + length bs) b"

definition wal_write :: "bytes \<Rightarrow> wal \<times> bytes \<Rightarrow> wal \<times> bytes" where
  "wal_write bs s =
     (case s of (w, b) \<Rightarrow>
        (case wal_off w of None \<Rightarrow> (w, b) | Some off \<Rightarrow> (w\<lparr>wal_off := Some (off + length bs)\<rparr>, write_at off bs b)))"

definition wal_hdr :: "u8 \<Rightarrow> bytes \<Rightarrow> bytes" where
  "wal_hdr op payload = PutUint32 (of_nat (length payload)) @ [op]"

definition appendLocked :: "io \<Rightarrow> u8 \<Rightarrow> SnapshotEntry \<Rightarrow> wal \<times> bytes \<Rightarrow> os_error option \<times> wal \<times> bytes" where
  "appendLocked io op e s =
     (let payload = SnapshotEntry_MarshalVT e; hdr = wal_hdr op payload
      in if wal_off (fst s) = None then (Some ErrOsClosed, s)
         else case io of
                HdrFails k \<Rightarrow> (Some ErrOsWrite, wal_write (take k hdr) s)
              | PayloadFails k \<Rightarrow> (Some ErrOsWrite, wal_write (take k payload) (wal_write hdr s))
              | SyncFails \<Rightarrow> (Some ErrOsSync, wal_write payload (wal_write hdr s))
              | IoOk \<Rightarrow> (None, wal_write payload (wal_write hdr s)))"

definition put_record :: "bytes \<Rightarrow> bytes \<Rightarrow> bytes \<Rightarrow> int \<Rightarrow> SnapshotEntry" where
  "put_record name key value expireAt =
     SnapshotEntry_zero\<lparr>se_Map := name, se_Key := key, se_Value := value, se_ExpireAt := expireAt\<rparr>"

definition remove_record :: "bytes \<Rightarrow> bytes \<Rightarrow> SnapshotEntry" where
  "remove_record name key = SnapshotEntry_zero\<lparr>se_Map := name, se_Key := key\<rparr>"

definition clear_record :: "bytes \<Rightarrow> SnapshotEntry" where
  "clear_record name = SnapshotEntry_zero\<lparr>se_Map := name\<rparr>"

definition appendPut :: "io \<Rightarrow> bytes \<Rightarrow> bytes \<Rightarrow> bytes \<Rightarrow> int \<Rightarrow> wal \<times> bytes \<Rightarrow> os_error option \<times> wal \<times> bytes" where
  "appendPut io name key value expireAt = appendLocked io walOpPut (put_record name key value expireAt)"

definition appendRemoveLocked :: "io \<Rightarrow> bytes \<Rightarrow> bytes \<Rightarrow> wal \<times> bytes \<Rightarrow> os_error option \<times> wal \<times> bytes" where
  "appendRemoveLocked io name key = appendLocked io walOpRemove (remove_record name key)"

text \<open>\<open>truncateLocked\<close>; the argument says whether the operating system truncates and syncs the file.\<close>

definition truncateLocked :: "bool \<Rightarrow> wal \<times> bytes \<Rightarrow> os_error option \<times> wal \<times> bytes" where
  "truncateLocked ok s =
     (if wal_off (fst s) = None then (Some ErrOsClosed, s)
      else if \<not> ok then (Some ErrOsTruncate, s)
      else (None, \<lparr>wal_off = Some 0\<rparr>, []))"

definition wal_close :: "wal \<Rightarrow> wal" where
  "wal_close w = w\<lparr>wal_off := None\<rparr>"

section \<open>Replay\<close>

record 's callbacks =
  cb_put :: "bytes \<Rightarrow> bytes \<Rightarrow> bytes \<Rightarrow> int \<Rightarrow> 's \<Rightarrow> 's"
  cb_del :: "bytes \<Rightarrow> bytes \<Rightarrow> 's \<Rightarrow> 's"
  cb_clr :: "bytes \<Rightarrow> 's \<Rightarrow> 's"

definition apply_record :: "'s callbacks \<Rightarrow> u8 \<Rightarrow> SnapshotEntry \<Rightarrow> 's \<Rightarrow> 's" where
  "apply_record cb op e s =
     (if op = walOpPut then cb_put cb (se_Map e) (se_Key e) (se_Value e) (se_ExpireAt e) s
      else if op = walOpRemove then cb_del cb (se_Map e) (se_Key e) s
      else if op = walOpClear then cb_clr cb (se_Map e) s
      else s)"

function replay_loop :: "'s callbacks \<Rightarrow> bytes \<Rightarrow> nat \<Rightarrow> 's \<Rightarrow> nat \<times> 's" where
  "replay_loop cb r valid s =
     (if length r < 5 then (valid, s)
      else let hdr = take 5 r; n = unat (Uint32 (take 4 hdr)); op = hdr ! 4; rest = drop 5 r
           in if n > maxWALRecord then (valid, s)
              else if length rest < n then (valid, s)
              else case SnapshotEntry_UnmarshalVT (take n rest) SnapshotEntry_zero of
                     Inl _ \<Rightarrow> (valid, s)
                   | Inr e \<Rightarrow> replay_loop cb (drop n rest) (valid + (5 + n)) (apply_record cb op e s))"
  by pat_completeness auto
termination
  by (relation "measure (\<lambda>(_, r, _, _). length r)") auto

declare replay_loop.simps [simp del]

definition replayWAL :: "'s callbacks \<Rightarrow> os_file \<Rightarrow> 's \<Rightarrow> os_error + (nat \<times> 's)" where
  "replayWAL cb f s =
     (case f of
        Missing \<Rightarrow> Inr (0, s)
      | Unreadable \<Rightarrow> Inl ErrOsOpen
      | Content b \<Rightarrow> Inr (replay_loop cb b 0 s))"

definition truncateTail :: "nat \<Rightarrow> os_file \<Rightarrow> os_error + os_file" where
  "truncateTail validLen f =
     (case f of
        Missing \<Rightarrow> Inr Missing
      | Unreadable \<Rightarrow> Inl ErrOsOpen
      | Content b \<Rightarrow> if length b \<le> validLen then Inr (Content b) else Inr (Content (take validLen b)))"

section \<open>What a log of records replays to\<close>

type_synonym log = "(u8 \<times> SnapshotEntry) list"

definition frame :: "u8 \<times> SnapshotEntry \<Rightarrow> bytes" where
  "frame r = (case r of (op, e) \<Rightarrow> wal_hdr op (SnapshotEntry_MarshalVT e) @ SnapshotEntry_MarshalVT e)"

definition log_bytes :: "log \<Rightarrow> bytes" where
  "log_bytes rs = concat (map frame rs)"

definition apply_log :: "'s callbacks \<Rightarrow> log \<Rightarrow> 's \<Rightarrow> 's" where
  "apply_log cb rs s = fold (\<lambda>(op, e). apply_record cb op e) rs s"

text \<open>Records that replay accepts: encodable, and not above the cap.\<close>

definition record_ok :: "u8 \<times> SnapshotEntry \<Rightarrow> bool" where
  "record_ok r \<longleftrightarrow> se_unknown (snd r) = [] \<and> int64_range (se_ExpireAt (snd r)) \<and>
     SnapshotEntry_SizeVT (snd r) \<le> maxWALRecord"

lemma log_bytes_simps [simp]:
  "log_bytes [] = []" "log_bytes (r # rs) = frame r @ log_bytes rs" "log_bytes (rs @ rs') = log_bytes rs @ log_bytes rs'"
  by (simp_all add: log_bytes_def)

lemma apply_log_simps [simp]:
  "apply_log cb [] s = s" "apply_log cb ((op, e) # rs) s = apply_log cb rs (apply_record cb op e s)"
  "apply_log cb (rs @ rs') s = apply_log cb rs' (apply_log cb rs s)"
  by (simp_all add: apply_log_def)

lemma length_wal_hdr [simp]: "length (wal_hdr op p) = 5"
  by (simp add: wal_hdr_def)

lemma length_frame: "length (frame r) = 5 + SnapshotEntry_SizeVT (snd r)"
  by (cases r) (simp add: frame_def se_m.length_MarshalVT)

lemma record_ok_size:
  assumes "record_ok r"
  shows "unat (of_nat (length (SnapshotEntry_MarshalVT (snd r))) :: u32) = SnapshotEntry_SizeVT (snd r)"
proof -
  have "SnapshotEntry_SizeVT (snd r) < 2 ^ 32" using assms by (simp add: record_ok_def maxWALRecord_def)
  then show ?thesis by (simp add: se_m.length_MarshalVT unat_of_nat)
qed

lemma record_ok_unmarshal:
  "record_ok r \<Longrightarrow> SnapshotEntry_UnmarshalVT (SnapshotEntry_MarshalVT (snd r)) SnapshotEntry_zero = Inr (snd r)"
  by (rule se_m.roundtrip) (simp add: record_ok_def SnapshotEntry_ok_def maxWALRecord_def)

lemma take_hdr [simp]: "take 5 (wal_hdr op p @ xs) = wal_hdr op p" "drop 5 (wal_hdr op p @ xs) = xs"
  by simp_all

lemma hdr_fields [simp]: "Uint32 (take 4 (wal_hdr op p)) = of_nat (length p)" "wal_hdr op p ! 4 = op"
  by (simp_all add: wal_hdr_def nth_append)

lemma replay_frame:
  assumes "record_ok (op, e)"
  shows "replay_loop cb (frame (op, e) @ r) valid s =
    replay_loop cb r (valid + length (frame (op, e))) (apply_record cb op e s)"
proof -
  have "SnapshotEntry_SizeVT e \<le> maxWALRecord" using assms by (simp add: record_ok_def)
  then show ?thesis
    using record_ok_size [OF assms] record_ok_unmarshal [OF assms]
    by (subst replay_loop.simps)
       (simp add: frame_def Let_def length_frame se_m.length_MarshalVT add.assoc)
qed

lemma replay_log:
  "list_all record_ok rs \<Longrightarrow>
    replay_loop cb (log_bytes rs @ r) valid s = replay_loop cb r (valid + length (log_bytes rs)) (apply_log cb rs s)"
proof (induction rs arbitrary: valid s)
  case (Cons x rs)
  obtain op e where "x = (op, e)" by (cases x)
  with Cons show ?case by (simp add: replay_frame add.assoc)
qed simp

text \<open>A record that was only partly written is not applied, and replay stops in front of it.\<close>

lemma replay_torn:
  assumes "record_ok x" "k < length (frame x)"
  shows "replay_loop cb (take k (frame x)) valid s = (valid, s)"
proof -
  obtain op e where x: "x = (op, e)" by (cases x)
  show ?thesis
  proof (cases "k < 5")
    case True
    then have "length (take k (frame x)) < 5" by simp
    then show ?thesis by (subst replay_loop.simps) (simp only: if_True)
  next
    case False
    then have t: "take k (frame x) = wal_hdr op (SnapshotEntry_MarshalVT e) @ take (k - 5) (SnapshotEntry_MarshalVT e)"
      by (simp add: x frame_def)
    from False assms(2) have "length (take (k - 5) (SnapshotEntry_MarshalVT e)) < SnapshotEntry_SizeVT e"
      by (simp add: x length_frame se_m.length_MarshalVT)
    with record_ok_size [OF assms(1)] show ?thesis
      unfolding t by (subst replay_loop.simps) (simp add: x Let_def)
  qed
qed

lemma replay_loop_Nil [simp]: "replay_loop cb [] valid s = (valid, s)"
  by (subst replay_loop.simps) simp

section \<open>Appending\<close>

text \<open>An open log with a full record at the end, the state every successful append leaves.\<close>

definition at_end :: "wal \<times> bytes \<Rightarrow> bool" where
  "at_end s \<longleftrightarrow> wal_off (fst s) = Some (length (snd s))"

lemma wal_write_end:
  "at_end s \<Longrightarrow> at_end (wal_write bs s) \<and> snd (wal_write bs s) = snd s @ bs"
  by (cases s) (simp add: at_end_def wal_write_def write_at_def)

lemma append_ok:
  assumes "at_end s"
  shows "fst (appendLocked IoOk op e s) = None" "at_end (snd (appendLocked IoOk op e s))"
    "snd (snd (appendLocked IoOk op e s)) = snd s @ frame (op, e)"
proof -
  let ?p = "SnapshotEntry_MarshalVT e"
  let ?s = "wal_write (wal_hdr op ?p) s"
  have 1: "at_end ?s" "snd ?s = snd s @ wal_hdr op ?p" using wal_write_end [OF assms] by blast+
  have 2: "at_end (wal_write ?p ?s)" "snd (wal_write ?p ?s) = snd ?s @ ?p"
    using wal_write_end [OF 1(1)] by blast+
  have "appendLocked IoOk op e s = (None, wal_write ?p ?s)"
    using assms by (simp add: appendLocked_def at_end_def Let_def)
  with 1 2 show "fst (appendLocked IoOk op e s) = None" "at_end (snd (appendLocked IoOk op e s))"
    "snd (snd (appendLocked IoOk op e s)) = snd s @ frame (op, e)"
    by (simp_all add: frame_def)
qed

lemma append_cases:
  assumes "at_end s"
  shows "at_end (snd (appendLocked io op e s)) \<and>
    (\<exists>k. snd (snd (appendLocked io op e s)) = snd s @ take k (frame (op, e)) \<and>
      (fst (appendLocked io op e s) = None \<longrightarrow> k = length (frame (op, e))))"
proof -
  let ?p = "SnapshotEntry_MarshalVT e"
  let ?s = "wal_write (wal_hdr op ?p) s"
  have 1: "at_end ?s" "snd ?s = snd s @ wal_hdr op ?p" using wal_write_end [OF assms] by blast+
  have w: "at_end (wal_write bs ?s)" "snd (wal_write bs ?s) = snd s @ wal_hdr op ?p @ bs" for bs
    using wal_write_end [OF 1(1)] 1(2) by auto
  have o: "wal_off (fst s) \<noteq> None" using assms by (auto simp: at_end_def)
  show ?thesis
  proof (cases io)
    case IoOk
    then show ?thesis using append_ok [OF assms, of op e] by (auto intro: exI [of _ "length (frame (op, e))"])
  next
    case (HdrFails k)
    have t: "take (min k 5) (frame (op, e)) = take k (wal_hdr op ?p)"
      by (simp add: frame_def min_def)
    have "snd (appendLocked io op e s) = wal_write (take k (wal_hdr op ?p)) s" "fst (appendLocked io op e s) \<noteq> None"
      using HdrFails o by (auto simp: appendLocked_def Let_def)
    with wal_write_end [OF assms, of "take k (wal_hdr op ?p)"] show ?thesis
      by (auto simp flip: t)
  next
    case (PayloadFails k)
    have t: "take (5 + k) (frame (op, e)) = wal_hdr op ?p @ take k ?p" by (simp add: frame_def)
    have "snd (appendLocked io op e s) = wal_write (take k ?p) ?s" "fst (appendLocked io op e s) \<noteq> None"
      using PayloadFails o by (auto simp: appendLocked_def Let_def)
    with w [of "take k ?p"] show ?thesis by (auto simp flip: t)
  next
    case SyncFails
    have "snd (appendLocked io op e s) = wal_write ?p ?s" "fst (appendLocked io op e s) \<noteq> None"
      using SyncFails o by (auto simp: appendLocked_def Let_def)
    with w [of ?p] show ?thesis by (auto simp: frame_def intro: exI [of _ "5 + length ?p"])
  qed
qed

text \<open>A run of successful appends.\<close>

fun wal_run :: "log \<Rightarrow> wal \<times> bytes \<Rightarrow> os_error option list \<times> wal \<times> bytes" where
  "wal_run [] s = ([], s)"
| "wal_run ((op, e) # rs) s =
     (let (err, s1) = appendLocked IoOk op e s; (errs, s2) = wal_run rs s1 in (err # errs, s2))"

lemma wal_run_end:
  "at_end s \<Longrightarrow> at_end (snd (wal_run rs s)) \<and> snd (snd (wal_run rs s)) = snd s @ log_bytes rs \<and>
    fst (wal_run rs s) = replicate (length rs) None"
proof (induction rs arbitrary: s)
  case (Cons x rs)
  obtain op e where x: "x = (op, e)" by (cases x)
  from Cons.IH [OF append_ok(2) [OF Cons.prems, of op e]] append_ok [OF Cons.prems, of op e] show ?case
    by (simp add: x case_prod_beta Let_def)
qed simp

lemma truncateTail_valid: "truncateTail (length a) (Content (a @ b)) = Inr (Content a)"
  by (cases b) (simp_all add: truncateTail_def)

lemma openWAL_Missing: "openWAL Missing = Inr (w, f) \<Longrightarrow> at_end (w, file_bytes f) \<and> file_bytes f = []"
  by (auto simp: openWAL_def file_bytes_def at_end_def)

text \<open>
  Recovery from the log after a crash during an append. Whatever the records appended so far and
  wherever the operating system stopped the last append, replay applies all earlier records in order
  and the last one completely or not at all, and it applies it if its append was acknowledged. The
  length it returns is where \<open>truncateTail\<close> cuts the file, so that what remains is a log of exactly
  the records that were applied.
\<close>

theorem wal_crash_atomic:
  assumes "list_all record_ok rs" "record_ok (op, e)" "openWAL Missing = Inr (w, f)"
    "appendLocked io op e (snd (wal_run rs (w, file_bytes f))) = (err, w', b)"
  shows "\<exists>rs'. (rs' = rs \<or> rs' = rs @ [(op, e)]) \<and> (err = None \<longrightarrow> rs' = rs @ [(op, e)]) \<and>
    replayWAL cb (Content b) s = Inr (length (log_bytes rs'), apply_log cb rs' s) \<and>
    truncateTail (length (log_bytes rs')) (Content b) = Inr (Content (log_bytes rs'))"
proof -
  have r: "at_end (snd (wal_run rs (w, file_bytes f)))" "snd (snd (wal_run rs (w, file_bytes f))) = log_bytes rs"
    using wal_run_end [of "(w, file_bytes f)" rs] openWAL_Missing [OF assms(3)] by auto
  from append_cases [OF r(1), of io op e] assms(4) r(2) obtain k where
    b: "b = log_bytes rs @ take k (frame (op, e))" and n: "err = None \<Longrightarrow> k = length (frame (op, e))" by auto
  show ?thesis
  proof (cases "k < length (frame (op, e))")
    case True
    then have "err \<noteq> None" using n by auto
    moreover have "replayWAL cb (Content b) s = Inr (length (log_bytes rs), apply_log cb rs s)"
      by (simp add: replayWAL_def b replay_log [OF assms(1)] replay_torn [OF assms(2) True])
    ultimately show ?thesis by (intro exI [of _ rs]) (simp add: b truncateTail_valid)
  next
    case False
    then have b': "b = log_bytes (rs @ [(op, e)])" by (simp add: b)
    have "replayWAL cb (Content b) s = Inr (length b, apply_log cb (rs @ [(op, e)]) s)"
      using assms(1,2) replay_log [of "rs @ [(op, e)]" cb "[]" 0 s] by (simp add: replayWAL_def b')
    then show ?thesis using truncateTail_valid [of b "[]"] by (intro exI [of _ "rs @ [(op, e)]"]) (simp add: b')
  qed
qed

definition demo_callbacks :: "(bytes \<times> bytes) list callbacks" where
  "demo_callbacks = \<lparr>cb_put = \<lambda>n k v e s. s @ [(n, k)], cb_del = \<lambda>n k s. removeAll (n, k) s, cb_clr = \<lambda>n s. filter (\<lambda>x. fst x \<noteq> n) s\<rparr>"

lemma demo_size [simp]: "SnapshotEntry_SizeVT (put_record [1] [2] [3] 0) = 9"
  by code_simp

lemma record_ok_demo [simp]: "record_ok (op, put_record [1] [2] [3] 0)"
  by (simp add: record_ok_def maxWALRecord_def int64_range_def) (simp add: put_record_def SnapshotEntry_zero_def)

theorem wal_crash_atomic_witness:
  "\<exists>rs'. (rs' = [] \<or> rs' = [(walOpPut, put_record [1] [2] [3] 0)]) \<and>
    replayWAL demo_callbacks (Content (snd (snd (appendLocked (PayloadFails 2) walOpPut (put_record [1] [2] [3] 0)
      (\<lparr>wal_off = Some 0\<rparr>, []))))) [] = Inr (length (log_bytes rs'), apply_log demo_callbacks rs' [])"
proof -
  obtain err w' b where a: "appendLocked (PayloadFails 2) walOpPut (put_record [1] [2] [3] 0)
      (\<lparr>wal_off = Some 0\<rparr>, []) = (err, w', b)" by (metis prod_cases3)
  have "openWAL Missing = Inr (\<lparr>wal_off = Some 0\<rparr>, Content [])" by (simp add: openWAL_def)
  from wal_crash_atomic [where rs = "[]" and cb = demo_callbacks and s = "[]", OF _ record_ok_demo this] a
  show ?thesis by (fastforce simp: file_bytes_def)
qed

section \<open>A failed append is not rolled back\<close>

lemma PutUint32_small:
  assumes "n < 2 ^ 24"
  shows "\<exists>xs. PutUint32 (of_nat n) = 0 # xs"
proof -
  have u: "unat (of_nat n :: u32) = n" using assms by (simp add: unat_of_nat)
  from assms have d: "n div 256 div 256 div 256 = 0" by (simp flip: div_mult2_eq)
  have "(4 :: nat) = Suc (Suc (Suc (Suc 0)))" by simp
  then have "be_put 4 n = of_nat (n div 256 div 256 div 256 mod 256) #
      [of_nat (n div 256 div 256 mod 256), of_nat (n div 256 mod 256), of_nat (n mod 256)]"
    by (simp only: be_put.simps append.simps)
  then show ?thesis by (simp add: PutUint32_def u d)
qed

lemma unmarshal_zero_tag: "SnapshotEntry_UnmarshalVT (0 # bs) m = Inl ErrIllegalTag"
proof -
  have "varint_loop 0 0 (0 # bs) = Inr (0, bs)" using varint_tag [of 0 bs] by simp
  then show ?thesis
    by (subst SnapshotEntry_UnmarshalVT_def, subst unmarshal_def, subst decode_loop.simps) (simp add: Let_def)
qed

lemma replay_misaligned:
  assumes "record_ok x" "0 < SnapshotEntry_SizeVT (snd x)" "SnapshotEntry_SizeVT (snd y) < 2 ^ 24"
  shows "replay_loop cb (wal_hdr (fst x) (SnapshotEntry_MarshalVT (snd x)) @ frame y @ r) valid s = (valid, s)"
proof -
  let ?n = "SnapshotEntry_SizeVT (snd x)" and ?rest = "frame y @ r"
  obtain xs where xs: "frame y = 0 # xs"
    using PutUint32_small [OF assms(3)] by (cases y) (auto simp: frame_def wal_hdr_def se_m.length_MarshalVT)
  have "SnapshotEntry_UnmarshalVT (take ?n ?rest) SnapshotEntry_zero = Inl ErrIllegalTag"
    using assms(2) by (cases ?n) (simp_all add: xs unmarshal_zero_tag)
  with record_ok_size [OF assms(1)] show ?thesis
    by (subst replay_loop.simps) (simp add: Let_def)
qed

text \<open>
  C22: A failed append loses later acknowledged writes. When the header of a record was written and
  the write of its payload failed (a full disk), the header stays in the file and the log stays open.
  All following appends succeed and are acknowledged, but the next recovery applies none of them: it
  stops at the remnant, and \<open>truncateTail\<close> deletes the acknowledged records behind it.
\<close>

theorem wal_failed_append_loses_later:
  assumes "list_all record_ok rs" "record_ok (op, e)" "0 < SnapshotEntry_SizeVT e" "ys \<noteq> []"
    "SnapshotEntry_SizeVT (snd (hd ys)) < 2 ^ 24" "openWAL Missing = Inr (w, f)"
    "appendLocked (PayloadFails 0) op e (snd (wal_run rs (w, file_bytes f))) = (err, s1)"
    "wal_run ys s1 = (errs, w', b)"
  shows "errs = replicate (length ys) None \<and>
    replayWAL cb (Content b) s = Inr (length (log_bytes rs), apply_log cb rs s) \<and>
    truncateTail (length (log_bytes rs)) (Content b) = Inr (Content (log_bytes rs))"
proof -
  let ?h = "wal_hdr op (SnapshotEntry_MarshalVT e)"
  have r: "at_end (snd (wal_run rs (w, file_bytes f)))" "snd (snd (wal_run rs (w, file_bytes f))) = log_bytes rs"
    using wal_run_end [of "(w, file_bytes f)" rs] openWAL_Missing [OF assms(6)] by auto
  have "s1 = wal_write [] (wal_write ?h (snd (wal_run rs (w, file_bytes f))))"
    using assms(7) r(1) by (auto simp: appendLocked_def at_end_def Let_def)
  with wal_write_end [of _ "[]"] wal_write_end [OF r(1), of ?h] r(2)
  have s1: "at_end s1" "snd s1 = log_bytes rs @ ?h" by auto
  have e: "errs = replicate (length ys) None" and b: "b = log_bytes rs @ ?h @ log_bytes ys"
    using wal_run_end [OF s1(1), of ys] assms(8) s1(2) by simp_all
  obtain y ys' where ys: "ys = y # ys'" using assms(4) by (cases ys) auto
  have "replay_loop cb (?h @ frame y @ log_bytes ys') v t = (v, t)" for v t
    using replay_misaligned [OF assms(2), of y cb "log_bytes ys'" v t] assms(3,5) by (simp add: ys)
  then have "replayWAL cb (Content b) s = Inr (length (log_bytes rs), apply_log cb rs s)"
    by (simp add: replayWAL_def b ys replay_log [OF assms(1)])
  with e show ?thesis by (simp add: b truncateTail_valid)
qed

theorem wal_failed_append_loses_later_witness:
  "fst (wal_run [(walOpPut, put_record [1] [2] [3] 0)]
      (snd (appendLocked (PayloadFails 0) walOpPut (put_record [1] [2] [3] 0) (\<lparr>wal_off = Some 0\<rparr>, [])))) = [None] \<and>
   replayWAL demo_callbacks (Content (snd (snd (wal_run [(walOpPut, put_record [1] [2] [3] 0)]
      (snd (appendLocked (PayloadFails 0) walOpPut (put_record [1] [2] [3] 0) (\<lparr>wal_off = Some 0\<rparr>, []))))))) [] = Inr (0, [])"
proof -
  let ?e = "put_record [1] [2] [3] 0"
  obtain err s1 where a: "appendLocked (PayloadFails 0) walOpPut ?e (\<lparr>wal_off = Some 0\<rparr>, []) = (err, s1)"
    by (metis prod.exhaust)
  obtain errs w' b where c: "wal_run [(walOpPut, ?e)] s1 = (errs, w', b)" by (metis prod_cases3)
  have o: "openWAL Missing = Inr (\<lparr>wal_off = Some 0\<rparr>, Content [])" by (simp add: openWAL_def)
  show ?thesis
    using wal_failed_append_loses_later [of "[]" walOpPut ?e "[(walOpPut, ?e)]" _ _ err s1 errs w' b demo_callbacks "[]", OF _ _ _ _ _ o]
      a c by (simp add: file_bytes_def)
qed

end
