(* ===== verification/Store.thy ===== *)
theory Store
  imports Partition
begin

text \<open>
  The local store of a node (\<open>imap/store.go\<close>) and the key layout of the reserved queue namespaces
  (\<open>imap/queue.go\<close>: \<open>IsReservedMap\<close>, \<open>routedPartition\<close>, \<open>queueSegKey\<close>), which decides the
  partition an entry lives in.

  A shard is the two-level Go map of one partition, a store the array of shards, indexed by
  partition. Every operation takes the clock reading \<open>now\<close> it makes (unix nanoseconds) as an
  argument; it returns its Go results together with the new store. An operation holds the shard
  lock for its whole body, so it is one atomic step of the model.
\<close>

section \<open>Entries, shards and the store\<close>

record value_t =
  v_data :: bytes
  v_expireAt :: int

definition expired :: "value_t \<Rightarrow> int \<Rightarrow> bool" where
  "expired v now \<longleftrightarrow> v_expireAt v \<noteq> 0 \<and> now > v_expireAt v"

type_synonym inner = "(bytes, value_t) gomap"
type_synonym shard = "(bytes, inner) gomap"
type_synonym store = "nat \<Rightarrow> shard"

record entry =
  e_mapName :: bytes
  e_key :: bytes
  e_value :: bytes
  e_expireAt :: int

definition entry_of :: "bytes \<Rightarrow> bytes \<Rightarrow> value_t \<Rightarrow> entry" where
  "entry_of name k v = \<lparr>e_mapName = name, e_key = k, e_value = v_data v, e_expireAt = v_expireAt v\<rparr>"

definition newStore :: store where
  "newStore = (\<lambda>_. [])"

text \<open>\<open>inner := sh.m[name]\<close>, where a missing bucket is the nil map and reads as empty.\<close>

definition bucket :: "shard \<Rightarrow> bytes \<Rightarrow> inner" where
  "bucket sh name = (case map_of sh name of None \<Rightarrow> [] | Some inner \<Rightarrow> inner)"

definition shard_lookup :: "shard \<Rightarrow> bytes \<Rightarrow> bytes \<Rightarrow> value_t option" where
  "shard_lookup sh name key = map_of (bucket sh name) key"

definition live :: "int \<Rightarrow> value_t option \<Rightarrow> value_t option" where
  "live now v = (case v of None \<Rightarrow> None | Some v \<Rightarrow> if expired v now then None else Some v)"

section \<open>Key layout: reserved namespaces and routing\<close>

definition queueMap :: bytes where
  "queueMap = str ''__queue''"

definition queueSegMap :: bytes where
  "queueSegMap = str ''__queueseg''"

definition IsReservedMap :: "bytes \<Rightarrow> bool" where
  "IsReservedMap name \<longleftrightarrow> name = queueMap \<or> name = queueSegMap"

definition routedPartition :: "bytes \<Rightarrow> bytes \<Rightarrow> nat" where
  "routedPartition name key =
     (if name = queueSegMap \<and> length key \<ge> 8 then For (drop 8 key) else For key)"

definition queueSegKey :: "u64 \<Rightarrow> bytes \<Rightarrow> bytes" where
  "queueSegKey segId name = PutUint64 segId @ name"

section \<open>Reads and single-key writes\<close>

definition store_get :: "int \<Rightarrow> store \<Rightarrow> nat \<Rightarrow> bytes \<Rightarrow> bytes \<Rightarrow> bytes option" where
  "store_get now s p name key =
     (case map_of (s p) name of
        None \<Rightarrow> None
      | Some inner \<Rightarrow>
          (case map_of inner key of
             None \<Rightarrow> None
           | Some v \<Rightarrow> if expired v now then None else Some (v_data v)))"

definition store_lookup :: "int \<Rightarrow> store \<Rightarrow> nat \<Rightarrow> bytes \<Rightarrow> bytes \<Rightarrow> (bytes \<times> int) option" where
  "store_lookup now s p name key =
     (case map_of (s p) name of
        None \<Rightarrow> None
      | Some inner \<Rightarrow>
          (case map_of inner key of
             None \<Rightarrow> None
           | Some v \<Rightarrow> if expired v now then None else Some (v_data v, v_expireAt v)))"

definition store_put :: "int \<Rightarrow> nat \<Rightarrow> bytes \<Rightarrow> bytes \<Rightarrow> bytes \<Rightarrow> int \<Rightarrow> store \<Rightarrow> bool \<times> store" where
  "store_put now p name key data expireAt s =
     (let sh = s p;
          inner = bucket sh name;
          created = (case map_of inner key of None \<Rightarrow> True | Some old \<Rightarrow> expired old now);
          inner' = AList.update key \<lparr>v_data = data, v_expireAt = expireAt\<rparr> inner
      in (created, s(p := AList.update name inner' sh)))"

definition cacheLoaded :: "int \<Rightarrow> nat \<Rightarrow> bytes \<Rightarrow> bytes \<Rightarrow> bytes \<Rightarrow> store \<Rightarrow> bytes \<times> store" where
  "cacheLoaded now p name key data s =
     (let sh = s p;
          inner = bucket sh name;
          fresh = AList.update key \<lparr>v_data = data, v_expireAt = 0\<rparr> inner
      in case map_of inner key of
           None \<Rightarrow> (data, s(p := AList.update name fresh sh))
         | Some v \<Rightarrow>
             if \<not> expired v now then (v_data v, s)
             else (data, s(p := AList.update name fresh sh)))"

definition store_remove :: "int \<Rightarrow> nat \<Rightarrow> bytes \<Rightarrow> bytes \<Rightarrow> store \<Rightarrow> bool \<times> store" where
  "store_remove now p name key s =
     (let sh = s p in
      case map_of sh name of
        None \<Rightarrow> (False, s)
      | Some inner \<Rightarrow>
          (case map_of inner key of
             None \<Rightarrow> (False, s)
           | Some v \<Rightarrow> (\<not> expired v now, s(p := AList.update name (AList.delete key inner) sh))))"

datatype Action = Keep | Set | Delete

text \<open>
  \<open>update\<close> runs a closure under the shard lock. The closure's results that the caller captures in
  outer variables are the component \<open>'r\<close> of its result.
\<close>

definition store_update ::
  "int \<Rightarrow> nat \<Rightarrow> bytes \<Rightarrow> bytes \<Rightarrow> (bytes \<Rightarrow> bool \<Rightarrow> bytes \<times> Action \<times> 'r) \<Rightarrow> store
    \<Rightarrow> (Action \<times> int \<times> 'r) \<times> store" where
  "store_update now p name key fn s =
     (let sh = s p;
          inner = bucket sh name;
          old = map_of inner key;
          is_live = (case old of None \<Rightarrow> False | Some v \<Rightarrow> \<not> expired v now);
          cur = (case old of Some v \<Rightarrow> if is_live then v_data v else [] | None \<Rightarrow> []);
          (newVal, action, r) = fn cur is_live
      in case action of
           Set \<Rightarrow>
             (let expireAt = (case old of Some v \<Rightarrow> if is_live then v_expireAt v else 0 | None \<Rightarrow> 0);
                  inner' = AList.update key \<lparr>v_data = newVal, v_expireAt = expireAt\<rparr> inner
              in ((Set, expireAt, r), s(p := AList.update name inner' sh)))
         | Delete \<Rightarrow> ((Delete, 0, r), s(p := AList.update name (AList.delete key inner) sh))
         | Keep \<Rightarrow> ((Keep, 0, r), s(p := AList.update name inner sh)))"

section \<open>Multi-key transactions\<close>

record mutation =
  m_mapName :: bytes
  m_key :: bytes
  m_value :: bytes
  m_del :: bool

text \<open>The state an \<open>updateMulti\<close> critical section works on: the locked shard and the mutations so far.\<close>

type_synonym txn = "shard \<times> mutation list"

definition tx_get :: "int \<Rightarrow> bytes \<Rightarrow> bytes \<Rightarrow> txn \<Rightarrow> bytes option" where
  "tx_get now name key tx =
     (case map_of (fst tx) name of
        None \<Rightarrow> None
      | Some inner \<Rightarrow>
          (case map_of inner key of
             None \<Rightarrow> None
           | Some v \<Rightarrow> if expired v now then None else Some (v_data v)))"

definition tx_set :: "bytes \<Rightarrow> bytes \<Rightarrow> bytes \<Rightarrow> txn \<Rightarrow> txn" where
  "tx_set name key val tx =
     (case tx of (sh, muts) \<Rightarrow>
       (AList.update name (AList.update key \<lparr>v_data = val, v_expireAt = 0\<rparr> (bucket sh name)) sh,
        muts @ [\<lparr>m_mapName = name, m_key = key, m_value = val, m_del = False\<rparr>]))"

definition tx_del :: "bytes \<Rightarrow> bytes \<Rightarrow> txn \<Rightarrow> txn" where
  "tx_del name key tx =
     (case tx of (sh, muts) \<Rightarrow>
       ((case map_of sh name of
           None \<Rightarrow> sh
         | Some inner \<Rightarrow>
             (let inner' = AList.delete key inner
              in if inner' = [] then AList.delete name sh else AList.update name inner' sh)),
        muts @ [\<lparr>m_mapName = name, m_key = key, m_value = [], m_del = True\<rparr>]))"

definition updateMulti :: "nat \<Rightarrow> (txn \<Rightarrow> 'r \<times> txn) \<Rightarrow> store \<Rightarrow> 'r \<times> mutation list \<times> store" where
  "updateMulti p fn s = (case fn (s p, []) of (r, sh, muts) \<Rightarrow> (r, muts, s(p := sh)))"

section \<open>Whole-partition and whole-store operations\<close>

definition snapshotPartition :: "int \<Rightarrow> store \<Rightarrow> nat \<Rightarrow> entry list" where
  "snapshotPartition now s p =
     concat (map (\<lambda>(name, inner).
       map (\<lambda>(k, v). entry_of name k v)
         (filter (\<lambda>(k, v). \<not> expired v now) inner)) (s p))"

definition fnvOffset64 :: u64 where
  "fnvOffset64 = 14695981039346656037"

definition fnvPrime64 :: u64 where
  "fnvPrime64 = 1099511628211"

definition fnv1a :: "u64 \<Rightarrow> bytes \<Rightarrow> u64" where
  "fnv1a h b = foldl (\<lambda>h c. (h XOR ucast c) * fnvPrime64) h b"

definition entryHash :: "bytes \<Rightarrow> bytes \<Rightarrow> bytes \<Rightarrow> u64" where
  "entryHash name k data =
     (let h = fnvOffset64;
          h = fnv1a h (PutUint32 (of_nat (length name)));
          h = fnv1a h name;
          h = fnv1a h (PutUint32 (of_nat (length k)));
          h = fnv1a h k
      in fnv1a h data)"

definition partitionDigest :: "int \<Rightarrow> store \<Rightarrow> nat \<Rightarrow> u64" where
  "partitionDigest now s p =
     foldl (\<lambda>digest (name, inner).
       foldl (\<lambda>digest (k, v).
         if expired v now then digest else digest XOR entryHash name k (v_data v)) digest inner) 0 (s p)"

definition snapshotAll :: "int \<Rightarrow> store \<Rightarrow> entry list" where
  "snapshotAll now s = concat (map (snapshotPartition now s) [0..<Count])"

fun dropMigrated_loop :: "entry list \<Rightarrow> shard \<Rightarrow> entry list \<times> shard" where
  "dropMigrated_loop [] sh = ([], sh)"
| "dropMigrated_loop (e # es) sh =
     (case map_of sh (e_mapName e) of
        None \<Rightarrow> dropMigrated_loop es sh
      | Some inner \<Rightarrow>
          (case map_of inner (e_key e) of
             None \<Rightarrow> dropMigrated_loop es sh
           | Some cur \<Rightarrow>
               if v_expireAt cur = e_expireAt e \<and> v_data cur = e_value e
               then (case dropMigrated_loop es (AList.update (e_mapName e) (AList.delete (e_key e) inner) sh)
                     of (dropped, sh') \<Rightarrow> (e # dropped, sh'))
               else dropMigrated_loop es sh))"

definition dropMigrated :: "nat \<Rightarrow> entry list \<Rightarrow> store \<Rightarrow> entry list \<times> store" where
  "dropMigrated p entries s =
     (case dropMigrated_loop entries (s p) of (dropped, sh) \<Rightarrow> (dropped, s(p := drop_empty sh)))"

type_synonym keyset = "(bytes, (bytes, unit) gomap) gomap"

definition kept :: "keyset \<Rightarrow> bytes \<Rightarrow> bytes \<Rightarrow> bool" where
  "kept keep name k =
     (case map_of keep name of None \<Rightarrow> False | Some keepKeys \<Rightarrow> map_of keepKeys k \<noteq> None)"

definition pruneToKeyset :: "nat \<Rightarrow> keyset \<Rightarrow> store \<Rightarrow> entry list \<times> store" where
  "pruneToKeyset p keep s =
     (concat (map (\<lambda>(name, inner).
        map (\<lambda>(k, v). entry_of name k v)
          (filter (\<lambda>(k, v). \<not> kept keep name k) inner)) (s p)),
      s(p := drop_empty (map (\<lambda>(name, inner). (name, filter (\<lambda>(k, v). kept keep name k) inner)) (s p))))"

definition sweep_shard :: "int \<Rightarrow> shard \<Rightarrow> shard" where
  "sweep_shard now sh =
     drop_empty (map (\<lambda>(name, inner). (name, filter (\<lambda>(k, v). \<not> expired v now) inner)) sh)"

definition sweepExpired :: "int \<Rightarrow> store \<Rightarrow> nat \<times> store" where
  "sweepExpired now s =
     (sum_list (map (\<lambda>p. sum_list (map (\<lambda>(name, inner).
        length (filter (\<lambda>(k, v). expired v now) inner)) (s p))) [0..<Count]),
      \<lambda>p. if p < Count then sweep_shard now (s p) else s p)"

definition entryCount :: "int \<Rightarrow> store \<Rightarrow> nat" where
  "entryCount now s =
     sum_list (map (\<lambda>p. sum_list (map (\<lambda>(name, inner).
       length (filter (\<lambda>(k, v). \<not> expired v now) inner)) (s p))) [0..<Count])"

definition countMap :: "int \<Rightarrow> bytes \<Rightarrow> (nat \<Rightarrow> bool) \<Rightarrow> store \<Rightarrow> nat" where
  "countMap now name owned s =
     sum_list (map (\<lambda>p. length (filter (\<lambda>(k, v). \<not> expired v now) (bucket (s p) name)))
       (filter owned [0..<Count]))"

definition collectOwnedValues :: "int \<Rightarrow> bytes \<Rightarrow> (nat \<Rightarrow> bool) \<Rightarrow> store \<Rightarrow> bytes list" where
  "collectOwnedValues now name owned s =
     concat (map (\<lambda>p. map (\<lambda>(k, v). v_data v)
       (filter (\<lambda>(k, v). \<not> expired v now) (bucket (s p) name))) (filter owned [0..<Count]))"

definition countOwned :: "int \<Rightarrow> (nat \<Rightarrow> bool) \<Rightarrow> store \<Rightarrow> nat" where
  "countOwned now owned s =
     sum_list (map (\<lambda>p. sum_list (map (\<lambda>(name, inner).
       if IsReservedMap name then 0 else length (filter (\<lambda>(k, v). \<not> expired v now) inner)) (s p)))
       (filter owned [0..<Count]))"

definition sampleOwned :: "int \<Rightarrow> (nat \<Rightarrow> bool) \<Rightarrow> int \<Rightarrow> store \<Rightarrow> entry list" where
  "sampleOwned now owned limit s =
     (if limit \<le> 0 then []
      else take (nat limit) (concat (map (\<lambda>p. concat (map (\<lambda>(name, inner).
        if IsReservedMap name then []
        else map (\<lambda>(k, v). \<lparr>e_mapName = name, e_key = k, e_value = [], e_expireAt = 0\<rparr>)
          (filter (\<lambda>(k, v). \<not> expired v now) inner)) (s p))) (filter owned [0..<Count]))))"

definition clearMap :: "bytes \<Rightarrow> store \<Rightarrow> entry list \<times> store" where
  "clearMap name s =
     (concat (map (\<lambda>p.
        map (\<lambda>(k, v). entry_of name k v)
          (bucket (s p) name)) [0..<Count]),
      \<lambda>p. if p < Count \<and> bucket (s p) name \<noteq> [] then AList.delete name (s p) else s p)"

section \<open>Lookup laws\<close>

lemma entry_of_sel [simp]:
  "e_mapName (entry_of n k v) = n" "e_key (entry_of n k v) = k"
  "e_value (entry_of n k v) = v_data v" "e_expireAt (entry_of n k v) = v_expireAt v"
  by (simp_all add: entry_of_def)

lemma entry_of_eq_iff:
  "e = entry_of n k v \<longleftrightarrow>
    e_mapName e = n \<and> e_key e = k \<and> v = \<lparr>v_data = e_value e, v_expireAt = e_expireAt e\<rparr>"
  by (cases e; cases v) (auto simp: entry_of_def)

named_theorems lookup_laws \<open>what every store operation does to \<open>shard_lookup\<close>\<close>

lemma shard_lookup_Nil [simp]: "shard_lookup [] n k = None"
  by (simp add: shard_lookup_def bucket_def)

lemma map_of_bucket [simp]: "map_of (bucket sh n) k = shard_lookup sh n k"
  by (simp add: shard_lookup_def)

lemma shard_lookup_update [simp, lookup_laws]:
  "shard_lookup (AList.update name inner sh) n k =
    (if n = name then map_of inner k else shard_lookup sh n k)"
  by (simp add: shard_lookup_def bucket_def update_conv')

lemma shard_lookup_delete [simp, lookup_laws]:
  "shard_lookup (AList.delete name sh) n k = (if n = name then None else shard_lookup sh n k)"
  by (simp add: shard_lookup_def bucket_def delete_conv')

lemma bucket_of: "map_of sh name = Some inner \<Longrightarrow> bucket sh name = inner"
  by (simp add: bucket_def)

lemma shard_lookup_of: "map_of sh name = Some inner \<Longrightarrow> map_of inner k = shard_lookup sh name k"
  by (simp add: shard_lookup_def bucket_def)

lemma shard_lookup_missing: "map_of sh name = None \<Longrightarrow> shard_lookup sh name k = None"
  by (simp add: shard_lookup_def bucket_def)

lemma store_get_live: "store_get now s p n k = map_option v_data (live now (shard_lookup (s p) n k))"
  by (auto simp: store_get_def live_def shard_lookup_def bucket_def split: option.splits)

lemma store_lookup_live:
  "store_lookup now s p n k =
    map_option (\<lambda>v. (v_data v, v_expireAt v)) (live now (shard_lookup (s p) n k))"
  by (auto simp: store_lookup_def live_def shard_lookup_def bucket_def split: option.splits)

lemma tx_get_live: "tx_get now n k (sh, muts) = map_option v_data (live now (shard_lookup sh n k))"
  by (auto simp: tx_get_def live_def shard_lookup_def bucket_def split: option.splits)

lemma store_put_lookup [lookup_laws]:
  "shard_lookup (snd (store_put now p name key data e s) q) n k =
    (if q = p \<and> n = name \<and> k = key then Some \<lparr>v_data = data, v_expireAt = e\<rparr>
     else shard_lookup (s q) n k)"
  by (simp add: store_put_def Let_def update_conv')

lemma store_put_created:
  "fst (store_put now p name key data e s) \<longleftrightarrow> live now (shard_lookup (s p) name key) = None"
  by (simp add: store_put_def Let_def live_def split: option.splits)

lemma store_remove_lookup [lookup_laws]:
  "shard_lookup (snd (store_remove now p name key s) q) n k =
    (if q = p \<and> n = name \<and> k = key then None else shard_lookup (s q) n k)"
  by (auto simp: store_remove_def Let_def delete_conv' shard_lookup_of shard_lookup_missing
      split: option.splits)

lemma store_remove_existed:
  "fst (store_remove now p name key s) \<longleftrightarrow> live now (shard_lookup (s p) name key) \<noteq> None"
  by (auto simp: store_remove_def Let_def live_def shard_lookup_of shard_lookup_missing
      split: option.splits)

lemma cacheLoaded_lookup [lookup_laws]:
  "shard_lookup (snd (cacheLoaded now p name key data s) q) n k =
    (if q = p \<and> n = name \<and> k = key \<and> live now (shard_lookup (s p) name key) = None
     then Some \<lparr>v_data = data, v_expireAt = 0\<rparr> else shard_lookup (s q) n k)"
  by (auto simp: cacheLoaded_def Let_def live_def update_conv' split: option.splits)

lemma tx_set_lookup [lookup_laws]:
  "shard_lookup (fst (tx_set name key val tx)) n k =
    (if n = name \<and> k = key then Some \<lparr>v_data = val, v_expireAt = 0\<rparr> else shard_lookup (fst tx) n k)"
  by (auto simp: tx_set_def update_conv' split: prod.splits)

lemma tx_del_lookup [lookup_laws]:
  "shard_lookup (fst (tx_del name key tx)) n k =
    (if n = name \<and> k = key then None else shard_lookup (fst tx) n k)"
proof (cases tx)
  case (Pair sh muts)
  have "shard_lookup sh name k' = None" if "AList.delete key inner = []" "map_of sh name = Some inner" "k' \<noteq> key"
    for inner k'
  proof -
    from that(1) have "map_of (AList.delete key inner) k' = None" by simp
    then have "map_of inner k' = None" using that(3) by (simp add: delete_conv' del: map_of_eq_None_iff)
    with that(2) show ?thesis by (simp add: shard_lookup_of)
  qed
  with Pair show ?thesis
    by (auto simp: tx_del_def Let_def delete_conv' shard_lookup_of shard_lookup_missing
        split: option.splits)
qed

text \<open>\<open>update\<close>: the closure sees the live value, and its action is what happens to the entry.\<close>

definition live_view :: "int \<Rightarrow> store \<Rightarrow> nat \<Rightarrow> bytes \<Rightarrow> bytes \<Rightarrow> bytes \<times> bool \<times> int" where
  "live_view now s p name key =
     (case live now (shard_lookup (s p) name key) of
        None \<Rightarrow> ([], False, 0) | Some v \<Rightarrow> (v_data v, True, v_expireAt v))"

lemma store_update_result:
  assumes "live_view now s p name key = (cur, ex, e)" "fn cur ex = (nv, a, r)"
  shows "fst (store_update now p name key fn s) = (a, if a = Set then e else 0, r)"
  using assms
  by (auto simp: store_update_def live_view_def live_def Let_def split: option.splits Action.splits if_splits)

lemma store_update_lookup:
  assumes "live_view now s p name key = (cur, ex, e)" "fn cur ex = (nv, a, r)"
  shows "shard_lookup (snd (store_update now p name key fn s) q) n k =
    (if q = p \<and> n = name \<and> k = key
     then (case a of Set \<Rightarrow> Some \<lparr>v_data = nv, v_expireAt = e\<rparr> | Delete \<Rightarrow> None
           | Keep \<Rightarrow> shard_lookup (s p) name key)
     else shard_lookup (s q) n k)"
  using assms
  by (auto simp: store_update_def live_view_def live_def Let_def update_conv' delete_conv'
      split: option.splits Action.splits if_splits)

section \<open>Well-formed stores\<close>

definition wf_shard :: "shard \<Rightarrow> bool" where
  "wf_shard sh \<longleftrightarrow> wf_map sh \<and> (\<forall>(name, inner) \<in> set sh. wf_map inner)"

definition wf_store :: "store \<Rightarrow> bool" where
  "wf_store s \<longleftrightarrow> (\<forall>p. wf_shard (s p))"

text \<open>Every stored entry is in the partition \<open>routedPartition\<close> assigns to it.\<close>

definition placed :: "store \<Rightarrow> bool" where
  "placed s \<longleftrightarrow> (\<forall>p n k. shard_lookup (s p) n k \<noteq> None \<longrightarrow> routedPartition n k = p)"

lemma wf_shard_Nil [simp, intro]: "wf_shard []"
  by (simp add: wf_shard_def)

lemma set_update_subset: "set (AList.update k v m) \<subseteq> insert (k, v) (set m)"
  by (induction m) auto

lemma wf_shard_update [simp, intro]: "wf_shard sh \<Longrightarrow> wf_map inner \<Longrightarrow> wf_shard (AList.update n inner sh)"
  using set_update_subset [of n inner sh] by (auto simp: wf_shard_def)

lemma wf_shard_delete [simp, intro]: "wf_shard sh \<Longrightarrow> wf_shard (AList.delete n sh)"
  by (auto simp: wf_shard_def AList.delete_eq)

lemma wf_shard_map: "wf_shard sh \<Longrightarrow> map_of sh n = Some inner \<Longrightarrow> wf_map inner"
  by (auto simp: wf_shard_def dest: map_of_SomeD)

lemma wf_shard_bucket [simp, intro]: "wf_shard sh \<Longrightarrow> wf_map (bucket sh n)"
  by (auto simp: bucket_def wf_shard_map split: option.split)

lemma wf_shard_drop_empty [simp, intro]: "wf_shard sh \<Longrightarrow> wf_shard (drop_empty sh)"
  by (auto simp: wf_shard_def drop_empty_def)

lemma wf_shard_filter_inner:
  "wf_shard sh \<Longrightarrow> wf_shard (map (\<lambda>(n, inner). (n, filter (P n) inner)) sh)"
  by (auto simp: wf_shard_def wf_map_def comp_def case_prod_beta distinct_map_filter)

lemma wf_map_mem_lookup:
  assumes "wf_shard sh"
  shows "(\<exists>inner. (n, inner) \<in> set sh \<and> (k, v) \<in> set inner) \<longleftrightarrow> shard_lookup sh n k = Some v"
proof -
  from assms have w: "wf_map sh" and wi: "\<And>n inner. (n, inner) \<in> set sh \<Longrightarrow> wf_map inner"
    by (auto simp: wf_shard_def)
  have "(n, inner) \<in> set sh \<longleftrightarrow> map_of sh n = Some inner" for inner
    using w by (simp add: map_of_mem)
  moreover have "map_of inner k = Some v \<longleftrightarrow> (k, v) \<in> set inner" if "map_of sh n = Some inner" for inner
    using wi [of n inner] that by (simp add: map_of_mem map_of_SomeD)
  ultimately show ?thesis
    by (auto simp: shard_lookup_def bucket_def split: option.splits)
qed

lemma drop_empty_lookup:
  assumes "wf_shard sh"
  shows "shard_lookup (drop_empty sh) n k = shard_lookup sh n k"
  using assms
  by (auto simp: drop_empty_def shard_lookup_def bucket_def map_of_filter wf_shard_def split: option.splits)

lemma filter_inner_lookup:
  assumes "wf_shard sh"
  shows "shard_lookup (map (\<lambda>(n, inner). (n, filter (P n) inner)) sh) n k =
    (case shard_lookup sh n k of None \<Rightarrow> None | Some v \<Rightarrow> if P n (k, v) then Some v else None)"
proof -
  have "map_of (map (\<lambda>(n, inner). (n, filter (P n) inner)) sh) n = map_option (filter (P n)) (map_of sh n)"
    by (induction sh) auto
  then show ?thesis
    using wf_shard_map [OF assms, of n]
    by (auto simp: shard_lookup_def bucket_def map_of_filter split: option.splits)
qed

section \<open>Migration, pruning, sweeping and clearing\<close>

definition same_value :: "entry \<Rightarrow> value_t option \<Rightarrow> bool" where
  "same_value e v \<longleftrightarrow> v = Some \<lparr>v_data = e_value e, v_expireAt = e_expireAt e\<rparr>"

lemma dropMigrated_loop_keep:
  "\<not> same_value e (shard_lookup sh (e_mapName e) (e_key e)) \<Longrightarrow>
   dropMigrated_loop (e # es) sh = dropMigrated_loop es sh"
  by (auto simp: same_value_def shard_lookup_of split: option.splits)

lemma dropMigrated_loop_drop:
  assumes "same_value e (shard_lookup sh (e_mapName e) (e_key e))"
  obtains sh' where
    "dropMigrated_loop (e # es) sh = (e # fst (dropMigrated_loop es sh'), snd (dropMigrated_loop es sh'))"
    "\<And>n k. shard_lookup sh' n k = (if n = e_mapName e \<and> k = e_key e then None else shard_lookup sh n k)"
    "wf_shard sh \<Longrightarrow> wf_shard sh'"
proof -
  from assms obtain inner where i: "map_of sh (e_mapName e) = Some inner"
    by (cases "map_of sh (e_mapName e)") (auto simp: same_value_def shard_lookup_missing)
  let ?sh = "AList.update (e_mapName e) (AList.delete (e_key e) inner) sh"
  from assms i have "map_of inner (e_key e) = Some \<lparr>v_data = e_value e, v_expireAt = e_expireAt e\<rparr>"
    by (simp add: same_value_def shard_lookup_of)
  with i have "dropMigrated_loop (e # es) sh =
      (e # fst (dropMigrated_loop es ?sh), snd (dropMigrated_loop es ?sh))"
    by (simp split: prod.splits)
  moreover have "shard_lookup ?sh n k =
      (if n = e_mapName e \<and> k = e_key e then None else shard_lookup sh n k)" for n k
    using i by (simp add: delete_conv' shard_lookup_of)
  moreover have "wf_shard sh \<Longrightarrow> wf_shard ?sh"
    using i by (simp add: wf_shard_map)
  ultimately show ?thesis by (rule that)
qed

lemma dropMigrated_loop_wf: "wf_shard sh \<Longrightarrow> wf_shard (snd (dropMigrated_loop es sh))"
proof (induction es arbitrary: sh)
  case (Cons e es)
  show ?case
  proof (cases "same_value e (shard_lookup sh (e_mapName e) (e_key e))")
    case True
    then show ?thesis by (rule dropMigrated_loop_drop [where es = es]) (use Cons in simp)
  next
    case False
    with Cons show ?thesis unfolding dropMigrated_loop_keep [OF False] by blast
  qed
qed simp

lemma dropMigrated_loop_spec:
  "shard_lookup (snd (dropMigrated_loop es sh)) n k =
     (if \<exists>e\<in>set es. e_mapName e = n \<and> e_key e = k \<and> same_value e (shard_lookup sh n k)
      then None else shard_lookup sh n k)"
  "set (fst (dropMigrated_loop es sh)) =
     {e \<in> set es. same_value e (shard_lookup sh (e_mapName e) (e_key e))}"
proof (induction es arbitrary: sh)
  case (Cons e es)
  {
    case 1
    show ?case
    proof (cases "same_value e (shard_lookup sh (e_mapName e) (e_key e))")
      case True
      then show ?thesis
        by (rule dropMigrated_loop_drop [where es = es])
           (use True in \<open>auto simp: Cons.IH(1) same_value_def\<close>)
    next
      case False
      then show ?thesis unfolding dropMigrated_loop_keep [OF False] Cons.IH(1) by auto
    qed
  next
    case 2
    show ?case
    proof (cases "same_value e (shard_lookup sh (e_mapName e) (e_key e))")
      case True
      have same: "e' = e" if "same_value e' (shard_lookup sh (e_mapName e') (e_key e'))"
        "e_mapName e' = e_mapName e" "e_key e' = e_key e" for e'
        using True that by (cases e; cases e') (auto simp: same_value_def)
      from True show ?thesis
        by (rule dropMigrated_loop_drop [where es = es])
           (use True same in \<open>auto simp: Cons.IH(2) same_value_def split: if_splits\<close>)
    next
      case False
      then show ?thesis unfolding dropMigrated_loop_keep [OF False] Cons.IH(2) by auto
    qed
  }
qed simp_all

lemma dropMigrated_lookup [lookup_laws]:
  assumes "wf_store s"
  shows "shard_lookup (snd (dropMigrated p es s) q) n k =
    (if q = p \<and> (\<exists>e\<in>set es. e_mapName e = n \<and> e_key e = k \<and> same_value e (shard_lookup (s p) n k))
     then None else shard_lookup (s q) n k)"
proof -
  have "wf_shard (snd (dropMigrated_loop es (s p)))"
    using assms by (simp add: wf_store_def dropMigrated_loop_wf)
  then show ?thesis
    by (auto simp: dropMigrated_def case_prod_beta drop_empty_lookup dropMigrated_loop_spec(1))
qed

lemma dropMigrated_dropped:
  "set (fst (dropMigrated p es s)) = {e \<in> set es. same_value e (shard_lookup (s p) (e_mapName e) (e_key e))}"
  by (simp add: dropMigrated_def case_prod_beta dropMigrated_loop_spec(2))

lemma pruneToKeyset_lookup [lookup_laws]:
  assumes "wf_store s"
  shows "shard_lookup (snd (pruneToKeyset p keep s) q) n k =
    (if q = p \<and> \<not> kept keep n k then None else shard_lookup (s q) n k)"
  using assms filter_inner_lookup [of "s p" "\<lambda>n (k, v). kept keep n k" n k]
    wf_shard_filter_inner [of "s p" "\<lambda>n (k, v). kept keep n k"]
  by (auto simp: pruneToKeyset_def wf_store_def drop_empty_lookup split: option.splits)

lemma sweepExpired_lookup [lookup_laws]:
  assumes "wf_store s"
  shows "shard_lookup (snd (sweepExpired now s) p) n k =
    (if p < Count then live now (shard_lookup (s p) n k) else shard_lookup (s p) n k)"
  using assms filter_inner_lookup [of "s p" "\<lambda>n (k, v). \<not> expired v now" n k]
    wf_shard_filter_inner [of "s p" "\<lambda>n (k, v). \<not> expired v now"]
  by (auto simp: sweepExpired_def sweep_shard_def wf_store_def drop_empty_lookup live_def split: option.splits)

lemma bucket_empty_lookup: "bucket sh n = [] \<Longrightarrow> shard_lookup sh n k = None"
  by (metis map_of_bucket map_of.simps(1))

lemma clearMap_lookup [lookup_laws]:
  "shard_lookup (snd (clearMap name s) p) n k =
    (if p < Count \<and> n = name then None else shard_lookup (s p) n k)"
  by (auto simp: clearMap_def bucket_empty_lookup)

lemma live_mono: "now \<le> now' \<Longrightarrow> live now' (live now v) = live now' v"
  by (auto simp: live_def expired_def split: option.splits)

section \<open>Snapshots\<close>

lemma snapshotPartition_mem:
  assumes "wf_shard (s p)"
  shows "e \<in> set (snapshotPartition now s p) \<longleftrightarrow>
    live now (shard_lookup (s p) (e_mapName e) (e_key e)) =
      Some \<lparr>v_data = e_value e, v_expireAt = e_expireAt e\<rparr>" (is "_ \<longleftrightarrow> _ = Some ?v")
proof -
  have "e \<in> set (snapshotPartition now s p) \<longleftrightarrow>
    (\<exists>(n, inner)\<in>set (s p). \<exists>(k, v)\<in>set inner. \<not> expired v now \<and> e = entry_of n k v)"
    by (auto simp: snapshotPartition_def image_iff Bex_def)
  also have "\<dots> \<longleftrightarrow>
    (\<exists>inner v. (e_mapName e, inner) \<in> set (s p) \<and> (e_key e, v) \<in> set inner \<and> \<not> expired v now \<and>
      v = \<lparr>v_data = e_value e, v_expireAt = e_expireAt e\<rparr>)"
    by (auto simp: entry_of_eq_iff)
  also have "\<dots> \<longleftrightarrow>
      shard_lookup (s p) (e_mapName e) (e_key e) = Some ?v \<and> \<not> expired ?v now"
    by (auto simp flip: wf_map_mem_lookup [OF assms])
  also have "\<dots> \<longleftrightarrow> live now (shard_lookup (s p) (e_mapName e) (e_key e)) = Some ?v"
    by (auto simp: live_def split: option.splits)
  finally show ?thesis .
qed

lemma wf_shard_Cons: "wf_shard ((n, inner) # sh) \<longleftrightarrow> n \<notin> fst ` set sh \<and> wf_map inner \<and> wf_shard sh"
  by (auto simp: wf_shard_def wf_map_def)

lemma wf_shard_distinct_keys:
  "wf_shard sh \<Longrightarrow> distinct (concat (map (\<lambda>(n, inner). map (\<lambda>(k, v). (n, k)) (filter P inner)) sh))"
proof (induction sh)
  case (Cons x sh)
  obtain n inner where x: "x = (n, inner)" by force
  have eq: "map (\<lambda>(k, v). (n, k)) (filter P inner) = map (Pair n) (map fst (filter P inner))"
    by auto
  have "distinct (map (Pair n) (map fst (filter P inner)))"
    using Cons.prems wf_map_filter [of inner P]
    by (simp only: x wf_shard_Cons wf_map_def distinct_map) (simp add: inj_on_def)
  moreover have "set (map (\<lambda>(k, v). (n, k)) (filter P inner)) \<inter>
      set (concat (map (\<lambda>(n, inner). map (\<lambda>(k, v). (n, k)) (filter P inner)) sh)) = {}"
    using Cons.prems unfolding x wf_shard_Cons by force
  ultimately show ?case using Cons by (simp add: x wf_shard_Cons eq)
qed simp

lemma snapshotPartition_distinct:
  assumes "wf_shard (s p)"
  shows "distinct (map (\<lambda>e. (e_mapName e, e_key e)) (snapshotPartition now s p))"
proof -
  have "map (\<lambda>e. (e_mapName e, e_key e)) (snapshotPartition now s p) =
    concat (map (\<lambda>(n, inner). map (\<lambda>(k, v). (n, k)) (filter (\<lambda>(k, v). \<not> expired v now) inner)) (s p))"
    unfolding snapshotPartition_def map_concat map_map comp_def
    by (intro arg_cong [where f = concat] map_cong) (auto simp: comp_def)
  then show ?thesis using wf_shard_distinct_keys [OF assms] by simp
qed

section \<open>The anti-entropy digest\<close>

text \<open>The byte stream one entry contributes: the two length-prefixed names, then the value.\<close>

definition entryStream :: "bytes \<Rightarrow> bytes \<Rightarrow> bytes \<Rightarrow> bytes" where
  "entryStream name k data =
     PutUint32 (of_nat (length name)) @ name @ PutUint32 (of_nat (length k)) @ k @ data"

lemma fnv1a_append: "fnv1a h (xs @ ys) = fnv1a (fnv1a h xs) ys"
  by (simp add: fnv1a_def)

lemma entryHash_stream: "entryHash name k data = fnv1a fnvOffset64 (entryStream name k data)"
  by (simp add: entryHash_def entryStream_def fnv1a_append)

lemma length_prefix_inject:
  assumes "length xs < 2 ^ 32" "length ys < 2 ^ 32"
    "PutUint32 (of_nat (length xs)) @ xs @ u = PutUint32 (of_nat (length ys)) @ ys @ v"
  shows "xs = ys \<and> u = v"
proof -
  have "PutUint32 (of_nat (length xs)) = PutUint32 (of_nat (length ys))" and r: "xs @ u = ys @ v"
    using assms(3) by (simp_all add: append_eq_append_conv)
  then have "(of_nat (length xs) :: u32) = of_nat (length ys)"
    by (metis Uint32_PutUint32_Nil)
  then have "unat (of_nat (length xs) :: u32) = unat (of_nat (length ys) :: u32)" by simp
  then have "length xs = length ys"
    using assms(1,2) by (simp add: unat_of_nat)
  with r show ?thesis by simp
qed

lemma entryStream_inject:
  assumes "length n < 2 ^ 32" "length k < 2 ^ 32" "length n' < 2 ^ 32" "length k' < 2 ^ 32"
    "entryStream n k d = entryStream n' k' d'"
  shows "n = n' \<and> k = k' \<and> d = d'"
  using length_prefix_inject [of n n' "PutUint32 (of_nat (length k)) @ k @ d"
      "PutUint32 (of_nat (length k')) @ k' @ d'"] length_prefix_inject [of k k' d d'] assms
  by (auto simp: entryStream_def)

definition digest_of :: "entry list \<Rightarrow> u64" where
  "digest_of es = fold (\<lambda>e d. d XOR entryHash (e_mapName e) (e_key e) (e_value e)) es 0"

lemma foldl_xor_filter:
  "foldl (\<lambda>d (k, v). if expired v now then d else d XOR entryHash name k (v_data v)) d inner =
   fold (\<lambda>e d. d XOR entryHash (e_mapName e) (e_key e) (e_value e))
     (map (\<lambda>(k, v). entry_of name k v)
       (filter (\<lambda>(k, v). \<not> expired v now) inner)) d"
  by (induction inner arbitrary: d) auto

lemma partitionDigest_snapshot: "partitionDigest now s p = digest_of (snapshotPartition now s p)"
proof -
  have "foldl (\<lambda>digest (name, inner).
       foldl (\<lambda>digest (k, v).
         if expired v now then digest else digest XOR entryHash name k (v_data v)) digest inner) d sh =
    fold (\<lambda>e d. d XOR entryHash (e_mapName e) (e_key e) (e_value e))
     (concat (map (\<lambda>(name, inner).
       map (\<lambda>(k, v). entry_of name k v)
         (filter (\<lambda>(k, v). \<not> expired v now) inner)) sh)) d" for d sh
    by (induction sh arbitrary: d) (auto simp: foldl_xor_filter)
  then show ?thesis
    by (simp add: partitionDigest_def digest_of_def snapshotPartition_def)
qed

lemma digest_of_map:
  "digest_of es = fold (\<lambda>x d. d XOR x) (map (\<lambda>e. entryHash (e_mapName e) (e_key e) (e_value e)) es) 0"
proof -
  have "fold (\<lambda>e d. d XOR f e) es (d :: u64) = fold (\<lambda>x d. d XOR x) (map f es) d" for f d
    by (induction es arbitrary: d) auto
  then show ?thesis by (simp only: digest_of_def)
qed

lemma fold_xor_mset: "mset xs = mset ys \<Longrightarrow> fold (\<lambda>x d. d XOR x) xs (d :: u64) = fold (\<lambda>x d. d XOR x) ys d"
  by (rule fold_multiset_equiv [THEN fun_cong]) (auto simp: fun_eq_iff ac_simps)

lemma digest_of_content:
  assumes "distinct (map (\<lambda>e. (e_mapName e, e_key e)) es)" "distinct (map (\<lambda>e. (e_mapName e, e_key e)) es')"
    "(\<lambda>e. (e_mapName e, e_key e, e_value e)) ` set es = (\<lambda>e. (e_mapName e, e_key e, e_value e)) ` set es'"
  shows "digest_of es = digest_of es'"
proof -
  let ?t = "\<lambda>e. (e_mapName e, e_key e, e_value e)"
  let ?h = "\<lambda>e. entryHash (e_mapName e) (e_key e) (e_value e)"
  have d: "distinct (map ?t xs)" if "distinct (map (\<lambda>e. (e_mapName e, e_key e)) xs)" for xs
    using that by (induction xs) auto
  have "mset (map ?t es) = mset (map ?t es')"
    by (rule set_eq_iff_mset_eq_distinct [THEN iffD1, OF d [OF assms(1)] d [OF assms(2)]]) (simp add: assms(3))
  then have "image_mset (\<lambda>(n, k, v). entryHash n k v) (mset (map ?t es)) =
      image_mset (\<lambda>(n, k, v). entryHash n k v) (mset (map ?t es'))"
    by (rule arg_cong)
  then have "mset (map ?h es) = mset (map ?h es')"
    by (simp add: image_mset.compositionality comp_def)
  then show ?thesis unfolding digest_of_map by (rule fold_xor_mset)
qed

end
