(* ===== verification/Processor.thy ===== *)
theory Processor
  imports Store
begin

text \<open>
  The entry processors (\<open>imap/processor.go\<close>): the built-in functions a caller runs by name on the
  owner of a key, their argument codecs, and the registry that resolves the names.

  A processor is a pure function of the current value, whether one is live, and the argument. It
  returns the new value, the action and the result for the caller. \<open>apply_proc\<close> is what a processor
  does to the value a reader sees; \<open>store_update_apply\<close> shows that running it under the shard lock
  implements exactly that. The fenced lock is specified by the locale \<open>fenced_lock\<close>, whose client
  lemmas (mutual exclusion, increasing tokens) hold for every trace of calls, and which is
  interpreted on \<open>lockAcquireProc\<close> and \<open>lockReleaseProc\<close>.
\<close>

section \<open>The processors\<close>

type_synonym processor = "bytes \<Rightarrow> bool \<Rightarrow> bytes \<Rightarrow> bytes \<times> Action \<times> bytes"

definition readInt64 :: "bytes \<Rightarrow> int" where
  "readInt64 b = (if length b < 8 then 0 else int64_of (Uint64 b))"

definition incrProc :: processor where
  "incrProc cur ex arg =
     (let n = wrap64 (readInt64 cur + readInt64 arg);
          buf = PutUint64 (word_of_int n)
      in (buf, Set, buf))"

definition appendProc :: processor where
  "appendProc cur ex arg = (let out = cur @ arg in (out, Set, out))"

definition getsetProc :: processor where
  "getsetProc cur ex arg = (let old = (if ex then cur else []) in (arg, Set, old))"

definition deleteProc :: processor where
  "deleteProc cur ex arg = (if \<not> ex then ([], Keep, []) else ([], Delete, cur))"

definition putIfAbsentProc :: processor where
  "putIfAbsentProc cur ex arg = (if ex then ([], Keep, [0]) else (arg, Set, [1]))"

definition encodeCAS :: "bytes \<Rightarrow> bytes \<Rightarrow> bytes" where
  "encodeCAS expected newVal = PutUint32 (of_nat (length expected)) @ expected @ newVal"

text \<open>
  The slice bound \<open>4+n\<close> is computed at the width of \<open>n\<close>, a \<open>uint32\<close>. It wraps only for arguments
  of 4 GiB and more, where the slice expression of the source panics.
\<close>

definition splitCAS :: "bytes \<Rightarrow> (bytes \<times> bytes) option" where
  "splitCAS arg =
     (if length arg < 4 then None
      else let n = Uint32 arg
           in if unat n > length arg - 4 then None
              else Some (drop 4 (take (unat (4 + n)) arg), drop (unat (4 + n)) arg))"

definition casProc :: processor where
  "casProc cur ex arg =
     (case splitCAS arg of
        None \<Rightarrow> ([], Keep, [0])
      | Some (expected, newVal) \<Rightarrow>
          if \<not> ex \<or> cur \<noteq> expected then ([], Keep, [0]) else (newVal, Set, [1]))"

definition encodeLock :: "u64 \<Rightarrow> bytes \<Rightarrow> bytes" where
  "encodeLock fence holder = PutUint64 fence @ holder"

definition decodeLock :: "bytes \<Rightarrow> u64 \<times> bytes" where
  "decodeLock b = (if length b < 8 then (0, []) else (Uint64 b, drop 8 b))"

definition fenceBytes :: "u64 \<Rightarrow> bytes" where
  "fenceBytes f = PutUint64 f"

definition lockAcquireProc :: processor where
  "lockAcquireProc cur ex arg =
     (if length arg = 0 then ([], Keep, [])
      else case decodeLock cur of (fence, holder) \<Rightarrow>
        if length holder > 0 then
          if holder \<noteq> arg then ([], Keep, []) else ([], Keep, fenceBytes fence)
        else (encodeLock (fence + 1) arg, Set, fenceBytes (fence + 1)))"

definition lockReleaseProc :: processor where
  "lockReleaseProc cur ex arg =
     (case decodeLock cur of (fence, holder) \<Rightarrow>
        if length holder = 0 \<or> holder \<noteq> arg then ([], Keep, [0])
        else (encodeLock fence [], Set, [1]))"

section \<open>The registry\<close>

definition processors :: "(bytes, processor) gomap" where
  "processors =
     [(str ''incr'', incrProc), (str ''append'', appendProc), (str ''getset'', getsetProc),
      (str ''delete'', deleteProc), (str ''putifabsent'', putIfAbsentProc), (str ''cas'', casProc),
      (str ''lockacquire'', lockAcquireProc), (str ''lockrelease'', lockReleaseProc)]"

definition RegisterProcessor ::
  "bytes \<Rightarrow> processor \<Rightarrow> (bytes, processor) gomap \<Rightarrow> (bytes, processor) gomap" where
  "RegisterProcessor name p procs = AList.update name p procs"

definition lookupProcessor :: "(bytes, processor) gomap \<Rightarrow> bytes \<Rightarrow> processor option" where
  "lookupProcessor procs name = map_of procs name"

section \<open>What a processor does to the value readers see\<close>

definition apply_proc :: "processor \<Rightarrow> bytes \<Rightarrow> bytes option \<Rightarrow> bytes \<times> bytes option" where
  "apply_proc pr arg cur =
     (case pr (case cur of None \<Rightarrow> [] | Some v \<Rightarrow> v) (cur \<noteq> None) arg of
        (nv, a, out) \<Rightarrow> (out, case a of Set \<Rightarrow> Some nv | Delete \<Rightarrow> None | Keep \<Rightarrow> cur))"

definition exec_proc ::
  "int \<Rightarrow> nat \<Rightarrow> bytes \<Rightarrow> bytes \<Rightarrow> processor \<Rightarrow> bytes \<Rightarrow> store \<Rightarrow> (Action \<times> int \<times> bytes) \<times> store" where
  "exec_proc now p name key pr arg s = store_update now p name key (\<lambda>cur ex. pr cur ex arg) s"

lemma live_idem [simp]: "live now (Some v) = Some v \<longleftrightarrow> \<not> expired v now"
  by (simp add: live_def)

lemma live_view_get:
  "live_view now s p name key = (cur, ex, e) \<Longrightarrow>
    cur = (case store_get now s p name key of None \<Rightarrow> [] | Some v \<Rightarrow> v) \<and>
    (ex \<longleftrightarrow> store_get now s p name key \<noteq> None) \<and> (ex \<longrightarrow> \<not> (e \<noteq> 0 \<and> now > e)) \<and> (\<not> ex \<longrightarrow> e = 0)"
  by (auto simp: live_view_def store_get_live live_def expired_def split: option.splits if_splits)

lemma exec_proc_get:
  "store_get now (snd (exec_proc now p name key pr arg s)) q n k =
    (if q = p \<and> n = name \<and> k = key then snd (apply_proc pr arg (store_get now s p name key))
     else store_get now s q n k)"
proof -
  obtain cur ex e where v: "live_view now s p name key = (cur, ex, e)" by (cases "live_view now s p name key")
  obtain nv a out where f: "pr cur ex arg = (nv, a, out)" by (cases "pr cur ex arg")
  note l = live_view_get [OF v]
  from l f have ap: "snd (apply_proc pr arg (store_get now s p name key)) =
      (case a of Set \<Rightarrow> Some nv | Delete \<Rightarrow> None | Keep \<Rightarrow> store_get now s p name key)"
    by (auto simp: apply_proc_def split: option.splits)
  from l have "\<not> (e \<noteq> 0 \<and> now > e)" by (cases ex) auto
  then show ?thesis
    unfolding exec_proc_def ap
    unfolding store_get_live [of now "snd _"]
    by (subst store_update_lookup [OF v, where nv = nv and a = a and r = out])
       (auto simp: f store_get_live live_def expired_def split: Action.splits)
qed

lemma exec_proc_out:
  "snd (snd (fst (exec_proc now p name key pr arg s))) = fst (apply_proc pr arg (store_get now s p name key))"
proof -
  obtain cur ex e where v: "live_view now s p name key = (cur, ex, e)" by (cases "live_view now s p name key")
  obtain nv a out where f: "pr cur ex arg = (nv, a, out)" by (cases "pr cur ex arg")
  note l = live_view_get [OF v]
  have "fst (exec_proc now p name key pr arg s) = (a, if a = Set then e else 0, out)"
    unfolding exec_proc_def by (rule store_update_result [OF v]) (simp add: f)
  with l f show ?thesis by (auto simp: apply_proc_def split: option.splits)
qed

text \<open>
  C19: Running a processor under the shard lock (\<open>store.update\<close>) is atomic and exact. The caller gets
  the processor's result on the value that was live, every reader of the key then sees the value the
  processor's action left, and no other key of any partition changes.
\<close>

theorem processor_atomic:
  "snd (snd (fst (exec_proc now p name key pr arg s))) =
     fst (apply_proc pr arg (store_get now s p name key)) \<and>
   store_get now (snd (exec_proc now p name key pr arg s)) p name key =
     snd (apply_proc pr arg (store_get now s p name key)) \<and>
   (\<forall>q n k. (q, n, k) \<noteq> (p, name, key) \<longrightarrow>
     store_get now (snd (exec_proc now p name key pr arg s)) q n k = store_get now s q n k)"
  by (simp add: exec_proc_get exec_proc_out)

theorem processor_atomic_witness:
  "store_get 5 (snd (exec_proc 5 3 (str ''m'') (str ''k'') appendProc [7] newStore)) 3 (str ''m'') (str ''k'') = Some [7] \<and>
   store_get 5 (snd (exec_proc 5 3 (str ''m'') (str ''k'') appendProc [7] newStore)) 3 (str ''m'') (str ''j'') = None"
  using processor_atomic [of 5 3 "str ''m''" "str ''k''" appendProc "[7]" newStore]
  by (auto simp: apply_proc_def appendProc_def Let_def store_get_def newStore_def str_def)

section \<open>The atomic counter\<close>

definition permanent :: "store \<Rightarrow> nat \<Rightarrow> bytes \<Rightarrow> bytes \<Rightarrow> bool" where
  "permanent s p name key \<longleftrightarrow> (\<forall>v. shard_lookup (s p) name key = Some v \<longrightarrow> v_expireAt v = 0)"

definition counter :: "store \<Rightarrow> nat \<Rightarrow> bytes \<Rightarrow> bytes \<Rightarrow> int" where
  "counter s p name key =
     (case shard_lookup (s p) name key of None \<Rightarrow> 0 | Some v \<Rightarrow> readInt64 (v_data v))"

text \<open>One increment: the clock reading and the argument of the call.\<close>

definition incr_call :: "nat \<Rightarrow> bytes \<Rightarrow> bytes \<Rightarrow> int \<times> bytes \<Rightarrow> store \<Rightarrow> int \<times> store" where
  "incr_call p name key c s =
     (case exec_proc (fst c) p name key incrProc (snd c) s of
        ((_, _, out), s') \<Rightarrow> (readInt64 out, s'))"

lemma readInt64_Put [simp]: "readInt64 (PutUint64 (word_of_int n)) = wrap64 n"
  by (simp add: readInt64_def int64_of_word_of_int)

lemma readInt64_Put_add [simp]: "readInt64 (PutUint64 (word_of_int m + word_of_int n)) = wrap64 (m + n)"
  using readInt64_Put [of "m + n"] by simp

lemma incr_call_step:
  assumes "permanent s p name key"
  shows "fst (incr_call p name key c s) = wrap64 (counter s p name key + readInt64 (snd c))"
    "counter (snd (incr_call p name key c s)) p name key = wrap64 (counter s p name key + readInt64 (snd c))"
    "permanent (snd (incr_call p name key c s)) p name key"
proof -
  obtain now arg where c: "c = (now, arg)" by force
  have v: "live_view now s p name key =
      (case shard_lookup (s p) name key of None \<Rightarrow> ([], False, 0) | Some v \<Rightarrow> (v_data v, True, 0))"
    using assms by (auto simp: live_view_def live_def expired_def permanent_def split: option.splits)
  obtain cur ex where ce: "live_view now s p name key = (cur, ex, 0)" "readInt64 cur = counter s p name key"
    unfolding v counter_def by (cases "shard_lookup (s p) name key") (auto simp: readInt64_def)
  let ?buf = "PutUint64 (word_of_int (readInt64 cur + readInt64 arg))"
  have f: "incrProc cur ex arg = (?buf, Set, ?buf)" by (simp add: incrProc_def Let_def)
  note r = store_update_result [OF ce(1), of "\<lambda>cur ex. incrProc cur ex arg", OF f]
  note l = store_update_lookup [OF ce(1), of "\<lambda>cur ex. incrProc cur ex arg", OF f]
  show "fst (incr_call p name key c s) = wrap64 (counter s p name key + readInt64 (snd c))"
    using r ce(2) by (simp add: c incr_call_def exec_proc_def case_prod_beta)
  show "counter (snd (incr_call p name key c s)) p name key = wrap64 (counter s p name key + readInt64 (snd c))"
    using l [of p name key] ce(2)
    by (simp add: c incr_call_def exec_proc_def case_prod_beta counter_def)
  show "permanent (snd (incr_call p name key c s)) p name key"
    using l [of p name key] by (simp add: c incr_call_def exec_proc_def case_prod_beta permanent_def)
qed

lemma incr_calls:
  assumes "permanent s p name key"
  shows "counter (snd (run_calls (incr_call p name key) cs s)) p name key =
      (if cs = [] then counter s p name key
       else wrap64 (counter s p name key + sum_list (map (\<lambda>c. readInt64 (snd c)) cs)))"
    "i < length cs \<Longrightarrow> fst (run_calls (incr_call p name key) cs s) ! i =
      wrap64 (counter s p name key + sum_list (map (\<lambda>c. readInt64 (snd c)) (take (Suc i) cs)))"
  using assms
proof (induction cs arbitrary: s i)
  case (Cons c cs)
  {
    case 1
    note st = incr_call_step [OF 1, of c]
    show ?case using Cons.IH(1) [OF st(3)] st by (simp add: add.assoc)
  next
    case 2
    note st = incr_call_step [OF 2(2), of c]
    from 2(1) show ?case using Cons.IH(2) [OF _ st(3), of "i - 1"] st
      by (cases i) (simp_all add: add.assoc)
  }
qed simp_all

text \<open>
  The distributed counter loses no update. Any sequence of \<open>incr\<close> calls on a key without a
  lifetime returns to its \<open>i\<close>-th caller the starting value plus the first \<open>i + 1\<close> arguments, in
  64-bit two's complement, so the final counter is the start plus the sum of all arguments in
  whatever order the calls were serialized.
\<close>

theorem incr_no_lost_update:
  assumes "permanent s p name key" "cs \<noteq> []"
  shows "(\<forall>i < length cs. fst (run_calls (incr_call p name key) cs s) ! i =
      wrap64 (counter s p name key + sum_list (map (\<lambda>c. readInt64 (snd c)) (take (Suc i) cs)))) \<and>
    counter (snd (run_calls (incr_call p name key) cs s)) p name key =
      wrap64 (counter s p name key + sum_list (map (\<lambda>c. readInt64 (snd c)) cs))"
  using incr_calls [OF assms(1), where cs = cs] assms(2) by simp

theorem incr_no_lost_update_witness:
  "counter (snd (run_calls (incr_call 3 (str ''m'') (str ''k''))
     [(1, PutUint64 5), (2, PutUint64 (-2))] newStore)) 3 (str ''m'') (str ''k'') = 3"
proof -
  have "permanent newStore 3 (str ''m'') (str ''k'')" "counter newStore 3 (str ''m'') (str ''k'') = 0"
    by (simp_all add: permanent_def counter_def newStore_def)
  moreover have "readInt64 (PutUint64 5) = 5" "readInt64 (PutUint64 (-2)) = -2"
    using readInt64_Put [of 5] readInt64_Put [of "-2"] by (simp_all add: wrap64_def)
  ultimately show ?thesis
    using incr_no_lost_update [of newStore 3 "str ''m''" "str ''k''"
        "[(1, PutUint64 5), (2, PutUint64 (-2))]"]
    by (simp add: wrap64_def)
qed

section \<open>Compare-and-swap\<close>

lemma splitCAS_encodeCAS:
  assumes "length expected < 2 ^ 32 - 4"
  shows "splitCAS (encodeCAS expected newVal) = Some (expected, newVal)"
proof -
  let ?n = "of_nat (length expected) :: u32"
  from assms have n: "unat ?n = length expected" by (simp add: unat_of_nat)
  have "unat (4 + ?n) = 4 + length expected"
    using assms by (simp add: unat_word_ariths n)
  with n show ?thesis by (simp add: splitCAS_def encodeCAS_def)
qed

text \<open>
  The \<open>cas\<close> processor applied to an argument built by \<open>encodeCAS\<close> is an atomic compare-and-swap.
  It stores the new value and reports 1 exactly when the key is live with the expected value, and
  otherwise reports 0 and leaves the key as it was, for every expected value that fits the length
  prefix.
\<close>

theorem cas_spec:
  assumes "length expected < 2 ^ 32 - 4"
  shows "apply_proc casProc (encodeCAS expected newVal) cur =
    (if cur = Some expected then ([1], Some newVal) else ([0], cur))"
  using splitCAS_encodeCAS [OF assms]
  by (auto simp: apply_proc_def casProc_def split: option.splits)

theorem cas_spec_witness:
  "apply_proc casProc (encodeCAS [1, 2] [9]) (Some [1, 2]) = ([1], Some [9]) \<and>
   apply_proc casProc (encodeCAS [1, 2] [9]) None = ([0], None)"
  using cas_spec [of "[1, 2]" "[9]" "Some [1, 2]"] cas_spec [of "[1, 2]" "[9]" None] by simp

section \<open>The fenced lock\<close>

datatype 'h lock_op = Acquire 'h | Release 'h

text \<open>
  The contract of a fenced lock: a free lock is granted with the next fence as its token, a held one
  only to its holder and with the same token, and only the holder releases. Fences count up to
  \<open>cap\<close>.
\<close>

locale fenced_lock =
  fixes call :: "'h lock_op \<Rightarrow> 's \<Rightarrow> 'r \<times> 's"
    and holder :: "'s \<Rightarrow> 'h option"
    and fence :: "'s \<Rightarrow> nat"
    and token :: "'r \<Rightarrow> nat option"
    and valid :: "'h \<Rightarrow> bool"
    and cap :: nat
  assumes acquire_free: "holder s = None \<Longrightarrow> valid h \<Longrightarrow> fence s < cap \<Longrightarrow>
      token (fst (call (Acquire h) s)) = Some (fence s + 1) \<and>
      holder (snd (call (Acquire h) s)) = Some h \<and> fence (snd (call (Acquire h) s)) = fence s + 1"
    and acquire_held: "holder s = Some g \<Longrightarrow>
      snd (call (Acquire h) s) = s \<and>
      token (fst (call (Acquire h) s)) = (if h = g then Some (fence s) else None)"
    and acquire_invalid: "\<not> valid h \<Longrightarrow> snd (call (Acquire h) s) = s \<and> token (fst (call (Acquire h) s)) = None"
    and holder_valid: "holder s = Some h \<Longrightarrow> valid h"
    and release_held: "holder s = Some h \<Longrightarrow>
      holder (snd (call (Release h) s)) = None \<and> fence (snd (call (Release h) s)) = fence s"
    and release_other: "holder s \<noteq> Some h \<Longrightarrow> snd (call (Release h) s) = s"
begin

lemma acquired:
  assumes "token (fst (call (Acquire h) s)) = Some t" "fence s < cap"
  shows "holder (snd (call (Acquire h) s)) = Some h \<and> fence (snd (call (Acquire h) s)) = t \<and>
    fence s \<le> t \<and> (t = fence s \<longrightarrow> holder s = Some h)"
proof (cases "holder s")
  case None
  with assms acquire_free [of s h] acquire_invalid [of h s] show ?thesis by (cases "valid h") auto
next
  case (Some g)
  with assms acquire_held [of s g h] show ?thesis by (auto split: if_splits)
qed

lemma call_fence:
  assumes "fence s < cap"
  shows "fence s \<le> fence (snd (call c s))" "fence (snd (call c s)) \<le> fence s + 1"
    "fence (snd (call c s)) = fence s \<Longrightarrow> holder (snd (call c s)) = Some h \<Longrightarrow> holder s = Some h"
proof -
  have "fence s \<le> fence (snd (call c s)) \<and> fence (snd (call c s)) \<le> fence s + 1 \<and>
    (fence (snd (call c s)) = fence s \<longrightarrow> holder (snd (call c s)) = Some h \<longrightarrow> holder s = Some h)"
  proof (cases c)
    case (Acquire g)
    show ?thesis
    proof (cases "holder s")
      case None
      with assms Acquire acquire_free [of s g] acquire_invalid [of g s] show ?thesis
        by (cases "valid g") simp_all
    next
      case (Some g')
      with acquire_held [OF Some, of g] Acquire show ?thesis by simp
    qed
  next
    case (Release g)
    with release_held [of s g] release_other [of s g] show ?thesis
      by (cases "holder s = Some g") auto
  qed
  then show "fence s \<le> fence (snd (call c s))" "fence (snd (call c s)) \<le> fence s + 1"
    "fence (snd (call c s)) = fence s \<Longrightarrow> holder (snd (call c s)) = Some h \<Longrightarrow> holder s = Some h"
    by auto
qed

lemma later_tokens:
  assumes "fence s + length cs \<le> cap" "j < length cs" "cs ! j = Acquire g"
    "token (fst (run_calls call cs s) ! j) = Some u"
  shows "fence s \<le> u \<and> (u = fence s \<longrightarrow> holder s = Some g)"
  using assms
proof (induction cs arbitrary: s j)
  case (Cons c cs)
  from Cons.prems(1) have lt: "fence s < cap" by simp
  show ?case
  proof (cases j)
    case 0
    with Cons.prems acquired [of g s u] lt show ?thesis by auto
  next
    case (Suc i)
    let ?s = "snd (call c s)"
    from Cons.prems(1) call_fence(2) [OF lt, of c] have "fence ?s + length cs \<le> cap" by simp
    from Cons.IH [OF this, of i] Cons.prems Suc have "fence ?s \<le> u \<and> (u = fence ?s \<longrightarrow> holder ?s = Some g)"
      by simp
    with call_fence(1) [OF lt, of c] call_fence(3) [OF lt, of c g] show ?thesis by auto
  qed
qed simp

lemma tokens_increase:
  assumes "fence s + length cs \<le> cap" "i < j" "j < length cs"
    "cs ! i = Acquire h" "token (fst (run_calls call cs s) ! i) = Some t"
    "cs ! j = Acquire g" "token (fst (run_calls call cs s) ! j) = Some u"
  shows "t \<le> u \<and> (h \<noteq> g \<longrightarrow> t < u)"
  using assms
proof (induction cs arbitrary: s i j)
  case (Cons c cs)
  let ?s = "snd (call c s)"
  from Cons.prems(1) have lt: "fence s < cap" by simp
  from Cons.prems(1) call_fence(2) [OF lt, of c] have cap: "fence ?s + length cs \<le> cap" by simp
  from Cons.prems(2) obtain j' where j: "j = Suc j'" by (cases j) auto
  show ?case
  proof (cases i)
    case 0
    with Cons.prems(4,5) have "c = Acquire h" "token (fst (call (Acquire h) s)) = Some t" by simp_all
    with acquired [OF this(2) lt] have h: "holder ?s = Some h" "fence ?s = t" by simp_all
    from Cons.prems(3,6,7) j have "fence ?s \<le> u \<and> (u = fence ?s \<longrightarrow> holder ?s = Some g)"
      by (intro later_tokens [OF cap, of j']) simp_all
    with h show ?thesis by (auto simp: less_le)
  next
    case (Suc i')
    from Cons.IH [OF cap, of i' j'] Cons.prems(2-7) j Suc show ?thesis by simp
  qed
qed simp

lemma excluded_while_held:
  assumes "holder s = Some h" "Release h \<notin> set cs" "j < length cs" "cs ! j = Acquire g" "g \<noteq> h"
  shows "token (fst (run_calls call cs s) ! j) = None"
  using assms
proof (induction cs arbitrary: s j)
  case (Cons c cs)
  have "holder (snd (call c s)) = Some h"
    using Cons.prems(1,2) acquire_held [OF Cons.prems(1)] release_other [of s]
    by (cases c) auto
  with Cons.IH [of "snd (call c s)" "j - 1"] Cons.prems(2-5) acquire_held [OF Cons.prems(1), of g] show ?case
    by (cases j) simp_all
qed simp

lemma exclusive:
  assumes "fence s + length cs \<le> cap" "i < j" "j < length cs"
    "cs ! i = Acquire h" "token (fst (run_calls call cs s) ! i) = Some t"
    "\<forall>k. i < k \<and> k < j \<longrightarrow> cs ! k \<noteq> Release h" "cs ! j = Acquire g" "g \<noteq> h"
  shows "token (fst (run_calls call cs s) ! j) = None"
  using assms
proof (induction cs arbitrary: s i j)
  case (Cons c cs)
  let ?s = "snd (call c s)"
  from Cons.prems(1) have lt: "fence s < cap" by simp
  from Cons.prems(1) call_fence(2) [OF lt, of c] have cap: "fence ?s + length cs \<le> cap" by simp
  from Cons.prems(2) obtain j' where j: "j = Suc j'" by (cases j) auto
  show ?case
  proof (cases i)
    case 0
    with Cons.prems(4,5) have "c = Acquire h" "token (fst (call (Acquire h) s)) = Some t" by simp_all
    with acquired [OF this(2) lt] have h: "holder ?s = Some h" by simp
    have "Release h \<notin> set (take (Suc j') cs)"
    proof
      assume "Release h \<in> set (take (Suc j') cs)"
      then obtain k where k: "k < Suc j'" "k < length cs" "cs ! k = Release h"
        by (auto simp: in_set_conv_nth)
      with Cons.prems(6) [rule_format, of "Suc k"] 0 j have "k = j'" by (cases "k < j'") auto
      with k Cons.prems(7) j show False by simp
    qed
    with excluded_while_held [OF h, of "take (Suc j') cs" j' g] Cons.prems(3,7,8) j
    have "token (fst (run_calls call (take (Suc j') cs) ?s) ! j') = None" by simp
    moreover have "fst (run_calls call cs ?s) ! j' = fst (run_calls call (take (Suc j') cs) ?s) ! j'"
      using run_calls_append [of call "take (Suc j') cs" "drop (Suc j') cs" ?s] Cons.prems(3) j
      by (simp add: nth_append)
    ultimately show ?thesis using j by simp
  next
    case (Suc i')
    have "\<forall>k. i' < k \<and> k < j' \<longrightarrow> cs ! k \<noteq> Release h"
      using Cons.prems(6) Suc j by auto
    from Cons.IH [OF cap, of i' j', OF _ _ _ _ this] Cons.prems(2-5,7,8) Suc j show ?thesis by simp
  qed
qed simp

end

text \<open>The model's lock: one entry, changed by the two processors.\<close>

definition lock_call :: "bytes lock_op \<Rightarrow> bytes option \<Rightarrow> bytes \<times> bytes option" where
  "lock_call c e =
     (case c of Acquire h \<Rightarrow> apply_proc lockAcquireProc h e | Release h \<Rightarrow> apply_proc lockReleaseProc h e)"

definition lock_state :: "bytes option \<Rightarrow> u64 \<times> bytes" where
  "lock_state e = decodeLock (case e of None \<Rightarrow> [] | Some v \<Rightarrow> v)"

definition lock_holder :: "bytes option \<Rightarrow> bytes option" where
  "lock_holder e = (if snd (lock_state e) = [] then None else Some (snd (lock_state e)))"

definition lock_fence :: "bytes option \<Rightarrow> nat" where
  "lock_fence e = unat (fst (lock_state e))"

definition lock_token :: "bytes \<Rightarrow> nat option" where
  "lock_token out = (if out = [] then None else Some (unat (Uint64 out)))"

lemma decode_encode_lock [simp]: "decodeLock (encodeLock f h) = (f, h)"
  by (simp add: decodeLock_def encodeLock_def)

lemma lock_token_fence [simp]: "lock_token (fenceBytes f) = Some (unat f)" "lock_token [] = None"
  by (simp_all add: lock_token_def fenceBytes_def)

lemma lock_acquire:
  "lock_call (Acquire h) e =
    (case lock_state e of (f, g) \<Rightarrow>
      if h = [] then ([], e)
      else if g = [] then (fenceBytes (f + 1), Some (encodeLock (f + 1) h))
      else if g = h then (fenceBytes f, e) else ([], e))"
  by (auto simp: lock_call_def apply_proc_def lockAcquireProc_def lock_state_def split: prod.splits)

lemma lock_release:
  "lock_call (Release h) e =
    (case lock_state e of (f, g) \<Rightarrow> if g = [] \<or> g \<noteq> h then ([0], e) else ([1], Some (encodeLock f [])))"
  by (auto simp: lock_call_def apply_proc_def lockReleaseProc_def lock_state_def split: prod.splits)

lemma unat_succ: "unat (f :: u64) < 2 ^ 64 - 1 \<Longrightarrow> unat (f + 1) = unat f + 1"
  by (simp add: unat_word_ariths)

interpretation lk: fenced_lock lock_call lock_holder lock_fence lock_token "\<lambda>h. h \<noteq> []" "2 ^ 64 - 1"
  by unfold_locales
    (auto simp: lock_acquire lock_release lock_holder_def lock_fence_def lock_state_def unat_succ
      split: prod.splits if_splits)

text \<open>
  C14: Fencing. In every sequence of acquire and release calls on one lock entry (and for less than
  \<open>2 ^ 64\<close> grants), a later successful acquire never gets a smaller token than an earlier one, and
  it gets a strictly larger token whenever the holder is a different one, so a stale holder can be
  told from the current one.
\<close>

theorem lock_tokens_increase:
  assumes "lock_fence e + length cs \<le> 2 ^ 64 - 1" "i < j" "j < length cs"
    "cs ! i = Acquire h" "lock_token (fst (run_calls lock_call cs e) ! i) = Some t"
    "cs ! j = Acquire g" "lock_token (fst (run_calls lock_call cs e) ! j) = Some u"
  shows "t \<le> u \<and> (h \<noteq> g \<longrightarrow> t < u)"
  using assms by (rule lk.tokens_increase)

definition lock_demo :: "bytes lock_op list" where
  "lock_demo = [Acquire [97], Acquire [98], Release [97], Acquire [98]]"

theorem lock_tokens_increase_witness:
  "lock_token (fst (run_calls lock_call lock_demo None) ! 0) = Some 1 \<and>
   lock_token (fst (run_calls lock_call lock_demo None) ! 3) = Some 2 \<and>
   ([97] :: bytes) \<noteq> [98] \<and> (1 :: nat) < 2"
proof -
  have "lock_token (fst (run_calls lock_call lock_demo None) ! 0) = Some 1"
    "lock_token (fst (run_calls lock_call lock_demo None) ! 3) = Some 2" by code_simp+
  moreover have "lock_fence None + length lock_demo \<le> 2 ^ 64 - 1"
    by (simp add: lock_demo_def lock_fence_def lock_state_def decodeLock_def)
  ultimately show ?thesis
    using lock_tokens_increase [of None lock_demo 0 3 "[97]" 1 "[98]" 2] by (simp add: lock_demo_def)
qed

text \<open>
  C18: Mutual exclusion. Once a caller has acquired the lock, an acquire by any other holder is
  refused until the first caller releases it.
\<close>

theorem lock_exclusive:
  assumes "lock_fence e + length cs \<le> 2 ^ 64 - 1" "i < j" "j < length cs"
    "cs ! i = Acquire h" "lock_token (fst (run_calls lock_call cs e) ! i) = Some t"
    "\<forall>k. i < k \<and> k < j \<longrightarrow> cs ! k \<noteq> Release h" "cs ! j = Acquire g" "g \<noteq> h"
  shows "fst (run_calls lock_call cs e) ! j = []"
  using lk.exclusive [OF assms] by (simp add: lock_token_def split: if_splits)

theorem lock_exclusive_witness:
  "fst (run_calls lock_call lock_demo None) ! 0 = fenceBytes 1 \<and> fst (run_calls lock_call lock_demo None) ! 1 = []"
proof -
  have r: "fst (run_calls lock_call lock_demo None) ! 0 = fenceBytes 1" by code_simp
  moreover have "lock_fence None + length lock_demo \<le> 2 ^ 64 - 1"
    by (simp add: lock_demo_def lock_fence_def lock_state_def decodeLock_def)
  ultimately show ?thesis
    using lock_exclusive [of None lock_demo 0 1 "[97]" 1 "[98]"] by (simp add: lock_demo_def)
qed

end
