(* ===== verification/Aggregate.thy ===== *)
theory Aggregate
  imports Processor
begin

text \<open>
  The distributed aggregators (\<open>imap/aggregate.go\<close>): each member folds the values it owns into a
  partial (\<open>Reduce\<close>) and the caller merges the partials (\<open>Combine\<close>).

  The locale \<open>mergeable\<close> states what the comment of the Go interface asks of an aggregator: merging
  the partials of any grouping of the values is the reduction of all of them, in any order. It is
  interpreted on each built-in aggregator.
\<close>

section \<open>The built-in aggregators\<close>

record aggregator =
  agg_Reduce :: "bytes list \<Rightarrow> bytes"
  agg_Combine :: "bytes list \<Rightarrow> bytes"

definition putI64 :: "int \<Rightarrow> bytes" where
  "putI64 n = PutUint64 (word_of_int n)"

definition sumI64 :: "bytes list \<Rightarrow> int" where
  "sumI64 parts = foldl (\<lambda>sum p. wrap64 (sum + readInt64 p)) 0 parts"

definition countAgg :: aggregator where
  "countAgg = \<lparr>agg_Reduce = \<lambda>values. putI64 (int (length values)),
               agg_Combine = \<lambda>partials. putI64 (sumI64 partials)\<rparr>"

definition sumAgg :: aggregator where
  "sumAgg = \<lparr>agg_Reduce = \<lambda>values. putI64 (sumI64 values),
             agg_Combine = \<lambda>partials. putI64 (sumI64 partials)\<rparr>"

text \<open>One iteration of the loop of \<open>extremum\<close>, on its variables \<open>best\<close> and \<open>seen\<close>.\<close>

definition extremum_step :: "bool \<Rightarrow> int \<times> bool \<Rightarrow> bytes \<Rightarrow> int \<times> bool" where
  "extremum_step mn st it =
     (case st of (best, seen) \<Rightarrow>
        if length it = 0 then (best, seen)
        else let x = readInt64 it
             in if \<not> seen \<or> (mn \<and> x < best) \<or> (\<not> mn \<and> x > best) then (x, True) else (best, seen))"

definition extremum :: "bytes list \<Rightarrow> bool \<Rightarrow> bytes" where
  "extremum items mn =
     (case foldl (extremum_step mn) (0, False) items of
        (best, seen) \<Rightarrow> if \<not> seen then [] else putI64 best)"

definition minAgg :: aggregator where
  "minAgg = \<lparr>agg_Reduce = \<lambda>values. extremum values True, agg_Combine = \<lambda>partials. extremum partials True\<rparr>"

definition maxAgg :: aggregator where
  "maxAgg = \<lparr>agg_Reduce = \<lambda>values. extremum values False, agg_Combine = \<lambda>partials. extremum partials False\<rparr>"

definition aggregators :: "(bytes, aggregator) gomap" where
  "aggregators = [(str ''count'', countAgg), (str ''sum'', sumAgg), (str ''min'', minAgg), (str ''max'', maxAgg)]"

definition RegisterAggregator ::
  "bytes \<Rightarrow> aggregator \<Rightarrow> (bytes, aggregator) gomap \<Rightarrow> (bytes, aggregator) gomap" where
  "RegisterAggregator name agg aggs = AList.update name agg aggs"

definition lookupAggregator :: "(bytes, aggregator) gomap \<Rightarrow> bytes \<Rightarrow> aggregator option" where
  "lookupAggregator aggs name = map_of aggs name"

section \<open>The contract of an aggregator\<close>

locale mergeable =
  fixes agg :: aggregator
  assumes merge: "agg_Combine agg (map (agg_Reduce agg) groups) = agg_Reduce agg (concat groups)"
    and reorder: "mset vs = mset ws \<Longrightarrow> agg_Reduce agg vs = agg_Reduce agg ws"
begin

lemma merge_any_grouping:
  "mset (concat groups) = mset vs \<Longrightarrow> agg_Combine agg (map (agg_Reduce agg) groups) = agg_Reduce agg vs"
  unfolding merge by (rule reorder)

lemma merge_empty_member:
  "agg_Combine agg (map (agg_Reduce agg) (groups @ [[]])) = agg_Combine agg (map (agg_Reduce agg) groups)"
  unfolding merge by simp

end

lemma putI64_wrap [simp]: "putI64 (wrap64 n) = putI64 n"
  by (simp add: putI64_def)

lemma readInt64_putI64 [simp]: "readInt64 (putI64 n) = wrap64 n"
  by (simp add: putI64_def)

lemma putI64_nonempty [simp]: "putI64 n \<noteq> []"
  by (simp add: putI64_def)

lemma readInt64_range [simp, intro]: "int64_range (readInt64 b)"
proof -
  have "int64_range 0" by (simp add: int64_range_def)
  then show ?thesis by (simp add: readInt64_def)
qed

lemma sumI64_sum: "sumI64 parts = wrap64 (sum_list (map readInt64 parts))"
proof -
  have "foldl (\<lambda>sum p. wrap64 (sum + readInt64 p)) a ps = wrap64 (a + sum_list (map readInt64 ps))"
    if "int64_range a" for a ps
    using that
  proof (induction ps arbitrary: a)
    case (Cons p ps)
    have "foldl (\<lambda>sum p. wrap64 (sum + readInt64 p)) (wrap64 (a + readInt64 p)) ps =
      wrap64 (wrap64 (a + readInt64 p) + sum_list (map readInt64 ps))"
      by (rule Cons.IH) simp
    then show ?case by (simp add: add.assoc)
  qed simp
  moreover have "int64_range 0" by (simp add: int64_range_def)
  ultimately show ?thesis by (simp only: sumI64_def add_0)
qed

lemma wrap64_sum_list: "wrap64 (sum_list (map (\<lambda>x. wrap64 (f x)) xs)) = wrap64 (sum_list (map f xs))"
proof (induction xs)
  case (Cons x xs)
  have "wrap64 (f x + sum_list (map (\<lambda>x. wrap64 (f x)) xs)) =
      wrap64 (f x + wrap64 (sum_list (map (\<lambda>x. wrap64 (f x)) xs)))" by (simp only: wrap64_add_right)
  then show ?case by (simp add: Cons.IH)
qed simp

lemma putI64_sum_wrap [simp]: "putI64 (sum_list (map (\<lambda>x. wrap64 (f x)) xs)) = putI64 (sum_list (map f xs))"
  using arg_cong [OF wrap64_sum_list [of f xs], of putI64] by (simp only: putI64_wrap)

lemma int_length_concat: "int (length (concat gs)) = sum_list (map (\<lambda>g. int (length g)) gs)"
  by (induction gs) simp_all

lemma sum_list_mset: "mset vs = mset ws \<Longrightarrow> sum_list (map f vs) = (sum_list (map f ws) :: int)"
  by (metis mset_map sum_mset_sum_list)

lemma sum_list_concat: "sum_list (map f (concat gs)) = sum_list (map (\<lambda>g. sum_list (map f g)) gs)"
  for f :: "'a \<Rightarrow> int"
  by (induction gs) simp_all

interpretation count: mergeable countAgg
proof
  show "agg_Combine countAgg (map (agg_Reduce countAgg) groups) = agg_Reduce countAgg (concat groups)" for groups
    by (simp only: countAgg_def aggregator.simps sumI64_sum map_map comp_def readInt64_putI64
        putI64_wrap putI64_sum_wrap int_length_concat)
  show "agg_Reduce countAgg vs = agg_Reduce countAgg ws" if "mset vs = mset ws" for vs ws
    using that by (simp add: countAgg_def) (metis size_mset)
qed

interpretation sum: mergeable sumAgg
proof
  show "agg_Combine sumAgg (map (agg_Reduce sumAgg) groups) = agg_Reduce sumAgg (concat groups)" for groups
    by (simp add: sumAgg_def sumI64_sum comp_def sum_list_concat)
  show "agg_Reduce sumAgg vs = agg_Reduce sumAgg ws" if "mset vs = mset ws" for vs ws
    using sum_list_mset [OF that, of readInt64] by (simp add: sumAgg_def sumI64_sum)
qed

text \<open>The extremum as a fold of a commutative, associative operation with identity \<open>None\<close>.\<close>

definition item_value :: "bytes \<Rightarrow> int option" where
  "item_value it = (if it = [] then None else Some (readInt64 it))"

definition better :: "bool \<Rightarrow> int option \<Rightarrow> int option \<Rightarrow> int option" where
  "better mn = combine_options (if mn then min else max)"

definition best_of :: "bool \<Rightarrow> int option list \<Rightarrow> int option" where
  "best_of mn xs = fold (better mn) xs None"

lemma better_assoc: "better mn (better mn a b) c = better mn a (better mn b c)"
  and better_comm: "better mn a b = better mn b a"
  and better_None [simp]: "better mn None a = a" "better mn a None = a"
  by (auto simp: better_def combine_options_def min.assoc max.assoc min.commute max.commute split: option.splits)

lemma fold_better: "fold (better mn) xs a = better mn (best_of mn xs) a"
  unfolding best_of_def
proof (induction xs arbitrary: a)
  case (Cons x xs)
  show ?case
    by (simp add: Cons.IH [of "better mn x a"] Cons.IH [of x] better_assoc)
qed simp

lemma best_of_append: "best_of mn (xs @ ys) = better mn (best_of mn xs) (best_of mn ys)"
  by (simp add: best_of_def [of mn "xs @ ys"] fold_better best_of_def [of mn xs, symmetric] better_comm)

lemma best_of_Cons [simp]: "best_of mn (x # xs) = better mn x (best_of mn xs)" "best_of mn [] = None"
  using fold_better [of mn xs x] by (simp_all add: best_of_def [of mn "x # xs"] better_comm) (simp add: best_of_def)

lemma best_of_mset: "mset xs = mset ys \<Longrightarrow> best_of mn xs = best_of mn ys"
  unfolding best_of_def
proof (rule fold_multiset_equiv [THEN fun_cong])
  show "better mn x \<circ> better mn y = better mn y \<circ> better mn x" for x y
    unfolding fun_eq_iff comp_def by (metis better_assoc better_comm)
qed

lemma extremum_best:
  "extremum items mn = (case best_of mn (map item_value items) of None \<Rightarrow> [] | Some x \<Rightarrow> putI64 x)"
proof -
  let ?abs = "\<lambda>p. if snd p then Some (fst p) else None"
  have step: "?abs (extremum_step mn p it) = better mn (item_value it) (?abs p)" for p it
    by (cases p) (auto simp: extremum_step_def item_value_def better_def Let_def)
  have "?abs (foldl (extremum_step mn) p items) = fold (better mn) (map item_value items) (?abs p)" for p
  proof (induction items arbitrary: p)
    case (Cons it items)
    show ?case unfolding foldl_Cons Cons.IH step by simp
  qed simp
  from this [of "(0, False)", symmetric] show ?thesis
    by (simp add: extremum_def best_of_def case_prod_beta)
qed

lemma item_value_putI64 [simp]: "item_value (putI64 n) = Some (wrap64 n)"
  by (simp add: item_value_def)

lemma better_mem: "better mn a b = a \<or> better mn a b = b"
  by (cases a; cases b) (simp_all add: better_def min_def max_def)

lemma best_of_mem: "best_of mn xs = Some x \<Longrightarrow> Some x \<in> set xs"
proof (induction xs)
  case (Cons y xs)
  from Cons.prems have "better mn y (best_of mn xs) = Some x" by simp
  with better_mem [of mn y "best_of mn xs"] have "Some x = y \<or> best_of mn xs = Some x" by metis
  with Cons.IH show ?case by (metis list.set_intros)
qed simp

lemma best_of_range: "best_of mn (map item_value items) = Some x \<Longrightarrow> int64_range x"
  by (drule best_of_mem) (auto simp: item_value_def split: if_splits)

lemma item_value_extremum: "item_value (extremum g mn) = best_of mn (map item_value g)"
  by (auto simp: extremum_best item_value_def dest!: best_of_range split: option.splits)

lemma best_of_concat: "best_of mn (concat gs) = best_of mn (map (best_of mn) gs)"
  by (induction gs) (simp_all add: best_of_append)

lemma extremum_merge: "extremum (map (\<lambda>g. extremum g mn) groups) mn = extremum (concat groups) mn"
  unfolding extremum_best [of "map _ _"] extremum_best [of "concat _"]
  by (simp add: comp_def item_value_extremum map_concat best_of_concat)

lemma extremum_reorder: "mset vs = mset ws \<Longrightarrow> extremum vs mn = extremum ws mn"
  using best_of_mset [of "map item_value vs" "map item_value ws" mn] by (simp add: extremum_best)

interpretation min: mergeable minAgg
  by unfold_locales (simp add: minAgg_def extremum_merge, simp add: minAgg_def, erule extremum_reorder)

interpretation max: mergeable maxAgg
  by unfold_locales (simp add: maxAgg_def extremum_merge, simp add: maxAgg_def, erule extremum_reorder)

lemma builtin_mergeable: "(name, agg) \<in> set aggregators \<Longrightarrow> mergeable agg"
  using count.mergeable_axioms sum.mergeable_axioms min.mergeable_axioms max.mergeable_axioms
  by (auto simp: aggregators_def)

text \<open>
  Every built-in aggregator keeps the contract of the \<open>Aggregator\<close> interface. However the values
  of a map are spread over the members and in whatever order the members answer, merging the partial
  results gives the same bytes as reducing all the values in one place.
\<close>

theorem aggregate_any_grouping:
  assumes "(name, agg) \<in> set aggregators" "mset (concat groups) = mset values"
  shows "agg_Combine agg (map (agg_Reduce agg) groups) = agg_Reduce agg values"
  by (rule mergeable.merge_any_grouping [OF builtin_mergeable [OF assms(1)] assms(2)])

theorem aggregate_any_grouping_witness:
  "agg_Combine minAgg (map (agg_Reduce minAgg) [[putI64 7], [], [putI64 4, putI64 9]]) =
   agg_Reduce minAgg [putI64 4, putI64 7, putI64 9]"
  by (rule aggregate_any_grouping [of "str ''min''"]) (simp_all add: aggregators_def)

end
