(* ===== verification/Queue.thy ===== *)
theory Queue
  imports Aggregate
begin

text \<open>
  The distributed FIFO queue (\<open>imap/queue.go\<close>) and the snapshot loader that upgrades legacy queues
  (\<open>loadAll\<close> of \<open>imap/store.go\<close>).

  \<open>queueOp\<close> takes the three accessors of an \<open>updateMulti\<close> critical section, as the source does. What
  it relies on is the locale \<open>accessors\<close>: a read after a write or delete. The refinement of the
  abstract queue (a list of items) is proved inside it, for the representation relation
  \<open>queue_rep\<close>: metadata, a chain of non-empty segments, nothing above the tail. The interpretation
  on \<open>tx_get\<close>, \<open>tx_set\<close> and \<open>tx_del\<close> gives the refinement for the store.
\<close>

section \<open>Codecs\<close>

definition maxSegBytes :: nat where
  "maxSegBytes = 64 * 1024"

definition decodeQueueMeta :: "bytes \<Rightarrow> u64 \<times> u64 \<times> u64" where
  "decodeQueueMeta b =
     (if length b < 24 then (0, 0, 0) else (Uint64 b, Uint64 (drop 8 b), Uint64 (drop 16 b)))"

definition encodeQueueMeta :: "u64 \<Rightarrow> u64 \<Rightarrow> u64 \<Rightarrow> bytes" where
  "encodeQueueMeta head tail cnt = PutUint64 head @ PutUint64 tail @ PutUint64 cnt"

function queueCount :: "bytes \<Rightarrow> nat" where
  "queueCount b =
     (if length b \<ge> 4 then
        let l = Uint32 b
        in if length b < 4 + unat l then 0 else Suc (queueCount (drop (4 + unat l) b))
      else 0)"
  by pat_completeness auto
termination by (relation "measure length") auto

declare queueCount.simps [simp del]

text \<open>
  The slice bound \<open>4+n\<close> of the item is computed at the width of \<open>n\<close>, a \<open>uint32\<close>, the bound of the
  rest at the width of \<open>int\<close>. The first wraps only for values of 4 GiB and more, where the slice
  expression of the source panics.
\<close>

definition queueHead :: "bytes \<Rightarrow> (bytes \<times> bytes) option" where
  "queueHead b =
     (if length b < 4 then None
      else let n = Uint32 b
           in if length b < 4 + unat n then None
              else Some (drop 4 (take (unat (4 + n)) b), drop (4 + unat n) b))"

definition appendPacked :: "bytes \<Rightarrow> bytes \<Rightarrow> bytes" where
  "appendPacked seg item = seg @ PutUint32 (of_nat (length item)) @ item"

definition decodeI64 :: "bytes \<Rightarrow> int" where
  "decodeI64 b = (if length b < 8 then 0 else int64_of (Uint64 b))"

definition decodeQueueItem :: "bytes \<Rightarrow> bytes option" where
  "decodeQueueItem out = (case out of [] \<Rightarrow> None | f # item \<Rightarrow> if f = 0 then None else Some item)"

section \<open>The operations\<close>

datatype queue_error = UnknownQueueOp bytes

definition val_or_nil :: "bytes option \<Rightarrow> bytes" where
  "val_or_nil v = (case v of None \<Rightarrow> [] | Some b \<Rightarrow> b)"

definition queueOp ::
  "bytes \<Rightarrow> bytes \<Rightarrow> bytes \<Rightarrow> (bytes \<Rightarrow> bytes \<Rightarrow> 't \<Rightarrow> bytes option) \<Rightarrow>
   (bytes \<Rightarrow> bytes \<Rightarrow> bytes \<Rightarrow> 't \<Rightarrow> 't) \<Rightarrow> (bytes \<Rightarrow> bytes \<Rightarrow> 't \<Rightarrow> 't) \<Rightarrow> 't \<Rightarrow> (queue_error + bytes) \<times> 't" where
  "queueOp name op arg getf setf delf t =
     (let metaKey = name;
          mv = getf queueMap metaKey t
      in case decodeQueueMeta (val_or_nil mv) of (head, tail, cnt) \<Rightarrow>
        if op = str ''queueoffer'' then
          (let sk = queueSegKey tail name;
               seg = (if cnt > 0 then val_or_nil (getf queueSegMap sk t) else []);
               (tail, sk, seg) =
                 (if length seg \<noteq> 0 \<and> length seg + 4 + length arg > maxSegBytes
                  then let tail = tail + 1; sk = queueSegKey tail name
                       in (tail, sk, val_or_nil (getf queueSegMap sk t))
                  else (tail, sk, seg));
               t = setf queueSegMap sk (appendPacked seg arg) t;
               cnt = cnt + 1;
               t = setf queueMap metaKey (encodeQueueMeta head tail cnt) t
           in (Inr (putI64 (int64_of cnt)), t))
        else if op = str ''queuepoll'' then
          (if mv = None \<or> cnt = 0 then (Inr [0], t)
           else let sk = queueSegKey head name in
             case getf queueSegMap sk t of
               None \<Rightarrow> (Inr [0], t)
             | Some seg \<Rightarrow>
                 (case queueHead seg of
                    None \<Rightarrow> (Inr [0], t)
                  | Some (item, rest) \<Rightarrow>
                      (let out = 1 # item;
                           cnt = cnt - 1;
                           (head, t) =
                             (if length rest = 0
                              then (if head < tail then head + 1 else head, delf queueSegMap sk t)
                              else (head, setf queueSegMap sk rest t));
                           t = setf queueMap metaKey (encodeQueueMeta head tail cnt) t
                       in (Inr out, t))))
        else if op = str ''queuepeek'' then
          (if mv = None \<or> cnt = 0 then (Inr [0], t)
           else case getf queueSegMap (queueSegKey head name) t of
                  None \<Rightarrow> (Inr [0], t)
                | Some seg \<Rightarrow>
                    (case queueHead seg of
                       None \<Rightarrow> (Inr [0], t)
                     | Some (item, _) \<Rightarrow> (Inr (1 # item), t)))
        else if op = str ''queuesize'' then (Inr (putI64 (int64_of cnt)), t)
        else (Inl (UnknownQueueOp op), t))"

section \<open>Loading snapshots and legacy queues\<close>

text \<open>
  The loop of \<open>convertLegacyQueue\<close> over its variables: the packed rest, the entries flushed so far,
  the segment id, the count and the open segment.
\<close>

definition flush :: "bytes \<Rightarrow> entry list \<Rightarrow> u64 \<Rightarrow> bytes \<Rightarrow> entry list" where
  "flush name out tail seg =
     (if length seg > 0
      then out @ [\<lparr>e_mapName = queueSegMap, e_key = queueSegKey tail name, e_value = seg, e_expireAt = 0\<rparr>]
      else out)"

function convert_loop ::
  "bytes \<Rightarrow> bytes \<Rightarrow> entry list \<Rightarrow> u64 \<Rightarrow> u64 \<Rightarrow> bytes \<Rightarrow> entry list \<times> u64 \<times> u64 \<times> bytes" where
  "convert_loop name packed out tail cnt seg =
     (case queueHead packed of
        None \<Rightarrow> (out, tail, cnt, seg)
      | Some (item, rest) \<Rightarrow>
          (if length seg \<noteq> 0 \<and> length seg + 4 + length item > maxSegBytes
           then convert_loop name rest (flush name out tail seg) (tail + 1) (cnt + 1) (appendPacked [] item)
           else convert_loop name rest out tail (cnt + 1) (appendPacked seg item)))"
  by pat_completeness auto
termination
  by (relation "measure (\<lambda>(_, packed, _). length packed)")
     (auto simp: queueHead_def Let_def split: if_splits)

declare convert_loop.simps [simp del]

definition convertLegacyQueue :: "bytes \<Rightarrow> bytes \<Rightarrow> entry list" where
  "convertLegacyQueue name packed =
     (case convert_loop name packed [] 0 0 [] of
        (out, tail, cnt, seg) \<Rightarrow>
          (let out = flush name out tail seg
           in if cnt = 0 then []
              else out @ [\<lparr>e_mapName = queueMap, e_key = name,
                           e_value = encodeQueueMeta 0 tail cnt, e_expireAt = 0\<rparr>]))"

definition legacy :: "entry \<Rightarrow> bool" where
  "legacy e \<longleftrightarrow> e_mapName e = queueMap \<and> length (e_value e) \<noteq> 24 \<and> length (e_value e) > 0"

lemma reserved_distinct [simp]: "queueMap \<noteq> queueSegMap" "queueSegMap \<noteq> queueMap"
  by (simp_all add: queueMap_def queueSegMap_def str_def)

lemma length_encodeQueueMeta [simp]: "length (encodeQueueMeta h t c) = 24"
  by (simp add: encodeQueueMeta_def)

lemma flush_not_legacy: "\<forall>e\<in>set out. \<not> legacy e \<Longrightarrow> \<forall>e\<in>set (flush name out tail seg). \<not> legacy e"
  by (auto simp: flush_def legacy_def)

lemma convert_loop_not_legacy:
  "\<forall>e\<in>set out. \<not> legacy e \<Longrightarrow> \<forall>e\<in>set (fst (convert_loop name packed out tail cnt seg)). \<not> legacy e"
proof (induction name packed out tail cnt seg rule: convert_loop.induct)
  case (1 name packed out tail cnt seg)
  then show ?case
    by (subst convert_loop.simps) (auto simp: flush_not_legacy split: option.splits)
qed

lemma convert_not_legacy:
  assumes "e \<in> set (convertLegacyQueue name packed)"
  shows "\<not> legacy e"
proof -
  obtain out tail cnt seg where l: "convert_loop name packed [] 0 0 [] = (out, tail, cnt, seg)"
    by (metis prod_cases4)
  have "\<forall>e\<in>set out. \<not> legacy e"
    using convert_loop_not_legacy [of "[]" name packed 0 0 "[]"] by (simp add: l)
  then have "\<forall>e\<in>set (flush name out tail seg). \<not> legacy e" by (rule flush_not_legacy)
  moreover have "e \<in> set (flush name out tail seg) \<or> length (e_value e) = 24"
    using assms by (auto simp: convertLegacyQueue_def l Let_def split: if_splits)
  ultimately show ?thesis by (auto simp: legacy_def)
qed

function loadAll :: "int \<Rightarrow> entry list \<Rightarrow> store \<Rightarrow> store" where
  "loadAll now [] s = s"
| "loadAll now (e # es) s =
     (if legacy e
      then loadAll now es (loadAll now (convertLegacyQueue (e_key e) (e_value e)) s)
      else loadAll now es
        (snd (store_put now (routedPartition (e_mapName e) (e_key e)) (e_mapName e) (e_key e)
           (e_value e) (e_expireAt e) s)))"
  by pat_completeness auto
termination
proof (relation "measures [\<lambda>(_, es, _). length (filter legacy es), \<lambda>(_, es, _). length es]")
  show "((now, convertLegacyQueue (e_key e) (e_value e), s), now, e # es, s)
    \<in> measures [\<lambda>(_, es, _). length (filter legacy es), \<lambda>(_, es, _). length es]" if "legacy e" for now e es s
  proof -
    have "filter legacy (convertLegacyQueue (e_key e) (e_value e)) = []"
      by (simp add: filter_empty_conv convert_not_legacy)
    with that show ?thesis by simp
  qed
qed auto

definition orderQueueMetaLast :: "entry list \<Rightarrow> entry list" where
  "orderQueueMetaLast entries =
     (case foldl (\<lambda>(ordered, metas) e.
         if e_mapName e = queueMap then (ordered, metas @ [e]) else (ordered @ [e], metas))
         ([], []) entries of
        (ordered, metas) \<Rightarrow> ordered @ metas)"

section \<open>Packed streams\<close>

definition item_ok :: "bytes \<Rightarrow> bool" where
  "item_ok x \<longleftrightarrow> length x + 4 < 2 ^ 32"

definition pack :: "bytes list \<Rightarrow> bytes" where
  "pack xs = concat (map (appendPacked []) xs)"

lemma pack_simps [simp]: "pack [] = []" "pack (x # xs) = appendPacked [] x @ pack xs"
  by (simp_all add: pack_def)

lemma pack_append [simp]: "pack (xs @ ys) = pack xs @ pack ys"
  by (simp add: pack_def)

lemma appendPacked_pack [simp]: "appendPacked (pack xs) x = pack (xs @ [x])"
  by (simp add: appendPacked_def)

lemma appendPacked_nonempty [simp]: "appendPacked seg x \<noteq> []"
  by (simp add: appendPacked_def)

lemma pack_eq_Nil [simp]: "pack xs = [] \<longleftrightarrow> xs = []"
  by (cases xs) simp_all

lemma item_ok_unat:
  assumes "item_ok x"
  shows "unat (of_nat (length x) :: u32) = length x" "unat (4 + of_nat (length x) :: u32) = 4 + length x"
proof -
  show n: "unat (of_nat (length x) :: u32) = length x"
    using assms by (simp add: item_ok_def unat_of_nat)
  show "unat (4 + of_nat (length x) :: u32) = 4 + length x"
    using assms by (simp add: unat_word_ariths n item_ok_def)
qed

lemma queueHead_pack:
  assumes "item_ok x"
  shows "queueHead (appendPacked [] x @ rest) = Some (x, rest)"
  using item_ok_unat [OF assms] by (simp add: queueHead_def appendPacked_def Let_def)

lemma queueHead_Nil [simp]: "queueHead [] = None"
  by (simp add: queueHead_def)

lemma queueCount_pack: "\<forall>x\<in>set xs. item_ok x \<Longrightarrow> queueCount (pack xs) = length xs"
proof (induction xs)
  case Nil
  then show ?case by (subst queueCount.simps) simp
next
  case (Cons x xs)
  then have "item_ok x" by simp
  from item_ok_unat [OF this] have "queueCount (appendPacked [] x @ pack xs) = Suc (queueCount (pack xs))"
    by (subst queueCount.simps) (simp add: appendPacked_def Let_def)
  with Cons show ?case by simp
qed

lemma decode_encode_meta [simp]: "decodeQueueMeta (encodeQueueMeta h t c) = (h, t, c)"
  by (simp add: decodeQueueMeta_def encodeQueueMeta_def)

section \<open>What \<open>queueOp\<close> can touch\<close>

text \<open>
  Every invariant that writes to the queue's own metadata and segments keep is kept by \<open>queueOp\<close>,
  whatever the accessors are.
\<close>

lemma queueOp_preserves:
  assumes "P t"
    and "\<And>i v t. P t \<Longrightarrow> P (setf queueSegMap (queueSegKey i name) v t)"
    and "\<And>v t. P t \<Longrightarrow> P (setf queueMap name v t)"
    and "\<And>i t. P t \<Longrightarrow> P (delf queueSegMap (queueSegKey i name) t)"
  shows "P (snd (queueOp name op arg getf setf delf t))"
  using assms(1) by (auto simp: queueOp_def Let_def assms(2-4) split: prod.splits option.splits if_splits)

section \<open>The abstract queue and its representation\<close>

datatype queue_call = Offer bytes | Poll | Peek | Size

fun fifo_call :: "queue_call \<Rightarrow> bytes list \<Rightarrow> (queue_error + bytes) \<times> bytes list" where
  "fifo_call (Offer x) q = (Inr (putI64 (int (length q) + 1)), q @ [x])"
| "fifo_call Poll [] = (Inr [0], [])"
| "fifo_call Poll (x # q) = (Inr (1 # x), q)"
| "fifo_call Peek [] = (Inr [0], [])"
| "fifo_call Peek (x # q) = (Inr (1 # x), x # q)"
| "fifo_call Size q = (Inr (putI64 (int (length q))), q)"

fun call_op :: "queue_call \<Rightarrow> bytes \<times> bytes" where
  "call_op (Offer x) = (str ''queueoffer'', x)"
| "call_op Poll = (str ''queuepoll'', [])"
| "call_op Peek = (str ''queuepeek'', [])"
| "call_op Size = (str ''queuesize'', [])"

text \<open>
  \<open>queue_rep g name q b\<close>: the entries \<open>g\<close> represent the queue \<open>q\<close>, and the 64-bit segment ids and
  element count have room for \<open>b\<close> more operations.
\<close>

definition segf :: "(bytes \<Rightarrow> bytes \<Rightarrow> bytes option) \<Rightarrow> bytes \<Rightarrow> nat \<Rightarrow> bytes option" where
  "segf g name i = g queueSegMap (queueSegKey (of_nat i) name)"

definition chain :: "(nat \<Rightarrow> bytes option) \<Rightarrow> nat \<Rightarrow> bytes list list \<Rightarrow> bool" where
  "chain sg head segs \<longleftrightarrow> (\<forall>i < length segs. segs ! i \<noteq> [] \<and> sg (head + i) = Some (pack (segs ! i)))"

definition queue_at ::
  "(bytes \<Rightarrow> bytes \<Rightarrow> bytes option) \<Rightarrow> bytes \<Rightarrow> bytes list list \<Rightarrow> nat \<Rightarrow> nat \<Rightarrow> nat \<Rightarrow> bool" where
  "queue_at g name segs head tail b \<longleftrightarrow>
     decodeQueueMeta (val_or_nil (g queueMap name)) = (of_nat head, of_nat tail, of_nat (length (concat segs))) \<and>
     tail + b < 2 ^ 64 \<and> length (concat segs) + b < 2 ^ 64 \<and>
     tail = head + (length segs - 1) \<and>
     (\<forall>x \<in> set (concat segs). item_ok x) \<and>
     chain (segf g name) head segs \<and>
     (\<forall>i > tail. i < 2 ^ 64 \<longrightarrow> val_or_nil (segf g name i) = [])"

definition queue_rep :: "(bytes \<Rightarrow> bytes \<Rightarrow> bytes option) \<Rightarrow> bytes \<Rightarrow> bytes list \<Rightarrow> nat \<Rightarrow> bool" where
  "queue_rep g name q b \<longleftrightarrow> (\<exists>segs head tail. q = concat segs \<and> queue_at g name segs head tail b)"

lemma queue_repI: "queue_at g name segs head tail b \<Longrightarrow> concat segs = q \<Longrightarrow> queue_rep g name q b"
  by (auto simp: queue_rep_def)

lemma unat_of_nat_u64: "i < 2 ^ 64 \<Longrightarrow> unat (of_nat i :: u64) = i"
  by (simp add: unat_of_nat)

lemma of_nat_u64_eq: "i < 2 ^ 64 \<Longrightarrow> j < 2 ^ 64 \<Longrightarrow> (of_nat i :: u64) = of_nat j \<longleftrightarrow> i = j"
  by (metis unat_of_nat_u64)

lemma of_nat_u64_0: "i < 2 ^ 64 \<Longrightarrow> (of_nat i :: u64) = 0 \<longleftrightarrow> i = 0"
  using of_nat_u64_eq [of i 0] by simp

lemma of_nat_u64_less: "i < 2 ^ 64 \<Longrightarrow> j < 2 ^ 64 \<Longrightarrow> (of_nat i :: u64) < of_nat j \<longleftrightarrow> i < j"
  by (simp add: word_less_nat_alt unat_of_nat_u64)

lemma putI64_u64 [simp]: "putI64 (int64_of w) = PutUint64 w" "putI64 (int n) = PutUint64 (of_nat n)"
  by (simp_all add: putI64_def int64_of_def)

lemma queueSegKey_inject [simp]: "queueSegKey i n = queueSegKey j n' \<longleftrightarrow> i = j \<and> n = n'"
  by (simp add: queueSegKey_def)

lemma chain_Nil [simp]: "chain sg head []"
  by (simp add: chain_def)

lemma chain_Cons: "chain sg head (s # ss) \<longleftrightarrow> s \<noteq> [] \<and> sg head = Some (pack s) \<and> chain sg (Suc head) ss"
  by (auto simp: chain_def nth_Cons split: nat.splits)

lemma chain_snoc: "chain sg head (ss @ [s]) \<longleftrightarrow> chain sg head ss \<and> s \<noteq> [] \<and> sg (head + length ss) = Some (pack s)"
  by (auto simp: chain_def nth_append less_Suc_eq)

lemma chain_cong:
  "(\<And>i. head \<le> i \<Longrightarrow> i < head + length segs \<Longrightarrow> sg i = sg' i) \<Longrightarrow> chain sg head segs = chain sg' head segs"
  by (simp add: chain_def)

lemma val_or_nil_simps [simp]: "val_or_nil None = []" "val_or_nil (Some b) = b"
  by (simp_all add: val_or_nil_def)

lemma op_names [simp]:
  "str ''queuepoll'' \<noteq> str ''queueoffer''" "str ''queuepeek'' \<noteq> str ''queueoffer''"
  "str ''queuesize'' \<noteq> str ''queueoffer''" "str ''queuepeek'' \<noteq> str ''queuepoll''"
  "str ''queuesize'' \<noteq> str ''queuepoll''" "str ''queuesize'' \<noteq> str ''queuepeek''"
  by (simp_all add: str_def)

lemma queueOp_poll:
  assumes "decodeQueueMeta (val_or_nil (getf queueMap name t)) = (h, tid, c)"
    "getf queueMap name t \<noteq> None" "c \<noteq> 0" "getf queueSegMap (queueSegKey h name) t = Some seg"
    "queueHead seg = Some (item, rest)"
  shows "queueOp name (str ''queuepoll'') arg getf setf delf t =
    (Inr (1 # item),
     setf queueMap name (encodeQueueMeta (if rest = [] \<and> h < tid then h + 1 else h) tid (c - 1))
       (if rest = [] then delf queueSegMap (queueSegKey h name) t
        else setf queueSegMap (queueSegKey h name) rest t))"
  using assms by (simp add: queueOp_def Let_def)

locale accessors =
  fixes getf :: "bytes \<Rightarrow> bytes \<Rightarrow> 't \<Rightarrow> bytes option"
    and setf :: "bytes \<Rightarrow> bytes \<Rightarrow> bytes \<Rightarrow> 't \<Rightarrow> 't"
    and delf :: "bytes \<Rightarrow> bytes \<Rightarrow> 't \<Rightarrow> 't"
  assumes get_set: "getf n k (setf n' k' v t) = (if n = n' \<and> k = k' then Some v else getf n k t)"
    and get_del: "getf n k (delf n' k' t) = (if n = n' \<and> k = k' then None else getf n k t)"
begin

abbreviation view :: "'t \<Rightarrow> bytes \<Rightarrow> bytes \<Rightarrow> bytes option" where
  "view t \<equiv> (\<lambda>n k. getf n k t)"

lemma segf_set:
  "i < 2 ^ 64 \<Longrightarrow> j < 2 ^ 64 \<Longrightarrow>
    segf (view (setf queueSegMap (queueSegKey (of_nat j) name) v t)) name i =
    (if i = j then Some v else segf (view t) name i)"
  by (simp add: segf_def get_set of_nat_u64_eq)

lemma segf_del:
  "i < 2 ^ 64 \<Longrightarrow> j < 2 ^ 64 \<Longrightarrow>
    segf (view (delf queueSegMap (queueSegKey (of_nat j) name) t)) name i =
    (if i = j then None else segf (view t) name i)"
  by (simp add: segf_def get_del of_nat_u64_eq)

lemma segf_meta: "segf (view (setf queueMap k v t)) name = segf (view t) name"
  by (simp add: segf_def get_set fun_eq_iff)

lemma meta_set: "decodeQueueMeta (val_or_nil (getf queueMap name (setf queueMap name (encodeQueueMeta h tid c) t))) = (h, tid, c)"
  by (simp add: get_set)

lemma seg_at: "segf (view t) name i = Some v \<Longrightarrow> getf queueSegMap (queueSegKey (of_nat i) name) t = Some v"
  by (simp add: segf_def)

lemma offer_fresh:
  assumes "queue_at (view t) name [] head tail (Suc b)" "item_ok x"
  defines "r \<equiv> queueOp name (str ''queueoffer'') x getf setf delf t"
  shows "fst r = Inr (PutUint64 1)" "queue_at (view (snd r)) name [[x]] head tail b"
proof -
  let ?t = "setf queueMap name (encodeQueueMeta (of_nat head) (of_nat tail) 1)
    (setf queueSegMap (queueSegKey (of_nat tail) name) (pack [x]) t)"
  have r: "r = (Inr (PutUint64 1), ?t)"
    using assms(1) by (simp add: r_def queueOp_def queue_at_def)
  then show "fst r = Inr (PutUint64 1)" by simp
  have "tail < 2 ^ 64" using assms(1) by (simp add: queue_at_def)
  then have "segf (view ?t) name i = (if i = tail then Some (pack [x]) else segf (view t) name i)" if "i < 2 ^ 64" for i
    using that by (simp only: segf_meta segf_set)
  then show "queue_at (view (snd r)) name [[x]] head tail b"
    using assms(1,2) unfolding r snd_conv queue_at_def meta_set by (auto simp: chain_Cons)
qed

lemma offer_append:
  assumes "queue_at (view t) name (ss @ [s]) head tail (Suc b)" "item_ok x"
    and fits: "length (pack s) + 4 + length x \<le> maxSegBytes"
  defines "r \<equiv> queueOp name (str ''queueoffer'') x getf setf delf t"
  shows "fst r = Inr (PutUint64 (of_nat (length (concat (ss @ [s]))) + 1))"
    "queue_at (view (snd r)) name (ss @ [s @ [x]]) head tail b"
proof -
  let ?n = "of_nat (length (concat (ss @ [s]))) :: u64"
  let ?t = "setf queueMap name (encodeQueueMeta (of_nat head) (of_nat tail) (?n + 1))
    (setf queueSegMap (queueSegKey (of_nat tail) name) (pack (s @ [x])) t)"
  have tail: "tail = head + length ss" "tail < 2 ^ 64" and s: "s \<noteq> []" "segf (view t) name tail = Some (pack s)"
    and c: "chain (segf (view t) name) head ss"
    using assms(1) by (auto simp: queue_at_def chain_snoc)
  have "?n \<noteq> 0" using assms(1) s(1) by (subst of_nat_u64_0) (auto simp: queue_at_def)
  then have r: "r = (Inr (PutUint64 (?n + 1)), ?t)"
    using assms(1) fits seg_at [OF s(2)] appendPacked_pack [of s x]
    by (simp add: r_def queueOp_def queue_at_def Let_def word_gt_0)
  then show "fst r = Inr (PutUint64 (?n + 1))" by simp
  have sg: "segf (view ?t) name i = (if i = tail then Some (pack (s @ [x])) else segf (view t) name i)" if "i < 2 ^ 64" for i
    using that tail(2) by (simp only: segf_meta segf_set)
  have "chain (segf (view ?t) name) head ss"
    using c chain_cong [of head ss "segf (view ?t) name" "segf (view t) name"] sg tail by auto
  with sg show "queue_at (view (snd r)) name (ss @ [s @ [x]]) head tail b"
    using assms(1,2) tail unfolding r snd_conv queue_at_def meta_set by (auto simp: chain_snoc)
qed

lemma offer_roll:
  assumes "queue_at (view t) name (ss @ [s]) head tail (Suc b)" "item_ok x"
    and full: "length (pack s) + 4 + length x > maxSegBytes"
  defines "r \<equiv> queueOp name (str ''queueoffer'') x getf setf delf t"
  shows "fst r = Inr (PutUint64 (of_nat (length (concat (ss @ [s]))) + 1))"
    "queue_at (view (snd r)) name (ss @ [s, [x]]) head (Suc tail) b"
proof -
  let ?n = "of_nat (length (concat (ss @ [s]))) :: u64"
  let ?t = "setf queueMap name (encodeQueueMeta (of_nat head) (of_nat (Suc tail)) (?n + 1))
    (setf queueSegMap (queueSegKey (of_nat (Suc tail)) name) (pack [x]) t)"
  have tail: "tail = head + length ss" "Suc tail < 2 ^ 64" and s: "s \<noteq> []" "segf (view t) name tail = Some (pack s)"
    and c: "chain (segf (view t) name) head (ss @ [s])" and e: "val_or_nil (segf (view t) name (Suc tail)) = []"
    using assms(1) by (auto simp: queue_at_def chain_snoc)
  have "?n \<noteq> 0" using assms(1) s(1) by (subst of_nat_u64_0) (auto simp: queue_at_def)
  moreover have "(of_nat tail + 1 :: u64) = of_nat (Suc tail)" by simp
  ultimately have r: "r = (Inr (PutUint64 (?n + 1)), ?t)"
    using assms(1) full seg_at [OF s(2)] s(1) e
    by (simp add: r_def queueOp_def queue_at_def Let_def word_gt_0 segf_def del: of_nat_Suc)
  then show "fst r = Inr (PutUint64 (?n + 1))" by simp
  have sg: "segf (view ?t) name i = (if i = Suc tail then Some (pack [x]) else segf (view t) name i)" if "i < 2 ^ 64" for i
    using that tail(2) by (simp only: segf_meta segf_set)
  have "chain (segf (view ?t) name) head (ss @ [s])"
    using c chain_cong [of head "ss @ [s]" "segf (view ?t) name" "segf (view t) name"] sg tail by auto
  with sg have "chain (segf (view ?t) name) head ((ss @ [s]) @ [[x]])"
    using tail unfolding chain_snoc [of _ _ "ss @ [s]"] by simp
  with sg show "queue_at (view (snd r)) name (ss @ [s, [x]]) head (Suc tail) b"
    using assms(1,2) tail unfolding r snd_conv queue_at_def meta_set by auto
qed

lemma nonempty_meta:
  assumes "queue_at (view t) name (s # ss) head tail b"
  shows "getf queueMap name t \<noteq> None" "(of_nat (length (concat (s # ss))) :: u64) \<noteq> 0"
    "getf queueSegMap (queueSegKey (of_nat head) name) t = Some (pack s)"
proof -
  have "s \<noteq> []" "segf (view t) name head = Some (pack s)"
    using assms by (auto simp: queue_at_def chain_Cons)
  then show "getf queueSegMap (queueSegKey (of_nat head) name) t = Some (pack s)"
    and n: "(of_nat (length (concat (s # ss))) :: u64) \<noteq> 0"
    using assms by (simp add: seg_at, subst of_nat_u64_0) (auto simp: queue_at_def)
  show "getf queueMap name t \<noteq> None"
  proof
    assume "getf queueMap name t = None"
    with assms have "(of_nat (length (concat (s # ss))) :: u64) = 0"
      by (simp add: queue_at_def decodeQueueMeta_def)
    with n show False by contradiction
  qed
qed

lemma poll_rest:
  assumes at: "queue_at (view t) name ((x # s) # ss) head tail (Suc b)" and s: "s \<noteq> []"
  fixes arg defines "r \<equiv> queueOp name (str ''queuepoll'') arg getf setf delf t"
  shows "fst r = Inr (1 # x)" "queue_at (view (snd r)) name (s # ss) head tail b"
proof -
  let ?n = "length (concat (s # ss))"
  let ?t = "setf queueMap name (encodeQueueMeta (of_nat head) (of_nat tail) (of_nat ?n))
    (setf queueSegMap (queueSegKey (of_nat head) name) (pack s) t)"
  note m = nonempty_meta [OF at]
  have x: "queueHead (pack (x # s)) = Some (x, pack s)"
    using at by (simp add: queueHead_pack queue_at_def)
  have h: "head < 2 ^ 64" and tl: "tail < 2 ^ 64" "tail = head + length ss"
    and c: "chain (segf (view t) name) (Suc head) ss"
    using at by (auto simp: queue_at_def chain_Cons)
  have r: "r = (Inr (1 # x), ?t)"
    unfolding r_def using at s
    by (subst queueOp_poll [where getf = getf and name = name and t = t, OF _ m(1) m(2) m(3) x]) (auto simp: queue_at_def)
  then show "fst r = Inr (1 # x)" by simp
  have sg: "segf (view ?t) name i = (if i = head then Some (pack s) else segf (view t) name i)" if "i < 2 ^ 64" for i
    using that h by (simp only: segf_meta segf_set)
  have "chain (segf (view ?t) name) (Suc head) ss"
    using c chain_cong [of "Suc head" ss "segf (view ?t) name" "segf (view t) name"] sg tl by auto
  with sg show "queue_at (view (snd r)) name (s # ss) head tail b"
    using at s tl h unfolding r snd_conv queue_at_def meta_set by (auto simp: chain_Cons)
qed

lemma poll_drain:
  assumes at: "queue_at (view t) name ([x] # ss) head tail (Suc b)"
  fixes arg defines "r \<equiv> queueOp name (str ''queuepoll'') arg getf setf delf t"
  shows "fst r = Inr (1 # x)"
    "queue_at (view (snd r)) name ss (if ss = [] then head else Suc head) tail b"
proof -
  let ?n = "length (concat ss)" and ?h = "if ss = [] then head else Suc head"
  let ?t = "setf queueMap name (encodeQueueMeta (of_nat ?h) (of_nat tail) (of_nat ?n))
    (delf queueSegMap (queueSegKey (of_nat head) name) t)"
  note m = nonempty_meta [OF at]
  have x: "queueHead (pack [x]) = Some (x, [])"
    using at queueHead_pack [of x "[]"] by (simp add: queue_at_def)
  have h: "head < 2 ^ 64" and tl: "tail < 2 ^ 64" "tail = head + length ss"
    and c: "chain (segf (view t) name) (Suc head) ss"
    using at by (auto simp: queue_at_def chain_Cons)
  have "(of_nat head :: u64) < of_nat tail \<longleftrightarrow> ss \<noteq> []"
    unfolding of_nat_u64_less [OF h tl(1)] using tl(2) by simp
  then have r: "r = (Inr (1 # x), ?t)"
    unfolding r_def using at
    by (subst queueOp_poll [where getf = getf and name = name and t = t, OF _ m(1) m(2) m(3) x]) (auto simp: queue_at_def add.commute)
  then show "fst r = Inr (1 # x)" by simp
  have sg: "segf (view ?t) name i = (if i = head then None else segf (view t) name i)" if "i < 2 ^ 64" for i
    using that h by (simp only: segf_meta segf_del)
  have "chain (segf (view ?t) name) (Suc head) ss"
    using c chain_cong [of "Suc head" ss "segf (view ?t) name" "segf (view t) name"] sg tl by auto
  with sg show "queue_at (view (snd r)) name ss ?h tail b"
    using at tl h unfolding r snd_conv queue_at_def meta_set by auto
qed

lemma queue_at_less: "queue_at g name segs head tail (Suc b) \<Longrightarrow> queue_at g name segs head tail b"
  by (simp add: queue_at_def)

lemma empty_reads:
  assumes "queue_at (view t) name [] head tail b"
  shows "queueOp name (str ''queuepoll'') arg getf setf delf t = (Inr [0], t)"
    "queueOp name (str ''queuepeek'') arg getf setf delf t = (Inr [0], t)"
  using assms by (simp_all add: queueOp_def queue_at_def Let_def str_def)

lemma peek_head:
  assumes "queue_at (view t) name ((x # s) # ss) head tail b"
  shows "queueOp name (str ''queuepeek'') arg getf setf delf t = (Inr (1 # x), t)"
proof -
  have "queueHead (pack (x # s)) = Some (x, pack s)"
    using assms by (simp add: queueHead_pack queue_at_def)
  with assms nonempty_meta [OF assms] show ?thesis
    by (simp add: queueOp_def queue_at_def Let_def str_def split: option.splits)
qed

lemma size_count:
  assumes "queue_at (view t) name segs head tail b"
  shows "queueOp name (str ''queuesize'') arg getf setf delf t = (Inr (PutUint64 (of_nat (length (concat segs)))), t)"
  using assms by (simp add: queueOp_def queue_at_def Let_def str_def)

lemma offer_refines:
  assumes "queue_at (view t) name segs head tail (Suc b)" "item_ok x"
  shows "fst (queueOp name (str ''queueoffer'') x getf setf delf t) = Inr (PutUint64 (of_nat (length (concat segs)) + 1)) \<and>
    queue_rep (view (snd (queueOp name (str ''queueoffer'') x getf setf delf t))) name (concat segs @ [x]) b"
proof (cases segs rule: rev_cases)
  case Nil
  note a = assms(1) [unfolded Nil]
  from offer_fresh(1) [OF a assms(2)] queue_repI [OF offer_fresh(2) [OF a assms(2)]] show ?thesis
    by (simp add: Nil)
next
  case (snoc ss s)
  note a = assms(1) [unfolded snoc]
  show ?thesis
  proof (cases "length (pack s) + 4 + length x \<le> maxSegBytes")
    case True
    from offer_append(1) [OF a assms(2) True] queue_repI [OF offer_append(2) [OF a assms(2) True]]
    show ?thesis by (simp add: snoc)
  next
    case False
    then have f: "length (pack s) + 4 + length x > maxSegBytes" by simp
    from offer_roll(1) [OF a assms(2) f] queue_repI [OF offer_roll(2) [OF a assms(2) f]]
    show ?thesis by (simp add: snoc)
  qed
qed

lemma poll_refines:
  assumes "queue_at (view t) name segs head tail (Suc b)"
  shows "fst (queueOp name (str ''queuepoll'') arg getf setf delf t) = fst (fifo_call Poll (concat segs)) \<and>
    queue_rep (view (snd (queueOp name (str ''queuepoll'') arg getf setf delf t))) name (snd (fifo_call Poll (concat segs))) b"
proof (cases segs)
  case Nil
  note a = assms [unfolded Nil]
  from empty_reads(1) [OF a, of arg] queue_repI [OF queue_at_less [OF a]] show ?thesis by (simp add: Nil)
next
  case (Cons s ss)
  with assms obtain x s' where s: "s = x # s'" by (cases s) (auto simp: queue_at_def chain_Cons)
  note a = assms [unfolded Cons s]
  show ?thesis
  proof (cases "s' = []")
    case True
    from poll_drain(1) [OF a [unfolded True], of arg] queue_repI [OF poll_drain(2) [OF a [unfolded True], of arg]]
    show ?thesis by (simp add: Cons s True)
  next
    case False
    from poll_rest(1) [OF a False, of arg] queue_repI [OF poll_rest(2) [OF a False, of arg]]
    show ?thesis by (simp add: Cons s)
  qed
qed

lemma peek_refines:
  assumes "queue_at (view t) name segs head tail (Suc b)"
  shows "queueOp name (str ''queuepeek'') arg getf setf delf t = (fst (fifo_call Peek (concat segs)), t)"
proof (cases segs)
  case Nil
  with empty_reads(2) assms show ?thesis by simp
next
  case (Cons s ss)
  with assms obtain x s' where s: "s = x # s'" by (cases s) (auto simp: queue_at_def chain_Cons)
  from peek_head [OF assms [unfolded Cons s]] show ?thesis by (simp add: Cons s)
qed

lemma queueOp_refines:
  assumes "queue_rep (view t) name q (Suc b)" "\<And>x. c = Offer x \<Longrightarrow> item_ok x"
  shows "fst (queueOp name (fst (call_op c)) (snd (call_op c)) getf setf delf t) = fst (fifo_call c q) \<and>
    queue_rep (view (snd (queueOp name (fst (call_op c)) (snd (call_op c)) getf setf delf t))) name (snd (fifo_call c q)) b"
proof -
  from assms(1) obtain segs head tail where q: "q = concat segs"
    and a: "queue_at (view t) name segs head tail (Suc b)" by (auto simp: queue_rep_def)
  have r: "queue_rep (view t) name q b" using queue_at_less [OF a] q by (auto simp: queue_rep_def)
  show ?thesis
  proof (cases c)
    case (Offer x)
    with offer_refines [OF a] assms(2) show ?thesis
      by (simp add: q putI64_def)
  next
    case Poll
    with poll_refines [OF a] show ?thesis by (simp add: q)
  next
    case Peek
    have "snd (fifo_call Peek q) = q" by (cases q) simp_all
    with Peek peek_refines [OF a] r show ?thesis by (simp add: q)
  next
    case Size
    with size_count [OF a] r show ?thesis by (simp add: q)
  qed
qed

end

section \<open>The store implements the queue\<close>

lemma tx_get_set:
  "tx_get now n k (tx_set n' k' v tx) = (if n = n' \<and> k = k' then Some v else tx_get now n k tx)"
  using tx_set_lookup [of n' k' v tx n k]
  by (cases "tx_set n' k' v tx"; cases tx) (auto simp: tx_get_live live_def expired_def)

lemma tx_get_del:
  "tx_get now n k (tx_del n' k' tx) = (if n = n' \<and> k = k' then None else tx_get now n k tx)"
  using tx_del_lookup [of n' k' tx n k]
  by (cases "tx_del n' k' tx"; cases tx) (auto simp: tx_get_live live_def)

interpretation tx: accessors "tx_get now" tx_set tx_del for now
  by unfold_locales (simp_all add: tx_get_set tx_get_del)

text \<open>Queue entries carry no expiry, so what an operation reads does not depend on the clock.\<close>

definition steady :: "shard \<Rightarrow> bool" where
  "steady sh \<longleftrightarrow> (\<forall>n k v. IsReservedMap n \<longrightarrow> shard_lookup sh n k = Some v \<longrightarrow> v_expireAt v = 0)"

definition raw :: "shard \<Rightarrow> bytes \<Rightarrow> bytes \<Rightarrow> bytes option" where
  "raw sh n k = map_option v_data (shard_lookup sh n k)"

definition queue_state :: "store \<Rightarrow> nat \<Rightarrow> bytes \<Rightarrow> bytes list \<Rightarrow> nat \<Rightarrow> bool" where
  "queue_state s p name q b \<longleftrightarrow> steady (s p) \<and> queue_rep (raw (s p)) name q b"

text \<open>One call on the owner: the clock reading and the operation.\<close>

definition queue_store_call :: "nat \<Rightarrow> bytes \<Rightarrow> int \<times> queue_call \<Rightarrow> store \<Rightarrow> (queue_error + bytes) \<times> store" where
  "queue_store_call p name c s =
     (case updateMulti p (queueOp name (fst (call_op (snd c))) (snd (call_op (snd c)))
         (tx_get (fst c)) tx_set tx_del) s of
        (r, muts, s') \<Rightarrow> (r, s'))"

lemma reserved [simp]: "IsReservedMap queueMap" "IsReservedMap queueSegMap"
  by (simp_all add: IsReservedMap_def)

lemma queue_rep_cong:
  "(\<And>n k. IsReservedMap n \<Longrightarrow> g n k = g' n k) \<Longrightarrow> queue_rep g name q b = queue_rep g' name q b"
  by (simp add: queue_rep_def queue_at_def segf_def [abs_def])

lemma steady_get: "steady sh \<Longrightarrow> IsReservedMap n \<Longrightarrow> tx_get now n k (sh, muts) = raw sh n k"
  by (auto simp: tx_get_live raw_def steady_def live_def expired_def split: option.splits)

lemma steady_queueOp:
  assumes "steady sh"
  shows "steady (fst (snd (queueOp name op arg getf tx_set tx_del (sh, muts))))"
proof -
  have "(\<lambda>tx. steady (fst tx)) (snd (queueOp name op arg getf tx_set tx_del (sh, muts)))"
    by (rule queueOp_preserves)
       (use assms in \<open>auto simp: steady_def tx_set_lookup tx_del_lookup split: if_splits\<close>)
  then show ?thesis .
qed

lemma queue_store_call_refines:
  assumes "queue_state s p name q (Suc b)" "\<And>x. snd c = Offer x \<Longrightarrow> item_ok x"
  shows "fst (queue_store_call p name c s) = fst (fifo_call (snd c) q) \<and>
    queue_state (snd (queue_store_call p name c s)) p name (snd (fifo_call (snd c) q)) b"
proof -
  obtain now c' where c: "c = (now, c')" by force
  let ?r = "queueOp name (fst (call_op c')) (snd (call_op c')) (tx_get now) tx_set tx_del (s p, [])"
  have st: "steady (s p)" and "queue_rep (raw (s p)) name q (Suc b)"
    using assms(1) by (simp_all add: queue_state_def)
  then have "queue_rep (\<lambda>n k. tx_get now n k (s p, [])) name q (Suc b)"
    using queue_rep_cong [of "\<lambda>n k. tx_get now n k (s p, [])" "raw (s p)"] by (simp add: steady_get)
  from tx.queueOp_refines [OF this, of c'] assms(2) c
  have r: "fst ?r = fst (fifo_call c' q)" "queue_rep (\<lambda>n k. tx_get now n k (snd ?r)) name (snd (fifo_call c' q)) b"
    by auto
  have st': "steady (fst (snd ?r))" using st by (rule steady_queueOp)
  then have "queue_rep (raw (fst (snd ?r))) name (snd (fifo_call c' q)) b"
    using r(2) queue_rep_cong [of "\<lambda>n k. tx_get now n k (snd ?r)" "raw (fst (snd ?r))"]
      steady_get [OF st', of _ now _ "snd (snd ?r)"] by simp
  with st' r(1) show ?thesis
    by (simp add: queue_store_call_def updateMulti_def queue_state_def c case_prod_beta)
qed

text \<open>
  C1: The queue is a total FIFO. Every sequence of offer, poll, peek and size operations executed on
  the owner returns exactly what an abstract list queue returns, at whatever times they run, and the
  stored metadata and segments represent the abstract queue afterwards, as long as the 64-bit ids
  and counts have room for the operations and each item fits its 32-bit length prefix.
\<close>

theorem queue_fifo:
  assumes "queue_state s p name q (length cs + b)" "\<forall>now x. (now, Offer x) \<in> set cs \<longrightarrow> item_ok x"
  shows "fst (run_calls (queue_store_call p name) cs s) = fst (run_calls fifo_call (map snd cs) q) \<and>
    queue_state (snd (run_calls (queue_store_call p name) cs s)) p name
      (snd (run_calls fifo_call (map snd cs) q)) b"
  using assms
proof (induction cs arbitrary: s q)
  case (Cons c cs)
  have "\<And>x. snd c = Offer x \<Longrightarrow> item_ok x" using Cons.prems(2) by (cases c) auto
  from queue_store_call_refines [OF _ this, of s p name q "length cs + b"] Cons.prems(1)
  have "fst (queue_store_call p name c s) = fst (fifo_call (snd c) q)"
    "queue_state (snd (queue_store_call p name c s)) p name (snd (fifo_call (snd c) q)) (length cs + b)"
    by simp_all
  with Cons.IH Cons.prems(2) show ?case by simp
qed simp

lemma queue_state_newStore: "b < 2 ^ 64 \<Longrightarrow> queue_state newStore p name [] b"
proof -
  assume "b < 2 ^ 64"
  then have "queue_at (raw (newStore p)) name [] 0 0 b"
    by (simp add: queue_at_def raw_def newStore_def decodeQueueMeta_def segf_def)
  then have "queue_rep (raw (newStore p)) name [] b" by (rule queue_repI) simp
  then show ?thesis by (simp add: queue_state_def steady_def newStore_def)
qed

definition queue_demo :: "(int \<times> queue_call) list" where
  "queue_demo = [(1, Offer [7, 8]), (2, Offer [9]), (3, Poll), (4, Size), (5, Poll), (6, Poll)]"

theorem queue_fifo_witness:
  "fst (run_calls (queue_store_call 5 (str ''q'')) queue_demo newStore) =
   [Inr (putI64 1), Inr (putI64 2), Inr [1, 7, 8], Inr (putI64 1), Inr [1, 9], Inr [0]]"
proof -
  have "queue_state newStore 5 (str ''q'') [] (length queue_demo + 0)"
    by (rule queue_state_newStore) (simp add: queue_demo_def)
  moreover have "\<forall>now x. (now, Offer x) \<in> set queue_demo \<longrightarrow> item_ok x"
    by (auto simp: queue_demo_def item_ok_def)
  moreover have "fst (run_calls fifo_call (map snd queue_demo) []) =
      [Inr (putI64 1), Inr (putI64 2), Inr [1, 7, 8], Inr (putI64 1), Inr [1, 9], Inr [0]]"
    by (simp add: queue_demo_def)
  ultimately show ?thesis using queue_fifo [of newStore 5 "str ''q''" "[]" queue_demo 0] by simp
qed

section \<open>The mutation log of an operation\<close>

text \<open>What one recorded mutation does to the entries of a replica.\<close>

definition mut_apply ::
  "(bytes \<Rightarrow> bytes \<Rightarrow> value_t option) \<Rightarrow> mutation \<Rightarrow> bytes \<Rightarrow> bytes \<Rightarrow> value_t option" where
  "mut_apply g m = (\<lambda>n k.
     if n = m_mapName m \<and> k = m_key m
     then (if m_del m then None else Some \<lparr>v_data = m_value m, v_expireAt = 0\<rparr>) else g n k)"

definition own_mutation :: "bytes \<Rightarrow> mutation \<Rightarrow> bool" where
  "own_mutation name m \<longleftrightarrow>
     m_mapName m = queueMap \<and> m_key m = name \<or>
     m_mapName m = queueSegMap \<and> (\<exists>i. m_key m = queueSegKey i name)"

lemma queueOp_log:
  fixes sh :: shard and name op arg getf
  defines "tx \<equiv> snd (queueOp name op arg getf tx_set tx_del (sh, []))"
  shows "shard_lookup (fst tx) = foldl mut_apply (shard_lookup sh) (snd tx)"
    "m \<in> set (snd tx) \<Longrightarrow> own_mutation name m"
proof -
  have "(\<lambda>tx. shard_lookup (fst tx) = foldl mut_apply (shard_lookup sh) (snd tx) \<and>
      (\<forall>m \<in> set (snd tx). own_mutation name m)) tx"
    unfolding tx_def
  proof (rule queueOp_preserves)
    fix i v and t :: txn
    assume t: "shard_lookup (fst t) = foldl mut_apply (shard_lookup sh) (snd t) \<and> (\<forall>m \<in> set (snd t). own_mutation name m)"
    have set_log: "snd (tx_set n k v t) = snd t @ [\<lparr>m_mapName = n, m_key = k, m_value = v, m_del = False\<rparr>]" for n k
      by (simp add: tx_set_def split: prod.splits)
    have set_ok: "shard_lookup (fst (tx_set n k v t)) = foldl mut_apply (shard_lookup sh) (snd (tx_set n k v t))" for n k
      using t by (simp add: set_log mut_apply_def tx_set_lookup fun_eq_iff)
    show "shard_lookup (fst (tx_set queueSegMap (queueSegKey i name) v t)) =
        foldl mut_apply (shard_lookup sh) (snd (tx_set queueSegMap (queueSegKey i name) v t)) \<and>
      (\<forall>m \<in> set (snd (tx_set queueSegMap (queueSegKey i name) v t)). own_mutation name m)"
      using t set_ok by (auto simp: set_log own_mutation_def)
    show "shard_lookup (fst (tx_set queueMap name v t)) =
        foldl mut_apply (shard_lookup sh) (snd (tx_set queueMap name v t)) \<and>
      (\<forall>m \<in> set (snd (tx_set queueMap name v t)). own_mutation name m)"
      using t set_ok by (auto simp: set_log own_mutation_def)
    have del_log: "snd (tx_del n k t) = snd t @ [\<lparr>m_mapName = n, m_key = k, m_value = [], m_del = True\<rparr>]" for n k
      by (simp add: tx_del_def split: prod.splits)
    show "shard_lookup (fst (tx_del queueSegMap (queueSegKey i name) t)) =
        foldl mut_apply (shard_lookup sh) (snd (tx_del queueSegMap (queueSegKey i name) t)) \<and>
      (\<forall>m \<in> set (snd (tx_del queueSegMap (queueSegKey i name) t)). own_mutation name m)"
      using t by (auto simp: del_log mut_apply_def tx_del_lookup fun_eq_iff own_mutation_def)
  qed simp
  then show "shard_lookup (fst tx) = foldl mut_apply (shard_lookup sh) (snd tx)"
    "m \<in> set (snd tx) \<Longrightarrow> own_mutation name m" by auto
qed

lemma own_mutation_routed: "own_mutation name m \<Longrightarrow> routedPartition (m_mapName m) (m_key m) = For name"
  by (auto simp: own_mutation_def routedPartition_def queueSegKey_def)

section \<open>A replica that lags by one metadata write\<close>

text \<open>
  The mutations of an offer reach a backup one by one, the segment before the metadata. \<open>lag_store\<close>
  is a backup that received both mutations of a first offer and only the segment of a second one.
\<close>

definition lag_store :: store where
  "lag_store =
     (let s1 = snd (queue_store_call 5 (str ''q'') (1, Offer [1]) newStore)
      in case updateMulti 5 (queueOp (str ''q'') (str ''queueoffer'') [2] (tx_get 2) tx_set tx_del) s1 of
           (_, muts, _) \<Rightarrow>
             (let m = hd muts
              in s1(5 := fst (tx_set (m_mapName m) (m_key m) (m_value m) (s1 5, [])))))"

text \<open>
  C21: An acknowledged element can become unreachable and then be overwritten. After such a backup is
  promoted, it accepts an offer of \<open>[3]\<close> and answers with size 2. Two polls then bring the count to
  0 while \<open>[3]\<close> is still in the segment, so the third poll and the size report an empty queue, and
  the next offer, which treats a count of 0 as an empty segment, overwrites \<open>[3]\<close>. The element is
  never delivered.
\<close>

theorem queue_lag_strands:
  "fst (run_calls (queue_store_call 5 (str ''q''))
     [(3, Offer [3]), (4, Poll), (5, Poll), (6, Poll), (7, Size), (8, Offer [4]), (9, Poll), (10, Poll)]
     lag_store) =
   [Inr (putI64 2), Inr [1, 1], Inr [1, 2], Inr [0], Inr (putI64 0), Inr (putI64 1), Inr [1, 4], Inr [0]]"
proof -
  have ok: "item_ok [x]" for x by (simp add: item_ok_def)
  have len: "length (appendPacked seg x) = length seg + 4 + length x" for seg x
    by (simp add: appendPacked_def)
  have app: "appendPacked (y # ys) x = (y # ys) @ appendPacked [] x" "appendPacked (u @ v) x = (u @ v) @ appendPacked [] x"
    "appendPacked (appendPacked [] u) x = appendPacked [] u @ appendPacked [] x" for y ys x u v
    by (simp_all add: appendPacked_def)
  have hd1: "queueHead (appendPacked [] [x]) = Some ([x], [])" for x
    using queueHead_pack [OF ok, of x "[]"] by simp
  show ?thesis
    by (simp add: lag_store_def queue_store_call_def updateMulti_def queueOp_def tx_get_def tx_set_def
        tx_del_def bucket_def Let_def newStore_def expired_def decodeQueueMeta_def [of "[]"] len app
        queueHead_pack [OF ok] hd1 maxSegBytes_def putI64_def [of 0] putI64_def [of 1] putI64_def [of 2])
qed

section \<open>Transfer order\<close>

lemma orderQueueMetaLast_filter:
  "orderQueueMetaLast es = filter (\<lambda>e. e_mapName e \<noteq> queueMap) es @ filter (\<lambda>e. e_mapName e = queueMap) es"
proof -
  have "foldl (\<lambda>(ordered, metas) e.
       if e_mapName e = queueMap then (ordered, metas @ [e]) else (ordered @ [e], metas)) (xs, ys) es =
    (xs @ filter (\<lambda>e. e_mapName e \<noteq> queueMap) es, ys @ filter (\<lambda>e. e_mapName e = queueMap) es)" for xs ys
    by (induction es arbitrary: xs ys) auto
  then show ?thesis by (simp add: orderQueueMetaLast_def)
qed

text \<open>
  Reordering a partition snapshot for transfer keeps exactly its entries, and puts every queue's
  metadata after everything else: once a receiver has been sent any metadata entry, it has been sent
  every entry that is not metadata, the segments in particular.
\<close>

theorem meta_sent_last:
  "mset (orderQueueMetaLast es) = mset es \<and>
   (\<forall>i < length (orderQueueMetaLast es). e_mapName (orderQueueMetaLast es ! i) = queueMap \<longrightarrow>
      {e \<in> set es. e_mapName e \<noteq> queueMap} \<subseteq> set (take i (orderQueueMetaLast es)))"
proof -
  let ?o = "filter (\<lambda>e. e_mapName e \<noteq> queueMap) es" and ?m = "filter (\<lambda>e. e_mapName e = queueMap) es"
  have "length ?o \<le> i" if "e_mapName ((?o @ ?m) ! i) = queueMap" for i
  proof (rule ccontr)
    assume "\<not> length ?o \<le> i"
    then have "(?o @ ?m) ! i \<in> set ?o" by (metis not_le nth_append nth_mem)
    with that show False by simp
  qed
  then have "set ?o \<subseteq> set (take i (?o @ ?m))" if "e_mapName ((?o @ ?m) ! i) = queueMap" for i
    using that by simp
  moreover have "mset (?o @ ?m) = mset es"
    by (metis (full_types) mset_append mset_filter multiset_partition union_commute)
  ultimately show ?thesis unfolding orderQueueMetaLast_filter by auto
qed

definition transfer_demo :: "entry list" where
  "transfer_demo =
     [\<lparr>e_mapName = queueMap, e_key = [1], e_value = [], e_expireAt = 0\<rparr>,
      \<lparr>e_mapName = queueSegMap, e_key = [2], e_value = [], e_expireAt = 0\<rparr>]"

theorem meta_sent_last_witness:
  "e_mapName (orderQueueMetaLast transfer_demo ! 1) = queueMap \<and>
   {e \<in> set transfer_demo. e_mapName e \<noteq> queueMap} \<subseteq> set (take 1 (orderQueueMetaLast transfer_demo))"
proof -
  have "1 < length (orderQueueMetaLast transfer_demo)" "e_mapName (orderQueueMetaLast transfer_demo ! 1) = queueMap"
    by (simp_all add: orderQueueMetaLast_filter transfer_demo_def)
  with meta_sent_last [of transfer_demo] show ?thesis by blast
qed

section \<open>Upgrading a legacy queue\<close>

fun chunk :: "bytes list \<Rightarrow> bytes list \<Rightarrow> bytes list list" where
  "chunk cur [] = [cur]"
| "chunk cur (x # xs) =
     (if cur \<noteq> [] \<and> length (pack cur) + 4 + length x > maxSegBytes
      then cur # chunk [x] xs else chunk (cur @ [x]) xs)"

fun seg_entries :: "bytes \<Rightarrow> nat \<Rightarrow> bytes list list \<Rightarrow> entry list" where
  "seg_entries name i [] = []"
| "seg_entries name i (sg # segs) =
     \<lparr>e_mapName = queueSegMap, e_key = queueSegKey (of_nat i) name, e_value = pack sg, e_expireAt = 0\<rparr>
     # seg_entries name (Suc i) segs"

lemma chunk_nonempty [simp]: "chunk cur xs \<noteq> []"
  by (induction cur xs rule: chunk.induct) auto

lemma concat_chunk [simp]: "concat (chunk cur xs) = cur @ xs"
  by (induction cur xs rule: chunk.induct) auto

lemma chunk_segs: "cur \<noteq> [] \<or> xs \<noteq> [] \<Longrightarrow> sg \<in> set (chunk cur xs) \<Longrightarrow> sg \<noteq> []"
  by (induction cur xs rule: chunk.induct) (auto split: if_splits)

lemma length_chunk: "length (chunk cur xs) \<le> length xs + 1"
  by (induction cur xs rule: chunk.induct) auto

lemma convert_loop_chunk:
  assumes "\<forall>x\<in>set xs. item_ok x"
  shows "convert_loop name (pack xs) out (of_nat tail) cnt (pack cur) =
    (out @ seg_entries name tail (butlast (chunk cur xs)), of_nat (tail + length (chunk cur xs) - 1),
     cnt + of_nat (length xs), pack (last (chunk cur xs)))"
  using assms
proof (induction cur xs arbitrary: out tail cnt rule: chunk.induct)
  case (1 cur)
  show ?case by (subst convert_loop.simps) simp
next
  case (2 cur x xs)
  then have x: "queueHead (appendPacked [] x @ pack xs) = Some (x, pack xs)" by (simp add: queueHead_pack)
  show ?case
  proof (cases "cur \<noteq> [] \<and> length (pack cur) + 4 + length x > maxSegBytes")
    case True
    have "convert_loop name (pack (x # xs)) out (of_nat tail) cnt (pack cur) =
      convert_loop name (pack xs) (flush name out (of_nat tail) (pack cur)) (of_nat (Suc tail)) (cnt + 1) (pack [x])"
      using True by (subst convert_loop.simps) (simp add: x add.commute)
    with 2(1) [OF True, of "flush name out (of_nat tail) (pack cur)" "Suc tail" "cnt + 1"] 2(3) True
    show ?thesis by (simp add: flush_def add.commute add.left_commute)
  next
    case False
    then have "convert_loop name (pack (x # xs)) out (of_nat tail) cnt (pack cur) =
      convert_loop name (pack xs) out (of_nat tail) (cnt + 1) (pack (cur @ [x]))"
      using appendPacked_pack [of cur x] by (subst convert_loop.simps) (auto simp: x)
    moreover have "chunk cur (x # xs) = chunk (cur @ [x]) xs" using False by auto
    ultimately show ?thesis using 2(2) [OF False, of out tail "cnt + 1"] 2(3) by (simp add: add.commute add.left_commute)
  qed
qed

lemma seg_entries_append: "seg_entries name i (xs @ ys) = seg_entries name i xs @ seg_entries name (i + length xs) ys"
  by (induction xs arbitrary: i) simp_all

lemma convertLegacyQueue_chunk:
  assumes "\<forall>x\<in>set xs. item_ok x" "xs \<noteq> []" "length xs < 2 ^ 64"
  shows "convertLegacyQueue name (pack xs) =
    seg_entries name 0 (chunk [] xs) @
    [\<lparr>e_mapName = queueMap, e_key = name,
      e_value = encodeQueueMeta 0 (of_nat (length (chunk [] xs) - 1)) (of_nat (length xs)), e_expireAt = 0\<rparr>]"
proof -
  let ?c = "chunk [] xs"
  have "last ?c \<noteq> []" using chunk_segs [of "[]" xs "last ?c"] assms(2) by simp
  moreover have "seg_entries name 0 ?c =
      seg_entries name 0 (butlast ?c) @ seg_entries name (length ?c - 1) [last ?c]"
    by (metis append_butlast_last_id chunk_nonempty seg_entries_append length_butlast add_0)
  moreover have "(of_nat (length xs) :: u64) \<noteq> 0" using assms(2,3) by (simp add: of_nat_u64_0)
  ultimately show ?thesis
    using convert_loop_chunk [OF assms(1), of name "[]" 0 0 "[]"]
    by (simp add: convertLegacyQueue_def flush_def Let_def)
qed

lemma loadAll_plain:
  assumes "\<forall>e\<in>set es. \<not> legacy e"
  shows "loadAll now es s = foldl (\<lambda>s e. snd (store_put now (routedPartition (e_mapName e) (e_key e))
      (e_mapName e) (e_key e) (e_value e) (e_expireAt e) s)) s es"
  using assms by (induction es arbitrary: s) simp_all

definition load_put :: "int \<Rightarrow> store \<Rightarrow> entry \<Rightarrow> store" where
  "load_put now s e = snd (store_put now (routedPartition (e_mapName e) (e_key e))
      (e_mapName e) (e_key e) (e_value e) (e_expireAt e) s)"

lemma load_put_lookup:
  "shard_lookup (load_put now s e p) n k =
    (if p = routedPartition n k \<and> n = e_mapName e \<and> k = e_key e
     then Some \<lparr>v_data = e_value e, v_expireAt = e_expireAt e\<rparr> else shard_lookup (s p) n k)"
  by (auto simp: load_put_def store_put_lookup)

lemma steady_load_put: "steady (s p) \<Longrightarrow> e_expireAt e = 0 \<Longrightarrow> steady (load_put now s e p)"
  by (auto simp: steady_def load_put_lookup split: if_splits)

lemma seg_key_routed [simp]: "routedPartition queueSegMap (queueSegKey i name) = For name"
  "routedPartition queueMap name = For name"
  by (simp_all add: routedPartition_def queueSegKey_def)

lemma load_seg_entries:
  assumes "i + length segs \<le> 2 ^ 64"
  shows "j < 2 ^ 64 \<Longrightarrow>
      shard_lookup (foldl (load_put now) s (seg_entries name i segs) (For name)) queueSegMap (queueSegKey (of_nat j) name) =
      (if i \<le> j \<and> j < i + length segs then Some \<lparr>v_data = pack (segs ! (j - i)), v_expireAt = 0\<rparr>
       else shard_lookup (s (For name)) queueSegMap (queueSegKey (of_nat j) name))"
    "steady (s (For name)) \<Longrightarrow> steady (foldl (load_put now) s (seg_entries name i segs) (For name))"
  using assms
proof (induction segs arbitrary: i s)
  case (Cons sg segs)
  {
    case 1
    let ?e = "\<lparr>e_mapName = queueSegMap, e_key = queueSegKey (of_nat i) name, e_value = pack sg, e_expireAt = 0\<rparr>"
    from 1 have "i < 2 ^ 64" by simp
    note eq = of_nat_u64_eq [OF 1(1) this]
    have e: "shard_lookup (load_put now s ?e (For name)) queueSegMap (queueSegKey (of_nat j) name) =
      (if j = i then Some \<lparr>v_data = pack sg, v_expireAt = 0\<rparr>
       else shard_lookup (s (For name)) queueSegMap (queueSegKey (of_nat j) name))"
      using eq by (cases "j = i") (simp_all add: load_put_lookup)
    have ih: "shard_lookup (foldl (load_put now) s (seg_entries name i (sg # segs)) (For name))
        queueSegMap (queueSegKey (of_nat j) name) =
      (if Suc i \<le> j \<and> j < Suc i + length segs then Some \<lparr>v_data = pack (segs ! (j - Suc i)), v_expireAt = 0\<rparr>
       else shard_lookup (load_put now s ?e (For name)) queueSegMap (queueSegKey (of_nat j) name))"
      using Cons.IH(1) [OF 1(1), of "Suc i" "load_put now s ?e"] 1(2) by simp
    have "(sg # segs) ! (j - i) = segs ! (j - Suc i)" if "Suc i \<le> j" using that by (simp add: nth_Cons')
    then show ?case unfolding ih e by auto
  next
    case 2
    let ?e = "\<lparr>e_mapName = queueSegMap, e_key = queueSegKey (of_nat i) name, e_value = pack sg, e_expireAt = 0\<rparr>"
    from 2 have "steady (load_put now s ?e (For name))"
      by (intro steady_load_put) simp_all
    with 2 Cons.IH(2) [of "load_put now s ?e" "Suc i"] show ?case by simp
  }
qed auto

text \<open>
  C20: Restoring a snapshot taken before queues were segmented loses nothing and keeps the order.
  Loading a packed queue value into a store that holds no segments of that queue leaves metadata and
  segments that represent exactly the packed items, in order.
\<close>

theorem legacy_queue_restored:
  assumes "\<forall>x\<in>set xs. item_ok x" "xs \<noteq> []" "length xs + b < 2 ^ 64" "length (pack xs) \<noteq> 24"
    and "steady (s (For name))" "\<forall>i. shard_lookup (s (For name)) queueSegMap (queueSegKey i name) = None"
  shows "queue_state
    (loadAll now [\<lparr>e_mapName = queueMap, e_key = name, e_value = pack xs, e_expireAt = t\<rparr>] s)
    (For name) name xs b"
proof -
  let ?c = "chunk [] xs" and ?e = "\<lparr>e_mapName = queueMap, e_key = name, e_value = pack xs, e_expireAt = t\<rparr>"
  let ?m = "\<lparr>e_mapName = queueMap, e_key = name,
      e_value = encodeQueueMeta 0 (of_nat (length ?c - 1)) (of_nat (length xs)), e_expireAt = 0\<rparr>"
  let ?s1 = "foldl (load_put now) s (seg_entries name 0 ?c)"
  have len: "0 < length ?c" "length ?c \<le> length xs"
    using chunk_nonempty [of "[]" xs] length_chunk [of "[hd xs]" "tl xs"] assms(2)
    by (simp, cases xs) auto
  have "legacy ?e" using assms(2,4) by (simp add: legacy_def)
  then have "loadAll now [?e] s = loadAll now (convertLegacyQueue name (pack xs)) s" by simp
  also have "\<dots> = foldl (load_put now) s (convertLegacyQueue name (pack xs))"
    using loadAll_plain [of "convertLegacyQueue name (pack xs)" now s] convert_not_legacy [of _ name "pack xs"]
    by (simp add: load_put_def [abs_def])
  also have "\<dots> = load_put now ?s1 ?m"
    using convertLegacyQueue_chunk [of xs name] assms(1-3) by simp
  finally have l: "loadAll now [?e] s = load_put now ?s1 ?m" .
  have bound: "0 + length ?c \<le> 2 ^ 64" using len assms(3) by simp
  have "steady (?s1 (For name))" using bound assms(5) by (rule load_seg_entries(2))
  then have st: "steady (load_put now ?s1 ?m (For name))" by (rule steady_load_put) simp
  have sg: "segf (raw (load_put now ?s1 ?m (For name))) name j =
      (if j < length ?c then Some (pack (?c ! j)) else None)" if "j < 2 ^ 64" for j
    using load_seg_entries(1) [of 0 ?c j now s name, OF bound that] assms(6)
    by (simp add: segf_def raw_def load_put_lookup)
  define g n where "g = raw (load_put now ?s1 ?m (For name))" and "n = length ?c - 1"
  have n: "length ?c = Suc n" using len by (simp add: n_def)
  note sg = sg [folded g_def, unfolded n]
  have "decodeQueueMeta (val_or_nil (g queueMap name)) = (of_nat 0, of_nat n, of_nat (length (concat ?c)))"
    by (simp add: g_def n_def raw_def load_put_lookup)
  moreover have "chain (segf g name) 0 ?c"
    using sg chunk_segs [of "[]" xs] assms(2) bound n by (auto simp: chain_def)
  moreover have "n + b < 2 ^ 64" using len(2) n assms(3) by simp
  ultimately have "queue_at g name ?c 0 n b"
    using sg n assms(1,3) unfolding queue_at_def concat_chunk by auto
  then have "queue_rep g name xs b" by (rule queue_repI) simp
  with st l show ?thesis by (simp add: queue_state_def g_def)
qed

theorem legacy_queue_restored_witness:
  "queue_state (loadAll 9 [\<lparr>e_mapName = queueMap, e_key = str ''q'', e_value = pack [[1, 2], [3]], e_expireAt = 0\<rparr>] newStore)
    (For (str ''q'')) (str ''q'') [[1, 2], [3]] 1000"
  by (rule legacy_queue_restored)
     (simp_all add: item_ok_def steady_def newStore_def appendPacked_def)

end
