(* ===== verification/Rpc.thy ===== *)
theory Rpc
  imports Messages Wal Queue
begin

text \<open>
  The remote calls of the cluster as values, and their encoding.

  A \<open>request\<close> is what a handler sees of an inbound frame: the message type and the fields of the
  decoded payload, or the error of a payload that does not decode (\<open>BadPayload\<close>), or a type that no
  layer handles (\<open>OtherReq\<close>); a \<open>response\<close> is the same for a reply. \<open>encode_request\<close> and
  \<open>decode_request\<close> relate them to the bytes of the frame, through the generated codecs of theory
  \<open>Messages\<close>; the last section shows that a call arrives as it was sent. The layers above exchange
  requests and responses.

  \<open>error\<close> is the sum of the errors of the program. A \<open>RemoteError\<close> carries the error of the remote
  handler in place of its text.
\<close>

section \<open>Message types\<close>

type_synonym MessageType = int

abbreviation (input) MT_UNSPECIFIED :: MessageType where
  "MT_UNSPECIFIED \<equiv> 0"

abbreviation (input) MT_ERROR :: MessageType where
  "MT_ERROR \<equiv> 1"

abbreviation (input) MT_JOIN_REQUEST :: MessageType where
  "MT_JOIN_REQUEST \<equiv> 2"

abbreviation (input) MT_JOIN_RESPONSE :: MessageType where
  "MT_JOIN_RESPONSE \<equiv> 3"

abbreviation (input) MT_HEARTBEAT :: MessageType where
  "MT_HEARTBEAT \<equiv> 4"

abbreviation (input) MT_MEMBER_LIST :: MessageType where
  "MT_MEMBER_LIST \<equiv> 5"

abbreviation (input) MT_PUT_REQUEST :: MessageType where
  "MT_PUT_REQUEST \<equiv> 6"

abbreviation (input) MT_PUT_RESPONSE :: MessageType where
  "MT_PUT_RESPONSE \<equiv> 7"

abbreviation (input) MT_GET_REQUEST :: MessageType where
  "MT_GET_REQUEST \<equiv> 8"

abbreviation (input) MT_GET_RESPONSE :: MessageType where
  "MT_GET_RESPONSE \<equiv> 9"

abbreviation (input) MT_REMOVE_REQUEST :: MessageType where
  "MT_REMOVE_REQUEST \<equiv> 10"

abbreviation (input) MT_REMOVE_RESPONSE :: MessageType where
  "MT_REMOVE_RESPONSE \<equiv> 11"

abbreviation (input) MT_LEAVE :: MessageType where
  "MT_LEAVE \<equiv> 12"

abbreviation (input) MT_EXECUTE_REQUEST :: MessageType where
  "MT_EXECUTE_REQUEST \<equiv> 13"

abbreviation (input) MT_EXECUTE_RESPONSE :: MessageType where
  "MT_EXECUTE_RESPONSE \<equiv> 14"

abbreviation (input) MT_DIGEST_REQUEST :: MessageType where
  "MT_DIGEST_REQUEST \<equiv> 15"

abbreviation (input) MT_DIGEST_RESPONSE :: MessageType where
  "MT_DIGEST_RESPONSE \<equiv> 16"

abbreviation (input) MT_SIZE_REQUEST :: MessageType where
  "MT_SIZE_REQUEST \<equiv> 17"

abbreviation (input) MT_SIZE_RESPONSE :: MessageType where
  "MT_SIZE_RESPONSE \<equiv> 18"

abbreviation (input) MT_CLEAR_REQUEST :: MessageType where
  "MT_CLEAR_REQUEST \<equiv> 19"

abbreviation (input) MT_CLEAR_RESPONSE :: MessageType where
  "MT_CLEAR_RESPONSE \<equiv> 20"

abbreviation (input) MT_AGGREGATE_REQUEST :: MessageType where
  "MT_AGGREGATE_REQUEST \<equiv> 21"

abbreviation (input) MT_AGGREGATE_RESPONSE :: MessageType where
  "MT_AGGREGATE_RESPONSE \<equiv> 22"

abbreviation (input) MT_EVICT_REQUEST :: MessageType where
  "MT_EVICT_REQUEST \<equiv> 23"

abbreviation (input) MT_EVICT_RESPONSE :: MessageType where
  "MT_EVICT_RESPONSE \<equiv> 24"

abbreviation (input) MT_RECONCILE_REQUEST :: MessageType where
  "MT_RECONCILE_REQUEST \<equiv> 25"

abbreviation (input) MT_RECONCILE_RESPONSE :: MessageType where
  "MT_RECONCILE_RESPONSE \<equiv> 26"

section \<open>Errors\<close>

datatype error =
    ErrProto proto_error
  | ErrOs os_error
  | ErrNoRoute
  | ErrClosed
  | ErrContext
  | RemoteError u32 error
  | ErrUnexpectedResponse MessageType
  | ErrUnhandled MessageType
  | ErrOutOfRange u32
  | ErrReservedMap
  | ErrEmptyHolder
  | ErrUnknownProcessor bytes
  | ErrUnknownAggregator bytes
  | ErrUnknownAggregatorPeer bytes
  | ErrQueue queue_error
  | ErrExternal bytes

section \<open>Requests and responses\<close>

text \<open>A member as the messages carry it: its id and its address.\<close>

type_synonym member_ref = "bytes \<times> bytes"
type_synonym key_ref = "bytes \<times> bytes"

datatype request =
    JoinReq "member_ref option"
  | MemberListReq "member_ref list" u64
  | HeartbeatReq
  | LeaveReq bytes
  | PutReq bytes bytes bytes bool int
  | GetReq bytes bytes
  | RemoveReq bytes bytes bool
  | ExecuteReq bytes bytes bytes bytes
  | DigestReq u32 u64
  | SizeReq bytes
  | ClearReq bytes
  | AggregateReq bytes bytes
  | EvictReq bytes bytes
  | ReconcileReq u32 "key_ref list"
  | BadPayload MessageType proto_error
  | OtherReq MessageType bytes

datatype response =
    JoinResp "member_ref list"
  | MemberListResp
  | HeartbeatResp
  | LeaveResp
  | PutResp bool
  | GetResp bool bytes
  | RemoveResp bool
  | ExecuteResp bytes
  | DigestResp bool
  | SizeResp u64
  | ClearResp u64
  | AggregateResp bytes
  | EvictResp bool
  | ReconcileResp u64
  | BadResp MessageType proto_error
  | OtherResp MessageType bytes

fun req_type :: "request \<Rightarrow> MessageType" where
  "req_type (JoinReq _) = MT_JOIN_REQUEST"
| "req_type (MemberListReq _ _) = MT_MEMBER_LIST"
| "req_type (HeartbeatReq) = MT_HEARTBEAT"
| "req_type (LeaveReq _) = MT_LEAVE"
| "req_type (PutReq _ _ _ _ _) = MT_PUT_REQUEST"
| "req_type (GetReq _ _) = MT_GET_REQUEST"
| "req_type (RemoveReq _ _ _) = MT_REMOVE_REQUEST"
| "req_type (ExecuteReq _ _ _ _) = MT_EXECUTE_REQUEST"
| "req_type (DigestReq _ _) = MT_DIGEST_REQUEST"
| "req_type (SizeReq _) = MT_SIZE_REQUEST"
| "req_type (ClearReq _) = MT_CLEAR_REQUEST"
| "req_type (AggregateReq _ _) = MT_AGGREGATE_REQUEST"
| "req_type (EvictReq _ _) = MT_EVICT_REQUEST"
| "req_type (ReconcileReq _ _) = MT_RECONCILE_REQUEST"
| "req_type (BadPayload t _) = t"
| "req_type (OtherReq t _) = t"

fun resp_type :: "response \<Rightarrow> MessageType" where
  "resp_type (JoinResp _) = MT_JOIN_RESPONSE"
| "resp_type (MemberListResp) = MT_MEMBER_LIST"
| "resp_type (HeartbeatResp) = MT_HEARTBEAT"
| "resp_type (LeaveResp) = MT_LEAVE"
| "resp_type (PutResp _) = MT_PUT_RESPONSE"
| "resp_type (GetResp _ _) = MT_GET_RESPONSE"
| "resp_type (RemoveResp _) = MT_REMOVE_RESPONSE"
| "resp_type (ExecuteResp _) = MT_EXECUTE_RESPONSE"
| "resp_type (DigestResp _) = MT_DIGEST_RESPONSE"
| "resp_type (SizeResp _) = MT_SIZE_RESPONSE"
| "resp_type (ClearResp _) = MT_CLEAR_RESPONSE"
| "resp_type (AggregateResp _) = MT_AGGREGATE_RESPONSE"
| "resp_type (EvictResp _) = MT_EVICT_RESPONSE"
| "resp_type (ReconcileResp _) = MT_RECONCILE_RESPONSE"
| "resp_type (BadResp t _) = t"
| "resp_type (OtherResp t _) = t"

section \<open>The payloads\<close>

definition member_msg :: "member_ref \<Rightarrow> MemberMsg" where
  "member_msg m = \<lparr>mb_Id = fst m, mb_Addr = snd m, mb_unknown = []\<rparr>"

definition member_of_msg :: "MemberMsg \<Rightarrow> member_ref" where
  "member_of_msg m = (mb_Id m, mb_Addr m)"

definition key_msg :: "key_ref \<Rightarrow> KeyRef" where
  "key_msg m = \<lparr>kr_Map = fst m, kr_Key = snd m, kr_unknown = []\<rparr>"

definition key_of_msg :: "KeyRef \<Rightarrow> key_ref" where
  "key_of_msg m = (kr_Map m, kr_Key m)"

text \<open>Whether the encoding of a call fits a Go slice and its integers an \<open>int64\<close>.\<close>

fun encode_request :: "request \<Rightarrow> MessageType \<times> bytes" where
  "encode_request (JoinReq a) = (MT_JOIN_REQUEST, JoinRequest_MarshalVT \<lparr>jq_Candidate = map_option member_msg a, jq_unknown = []\<rparr>)"
| "encode_request (MemberListReq a b) = (MT_MEMBER_LIST, MemberList_MarshalVT \<lparr>ml_Members = map member_msg a, ml_Version = b, ml_unknown = []\<rparr>)"
| "encode_request (HeartbeatReq) = (MT_HEARTBEAT, [])"
| "encode_request (LeaveReq a) = (MT_LEAVE, LeaveRequest_MarshalVT \<lparr>lq_MemberId = a, lq_unknown = []\<rparr>)"
| "encode_request (PutReq a b c d e) = (MT_PUT_REQUEST, PutRequest_MarshalVT \<lparr>pq_Map = a, pq_Key = b, pq_Value = c, pq_Backup = d, pq_TtlMs = e, pq_unknown = []\<rparr>)"
| "encode_request (GetReq a b) = (MT_GET_REQUEST, GetRequest_MarshalVT \<lparr>gq_Map = a, gq_Key = b, gq_unknown = []\<rparr>)"
| "encode_request (RemoveReq a b c) = (MT_REMOVE_REQUEST, RemoveRequest_MarshalVT \<lparr>rq_Map = a, rq_Key = b, rq_Backup = c, rq_unknown = []\<rparr>)"
| "encode_request (ExecuteReq a b c d) = (MT_EXECUTE_REQUEST, ExecuteRequest_MarshalVT \<lparr>xq_Map = a, xq_Key = b, xq_Processor = c, xq_Arg = d, xq_unknown = []\<rparr>)"
| "encode_request (DigestReq a b) = (MT_DIGEST_REQUEST, DigestRequest_MarshalVT \<lparr>dq_Partition = a, dq_Digest = b, dq_unknown = []\<rparr>)"
| "encode_request (SizeReq a) = (MT_SIZE_REQUEST, SizeRequest_MarshalVT \<lparr>sq_Map = a, sq_unknown = []\<rparr>)"
| "encode_request (ClearReq a) = (MT_CLEAR_REQUEST, ClearRequest_MarshalVT \<lparr>cq_Map = a, cq_unknown = []\<rparr>)"
| "encode_request (AggregateReq a b) = (MT_AGGREGATE_REQUEST, AggregateRequest_MarshalVT \<lparr>aq_Map = a, aq_Aggregator = b, aq_unknown = []\<rparr>)"
| "encode_request (EvictReq a b) = (MT_EVICT_REQUEST, EvictRequest_MarshalVT \<lparr>eq_Map = a, eq_Key = b, eq_unknown = []\<rparr>)"
| "encode_request (ReconcileReq a b) = (MT_RECONCILE_REQUEST, ReconcileRequest_MarshalVT \<lparr>kq_Partition = a, kq_Keys = map key_msg b, kq_unknown = []\<rparr>)"
| "encode_request (BadPayload t e) = (t, [])"
| "encode_request (OtherReq t b) = (t, b)"

fun encode_request_ok :: "request \<Rightarrow> bool" where
  "encode_request_ok (JoinReq a) = JoinRequest_ok \<lparr>jq_Candidate = map_option member_msg a, jq_unknown = []\<rparr>"
| "encode_request_ok (MemberListReq a b) = MemberList_ok \<lparr>ml_Members = map member_msg a, ml_Version = b, ml_unknown = []\<rparr>"
| "encode_request_ok (HeartbeatReq) = True"
| "encode_request_ok (LeaveReq a) = LeaveRequest_ok \<lparr>lq_MemberId = a, lq_unknown = []\<rparr>"
| "encode_request_ok (PutReq a b c d e) = PutRequest_ok \<lparr>pq_Map = a, pq_Key = b, pq_Value = c, pq_Backup = d, pq_TtlMs = e, pq_unknown = []\<rparr>"
| "encode_request_ok (GetReq a b) = GetRequest_ok \<lparr>gq_Map = a, gq_Key = b, gq_unknown = []\<rparr>"
| "encode_request_ok (RemoveReq a b c) = RemoveRequest_ok \<lparr>rq_Map = a, rq_Key = b, rq_Backup = c, rq_unknown = []\<rparr>"
| "encode_request_ok (ExecuteReq a b c d) = ExecuteRequest_ok \<lparr>xq_Map = a, xq_Key = b, xq_Processor = c, xq_Arg = d, xq_unknown = []\<rparr>"
| "encode_request_ok (DigestReq a b) = DigestRequest_ok \<lparr>dq_Partition = a, dq_Digest = b, dq_unknown = []\<rparr>"
| "encode_request_ok (SizeReq a) = SizeRequest_ok \<lparr>sq_Map = a, sq_unknown = []\<rparr>"
| "encode_request_ok (ClearReq a) = ClearRequest_ok \<lparr>cq_Map = a, cq_unknown = []\<rparr>"
| "encode_request_ok (AggregateReq a b) = AggregateRequest_ok \<lparr>aq_Map = a, aq_Aggregator = b, aq_unknown = []\<rparr>"
| "encode_request_ok (EvictReq a b) = EvictRequest_ok \<lparr>eq_Map = a, eq_Key = b, eq_unknown = []\<rparr>"
| "encode_request_ok (ReconcileReq a b) = ReconcileRequest_ok \<lparr>kq_Partition = a, kq_Keys = map key_msg b, kq_unknown = []\<rparr>"
| "encode_request_ok (BadPayload t e) = False"
| "encode_request_ok (OtherReq t b) = (t \<notin> {MT_JOIN_REQUEST, MT_MEMBER_LIST, MT_HEARTBEAT, MT_LEAVE, MT_PUT_REQUEST, MT_GET_REQUEST, MT_REMOVE_REQUEST, MT_EXECUTE_REQUEST, MT_DIGEST_REQUEST, MT_SIZE_REQUEST, MT_CLEAR_REQUEST, MT_AGGREGATE_REQUEST, MT_EVICT_REQUEST, MT_RECONCILE_REQUEST})"

definition decode_request :: "MessageType \<Rightarrow> bytes \<Rightarrow> request" where
  "decode_request t b =
     (if t = MT_JOIN_REQUEST then
        (case JoinRequest_UnmarshalVT b JoinRequest_zero of
           Inl e \<Rightarrow> BadPayload t e | Inr m \<Rightarrow> JoinReq (map_option member_of_msg (jq_Candidate m)))
      else if t = MT_MEMBER_LIST then
        (case MemberList_UnmarshalVT b MemberList_zero of
           Inl e \<Rightarrow> BadPayload t e | Inr m \<Rightarrow> MemberListReq (map member_of_msg (ml_Members m)) (ml_Version m))
      else if t = MT_HEARTBEAT then HeartbeatReq
      else if t = MT_LEAVE then
        (case LeaveRequest_UnmarshalVT b LeaveRequest_zero of
           Inl e \<Rightarrow> BadPayload t e | Inr m \<Rightarrow> LeaveReq (lq_MemberId m))
      else if t = MT_PUT_REQUEST then
        (case PutRequest_UnmarshalVT b PutRequest_zero of
           Inl e \<Rightarrow> BadPayload t e | Inr m \<Rightarrow> PutReq (pq_Map m) (pq_Key m) (pq_Value m) (pq_Backup m) (pq_TtlMs m))
      else if t = MT_GET_REQUEST then
        (case GetRequest_UnmarshalVT b GetRequest_zero of
           Inl e \<Rightarrow> BadPayload t e | Inr m \<Rightarrow> GetReq (gq_Map m) (gq_Key m))
      else if t = MT_REMOVE_REQUEST then
        (case RemoveRequest_UnmarshalVT b RemoveRequest_zero of
           Inl e \<Rightarrow> BadPayload t e | Inr m \<Rightarrow> RemoveReq (rq_Map m) (rq_Key m) (rq_Backup m))
      else if t = MT_EXECUTE_REQUEST then
        (case ExecuteRequest_UnmarshalVT b ExecuteRequest_zero of
           Inl e \<Rightarrow> BadPayload t e | Inr m \<Rightarrow> ExecuteReq (xq_Map m) (xq_Key m) (xq_Processor m) (xq_Arg m))
      else if t = MT_DIGEST_REQUEST then
        (case DigestRequest_UnmarshalVT b DigestRequest_zero of
           Inl e \<Rightarrow> BadPayload t e | Inr m \<Rightarrow> DigestReq (dq_Partition m) (dq_Digest m))
      else if t = MT_SIZE_REQUEST then
        (case SizeRequest_UnmarshalVT b SizeRequest_zero of
           Inl e \<Rightarrow> BadPayload t e | Inr m \<Rightarrow> SizeReq (sq_Map m))
      else if t = MT_CLEAR_REQUEST then
        (case ClearRequest_UnmarshalVT b ClearRequest_zero of
           Inl e \<Rightarrow> BadPayload t e | Inr m \<Rightarrow> ClearReq (cq_Map m))
      else if t = MT_AGGREGATE_REQUEST then
        (case AggregateRequest_UnmarshalVT b AggregateRequest_zero of
           Inl e \<Rightarrow> BadPayload t e | Inr m \<Rightarrow> AggregateReq (aq_Map m) (aq_Aggregator m))
      else if t = MT_EVICT_REQUEST then
        (case EvictRequest_UnmarshalVT b EvictRequest_zero of
           Inl e \<Rightarrow> BadPayload t e | Inr m \<Rightarrow> EvictReq (eq_Map m) (eq_Key m))
      else if t = MT_RECONCILE_REQUEST then
        (case ReconcileRequest_UnmarshalVT b ReconcileRequest_zero of
           Inl e \<Rightarrow> BadPayload t e | Inr m \<Rightarrow> ReconcileReq (kq_Partition m) (map key_of_msg (kq_Keys m)))
      else OtherReq t b)"

fun encode_response :: "response \<Rightarrow> MessageType \<times> bytes" where
  "encode_response (JoinResp a) = (MT_JOIN_RESPONSE, JoinResponse_MarshalVT \<lparr>jr_Members = map member_msg a, jr_unknown = []\<rparr>)"
| "encode_response (MemberListResp) = (MT_MEMBER_LIST, [])"
| "encode_response (HeartbeatResp) = (MT_HEARTBEAT, [])"
| "encode_response (LeaveResp) = (MT_LEAVE, [])"
| "encode_response (PutResp a) = (MT_PUT_RESPONSE, PutResponse_MarshalVT \<lparr>pr_Created = a, pr_unknown = []\<rparr>)"
| "encode_response (GetResp a b) = (MT_GET_RESPONSE, GetResponse_MarshalVT \<lparr>gr_Found = a, gr_Value = b, gr_unknown = []\<rparr>)"
| "encode_response (RemoveResp a) = (MT_REMOVE_RESPONSE, RemoveResponse_MarshalVT \<lparr>rr_Existed = a, rr_unknown = []\<rparr>)"
| "encode_response (ExecuteResp a) = (MT_EXECUTE_RESPONSE, ExecuteResponse_MarshalVT \<lparr>xr_Result = a, xr_unknown = []\<rparr>)"
| "encode_response (DigestResp a) = (MT_DIGEST_RESPONSE, DigestResponse_MarshalVT \<lparr>dr_Match = a, dr_unknown = []\<rparr>)"
| "encode_response (SizeResp a) = (MT_SIZE_RESPONSE, SizeResponse_MarshalVT \<lparr>sr_Cnt = a, sr_unknown = []\<rparr>)"
| "encode_response (ClearResp a) = (MT_CLEAR_RESPONSE, ClearResponse_MarshalVT \<lparr>cr_Removed = a, cr_unknown = []\<rparr>)"
| "encode_response (AggregateResp a) = (MT_AGGREGATE_RESPONSE, AggregateResponse_MarshalVT \<lparr>ar_Partial = a, ar_unknown = []\<rparr>)"
| "encode_response (EvictResp a) = (MT_EVICT_RESPONSE, EvictResponse_MarshalVT \<lparr>er_Existed = a, er_unknown = []\<rparr>)"
| "encode_response (ReconcileResp a) = (MT_RECONCILE_RESPONSE, ReconcileResponse_MarshalVT \<lparr>kp_Pruned = a, kp_unknown = []\<rparr>)"
| "encode_response (BadResp t e) = (t, [])"
| "encode_response (OtherResp t b) = (t, b)"

fun encode_response_ok :: "response \<Rightarrow> bool" where
  "encode_response_ok (JoinResp a) = JoinResponse_ok \<lparr>jr_Members = map member_msg a, jr_unknown = []\<rparr>"
| "encode_response_ok (MemberListResp) = True"
| "encode_response_ok (HeartbeatResp) = True"
| "encode_response_ok (LeaveResp) = True"
| "encode_response_ok (PutResp a) = PutResponse_ok \<lparr>pr_Created = a, pr_unknown = []\<rparr>"
| "encode_response_ok (GetResp a b) = GetResponse_ok \<lparr>gr_Found = a, gr_Value = b, gr_unknown = []\<rparr>"
| "encode_response_ok (RemoveResp a) = RemoveResponse_ok \<lparr>rr_Existed = a, rr_unknown = []\<rparr>"
| "encode_response_ok (ExecuteResp a) = ExecuteResponse_ok \<lparr>xr_Result = a, xr_unknown = []\<rparr>"
| "encode_response_ok (DigestResp a) = DigestResponse_ok \<lparr>dr_Match = a, dr_unknown = []\<rparr>"
| "encode_response_ok (SizeResp a) = SizeResponse_ok \<lparr>sr_Cnt = a, sr_unknown = []\<rparr>"
| "encode_response_ok (ClearResp a) = ClearResponse_ok \<lparr>cr_Removed = a, cr_unknown = []\<rparr>"
| "encode_response_ok (AggregateResp a) = AggregateResponse_ok \<lparr>ar_Partial = a, ar_unknown = []\<rparr>"
| "encode_response_ok (EvictResp a) = EvictResponse_ok \<lparr>er_Existed = a, er_unknown = []\<rparr>"
| "encode_response_ok (ReconcileResp a) = ReconcileResponse_ok \<lparr>kp_Pruned = a, kp_unknown = []\<rparr>"
| "encode_response_ok (BadResp t e) = False"
| "encode_response_ok (OtherResp t b) = (t \<notin> {MT_JOIN_RESPONSE, MT_MEMBER_LIST, MT_HEARTBEAT, MT_LEAVE, MT_PUT_RESPONSE, MT_GET_RESPONSE, MT_REMOVE_RESPONSE, MT_EXECUTE_RESPONSE, MT_DIGEST_RESPONSE, MT_SIZE_RESPONSE, MT_CLEAR_RESPONSE, MT_AGGREGATE_RESPONSE, MT_EVICT_RESPONSE, MT_RECONCILE_RESPONSE})"

definition decode_response :: "MessageType \<Rightarrow> bytes \<Rightarrow> response" where
  "decode_response t b =
     (if t = MT_JOIN_RESPONSE then
        (case JoinResponse_UnmarshalVT b JoinResponse_zero of
           Inl e \<Rightarrow> BadResp t e | Inr m \<Rightarrow> JoinResp (map member_of_msg (jr_Members m)))
      else if t = MT_MEMBER_LIST then MemberListResp
      else if t = MT_HEARTBEAT then HeartbeatResp
      else if t = MT_LEAVE then LeaveResp
      else if t = MT_PUT_RESPONSE then
        (case PutResponse_UnmarshalVT b PutResponse_zero of
           Inl e \<Rightarrow> BadResp t e | Inr m \<Rightarrow> PutResp (pr_Created m))
      else if t = MT_GET_RESPONSE then
        (case GetResponse_UnmarshalVT b GetResponse_zero of
           Inl e \<Rightarrow> BadResp t e | Inr m \<Rightarrow> GetResp (gr_Found m) (gr_Value m))
      else if t = MT_REMOVE_RESPONSE then
        (case RemoveResponse_UnmarshalVT b RemoveResponse_zero of
           Inl e \<Rightarrow> BadResp t e | Inr m \<Rightarrow> RemoveResp (rr_Existed m))
      else if t = MT_EXECUTE_RESPONSE then
        (case ExecuteResponse_UnmarshalVT b ExecuteResponse_zero of
           Inl e \<Rightarrow> BadResp t e | Inr m \<Rightarrow> ExecuteResp (xr_Result m))
      else if t = MT_DIGEST_RESPONSE then
        (case DigestResponse_UnmarshalVT b DigestResponse_zero of
           Inl e \<Rightarrow> BadResp t e | Inr m \<Rightarrow> DigestResp (dr_Match m))
      else if t = MT_SIZE_RESPONSE then
        (case SizeResponse_UnmarshalVT b SizeResponse_zero of
           Inl e \<Rightarrow> BadResp t e | Inr m \<Rightarrow> SizeResp (sr_Cnt m))
      else if t = MT_CLEAR_RESPONSE then
        (case ClearResponse_UnmarshalVT b ClearResponse_zero of
           Inl e \<Rightarrow> BadResp t e | Inr m \<Rightarrow> ClearResp (cr_Removed m))
      else if t = MT_AGGREGATE_RESPONSE then
        (case AggregateResponse_UnmarshalVT b AggregateResponse_zero of
           Inl e \<Rightarrow> BadResp t e | Inr m \<Rightarrow> AggregateResp (ar_Partial m))
      else if t = MT_EVICT_RESPONSE then
        (case EvictResponse_UnmarshalVT b EvictResponse_zero of
           Inl e \<Rightarrow> BadResp t e | Inr m \<Rightarrow> EvictResp (er_Existed m))
      else if t = MT_RECONCILE_RESPONSE then
        (case ReconcileResponse_UnmarshalVT b ReconcileResponse_zero of
           Inl e \<Rightarrow> BadResp t e | Inr m \<Rightarrow> ReconcileResp (kp_Pruned m))
      else OtherResp t b)"

section \<open>A call arrives as it was sent\<close>

lemma refs_roundtrip [simp]:
  "member_of_msg (member_msg m) = m" "key_of_msg (key_msg k) = k"
  "member_of_msg \<circ> member_msg = id" "key_of_msg \<circ> key_msg = id"
  by (simp_all add: member_of_msg_def member_msg_def key_of_msg_def key_msg_def fun_eq_iff)

lemmas message_roundtrips =
  mb_m.roundtrip
  jq_m.roundtrip
  jr_m.roundtrip
  hb_m.roundtrip
  ml_m.roundtrip
  lq_m.roundtrip
  pq_m.roundtrip
  pr_m.roundtrip
  gq_m.roundtrip
  gr_m.roundtrip
  rq_m.roundtrip
  rr_m.roundtrip
  xq_m.roundtrip
  xr_m.roundtrip
  se_m.roundtrip
  sn_m.roundtrip
  dq_m.roundtrip
  dr_m.roundtrip
  sq_m.roundtrip
  sr_m.roundtrip
  cq_m.roundtrip
  cr_m.roundtrip
  aq_m.roundtrip
  ar_m.roundtrip
  eq_m.roundtrip
  er_m.roundtrip
  kr_m.roundtrip
  kq_m.roundtrip
  kp_m.roundtrip
  em_m.roundtrip

lemma request_roundtrip:
  assumes "encode_request_ok r"
  shows "(case encode_request r of (t, b) \<Rightarrow> decode_request t b) = r"
  using assms by (cases r) (simp_all add: decode_request_def message_roundtrips option.map_comp option.map_id)

lemma response_roundtrip:
  assumes "encode_response_ok r"
  shows "(case encode_response r of (t, b) \<Rightarrow> decode_response t b) = r"
  using assms by (cases r) (simp_all add: decode_response_def message_roundtrips)

lemma encode_types [simp]: "fst (encode_request r) = req_type r" "fst (encode_response p) = resp_type p"
  by (cases r; simp) (cases p; simp)

end
