(* ===== verification/Membership.thy ===== *)
theory Membership
  imports Partition Phi Rpc
begin

text \<open>
  The membership view of a node, \<open>cluster/membership.go\<close> and \<open>cluster/member.go\<close>.

  The Go maps \<open>members\<close>, \<open>misses\<close>, \<open>phi\<close> and \<open>removed\<close> are association lists; the epochs \<open>version\<close>
  and \<open>tableVer\<close> are 64-bit words. The operations here work on one node's view under its lock; the
  ones that send messages (\<open>Join\<close>, \<open>Gossip\<close>, \<open>DetectFailures\<close> and the others) are in theory
  \<open>Cluster\<close>. A clock reading is the argument \<open>now\<close>.

  \<open>mem_inv\<close> is what every reachable view satisfies; from it follow that a view always contains its own
  node, that two nodes with the same members route every key the same way, and that gossip cannot
  bring back an evicted member.
\<close>

section \<open>Members\<close>

record Member =
  m_ID :: bytes
  m_Addr :: bytes

definition toProto :: "Member \<Rightarrow> member_ref" where
  "toProto m = (m_ID m, m_Addr m)"

definition memberFromProto :: "member_ref \<Rightarrow> Member" where
  "memberFromProto p = \<lparr>m_ID = fst p, m_Addr = snd p\<rparr>"

lemma memberFromProto_toProto [simp]: "memberFromProto (toProto m) = m"
  by (simp add: memberFromProto_def toProto_def)

section \<open>The view and its operations\<close>

record Membership =
  mem_self :: Member
  mem_backups :: int
  mem_members :: "(bytes, Member) gomap"
  mem_version :: u64
  mem_tableVer :: u64
  mem_table :: Table
  mem_misses :: "(bytes, u8) gomap"
  mem_phi :: "(bytes, phiHistory) gomap"
  mem_removed :: "(bytes, int) gomap"

definition rebuildLocked :: "Membership \<Rightarrow> Membership" where
  "rebuildLocked m =
     m\<lparr>mem_table := NewTable (map fst (mem_members m)) (mem_backups m), mem_tableVer := mem_tableVer m + 1\<rparr>"

definition mem_New :: "Member \<Rightarrow> int \<Rightarrow> Membership" where
  "mem_New self backups =
     rebuildLocked
       \<lparr>mem_self = self, mem_backups = backups, mem_members = [(m_ID self, self)], mem_version = 0, mem_tableVer = 0,
        mem_table = NewTable [] 0, mem_misses = [], mem_phi = [], mem_removed = []\<rparr>"

definition TableVersion :: "Membership \<Rightarrow> u64" where
  "TableVersion m = mem_tableVer m"

definition Members :: "Membership \<Rightarrow> Member list" where
  "Members m = sort_by (\<lambda>a b. m_ID a < m_ID b) (map snd (mem_members m))"

definition AddrOf :: "bytes \<Rightarrow> Membership \<Rightarrow> bytes option" where
  "AddrOf mid m = map_option m_Addr (map_of (mem_members m) mid)"

definition merge_one ::
  "Membership \<Rightarrow> Member \<Rightarrow> (bytes, Member) gomap \<times> bool \<times> bool \<Rightarrow> (bytes, Member) gomap \<times> bool \<times> bool" where
  "merge_one m mem acc =
     (case acc of (ms, changed, setChanged) \<Rightarrow>
        if m_ID mem = [] \<or> m_ID mem = m_ID (mem_self m) then (ms, changed, setChanged)
        else if map_of (mem_removed m) (m_ID mem) \<noteq> None then (ms, changed, setChanged)
        else case map_of ms (m_ID mem) of
               None \<Rightarrow> (AList.update (m_ID mem) mem ms, True, True)
             | Some existing \<Rightarrow>
                 if m_Addr mem \<noteq> [] \<and> m_Addr existing \<noteq> m_Addr mem
                 then (AList.update (m_ID mem) mem ms, True, setChanged)
                 else (ms, changed, setChanged))"

definition merge :: "Member list \<Rightarrow> Membership \<Rightarrow> bool \<times> Membership" where
  "merge members m =
     (case fold (merge_one m) members (mem_members m, False, False) of (ms, changed, setChanged) \<Rightarrow>
        let m1 = m\<lparr>mem_members := ms\<rparr>
        in if changed then
             (let m2 = m1\<lparr>mem_version := mem_version m1 + 1\<rparr>
              in (changed, if setChanged then rebuildLocked m2 else m2))
           else (changed, m1))"

definition removeLocked :: "int \<Rightarrow> bytes \<Rightarrow> Membership \<Rightarrow> bool \<times> Membership" where
  "removeLocked now mid m =
     (if mid = m_ID (mem_self m) then (False, m)
      else if map_of (mem_members m) mid = None then (False, m)
      else (True, rebuildLocked
             (m\<lparr>mem_members := AList.delete mid (mem_members m), mem_misses := AList.delete mid (mem_misses m),
                mem_phi := AList.delete mid (mem_phi m), mem_removed := AList.update mid now (mem_removed m),
                mem_version := mem_version m + 1\<rparr>)))"

definition rejoin :: "Member \<Rightarrow> Membership \<Rightarrow> Membership" where
  "rejoin mem m =
     (if m_ID mem = [] \<or> m_ID mem = m_ID (mem_self m) then m
      else let m1 = m\<lparr>mem_removed := AList.delete (m_ID mem) (mem_removed m),
                      mem_misses := AList.delete (m_ID mem) (mem_misses m),
                      mem_phi := AList.delete (m_ID mem) (mem_phi m)\<rparr>
           in case map_of (mem_members m1) (m_ID mem) of
                Some existing \<Rightarrow>
                  if m_Addr existing = m_Addr mem then m1
                  else rebuildLocked (m1\<lparr>mem_members := AList.update (m_ID mem) mem (mem_members m1),
                                         mem_version := mem_version m1 + 1\<rparr>)
              | None \<Rightarrow>
                  rebuildLocked (m1\<lparr>mem_members := AList.update (m_ID mem) mem (mem_members m1),
                                    mem_version := mem_version m1 + 1\<rparr>))"

definition snapshotProto :: "Membership \<Rightarrow> member_ref list \<times> u64" where
  "snapshotProto m = (map (\<lambda>(mid, mem). toProto mem) (mem_members m), mem_version m)"

text \<open>
  The critical section of \<open>DetectFailures\<close> after one ping: record the heartbeat or the miss, and evict
  the peer if the detector suspects it. The result says whether it was evicted.
\<close>

definition judge :: "u8 \<Rightarrow> int \<Rightarrow> bool \<Rightarrow> bytes \<Rightarrow> Membership \<Rightarrow> bool \<times> Membership" where
  "judge threshold now alive mid m =
     (if map_of (mem_members m) mid = None then (False, m)
      else let h = (case map_of (mem_phi m) mid of None \<Rightarrow> newPhiHistory | Some h \<Rightarrow> h)
           in if alive then
                (False, m\<lparr>mem_phi := AList.update mid (phi_record now h) (mem_phi m),
                          mem_misses := AList.delete mid (mem_misses m)\<rparr>)
              else
                (let misses = (case map_of (mem_misses m) mid of None \<Rightarrow> 0 | Some n \<Rightarrow> n) + 1;
                     m1 = m\<lparr>mem_phi := AList.update mid h (mem_phi m),
                            mem_misses := AList.update mid misses (mem_misses m)\<rparr>;
                     suspect = (if warm h then phi now h \<ge> defaultPhiThreshold else misses \<ge> threshold)
                 in if suspect then removeLocked now mid m1 else (False, m1)))"

definition PruneTombstones :: "int \<Rightarrow> int \<Rightarrow> Membership \<Rightarrow> Membership" where
  "PruneTombstones now ttl m =
     (if ttl \<le> 0 then m\<lparr>mem_removed := []\<rparr>
      else m\<lparr>mem_removed := filter (\<lambda>(mid, since). \<not> since < wrap64 (now - ttl)) (mem_removed m)\<rparr>)"

definition TableWithout :: "bytes \<Rightarrow> Membership \<Rightarrow> Table" where
  "TableWithout mid m = NewTable (filter (\<lambda>x. x \<noteq> mid) (map fst (mem_members m))) (mem_backups m)"

definition mem_Handle :: "int \<Rightarrow> request \<Rightarrow> Membership \<Rightarrow> (error + response) \<times> Membership" where
  "mem_Handle now req m =
     (case req of
        JoinReq cand \<Rightarrow>
          (let m1 = (case cand of None \<Rightarrow> m | Some c \<Rightarrow> rejoin (memberFromProto c) m)
           in (Inr (JoinResp (fst (snapshotProto m1))), m1))
      | MemberListReq ms v \<Rightarrow> (Inr MemberListResp, snd (merge (map memberFromProto ms) m))
      | HeartbeatReq \<Rightarrow> (Inr HeartbeatResp, m)
      | LeaveReq mid \<Rightarrow> (Inr LeaveResp, snd (removeLocked now mid m))
      | BadPayload t e \<Rightarrow>
          (if t = MT_JOIN_REQUEST \<or> t = MT_MEMBER_LIST \<or> t = MT_LEAVE then Inl (ErrProto e) else Inl (ErrUnhandled t), m)
      | _ \<Rightarrow> (Inl (ErrUnhandled (req_type req)), m))"

section \<open>The invariant of a view\<close>

inductive mem_step :: "Membership \<Rightarrow> Membership \<Rightarrow> bool" where
  ms_merge: "mem_step m (snd (merge ms m))"
| ms_remove: "mem_step m (snd (removeLocked now mid m))"
| ms_rejoin: "mem_step m (rejoin mem m)"
| ms_judge: "mem_step m (snd (judge threshold now alive mid m))"
| ms_prune: "mem_step m (PruneTombstones now ttl m)"
| ms_handle: "mem_step m (snd (mem_Handle now req m))"

inductive mem_reach :: "Membership \<Rightarrow> bool" where
  mr_new: "mem_reach (mem_New self backups)"
| mr_step: "mem_reach m \<Longrightarrow> mem_step m m' \<Longrightarrow> mem_reach m'"

definition member_ids :: "Membership \<Rightarrow> bytes set" where
  "member_ids m = fst ` set (mem_members m)"

definition mem_inv :: "Membership \<Rightarrow> bool" where
  "mem_inv m \<longleftrightarrow>
     wf_map (mem_members m) \<and> wf_map (mem_misses m) \<and> wf_map (mem_phi m) \<and> wf_map (mem_removed m) \<and>
     map_of (mem_members m) (m_ID (mem_self m)) = Some (mem_self m) \<and>
     (\<forall>mid mem. map_of (mem_members m) mid = Some mem \<longrightarrow> m_ID mem = mid) \<and>
     dom (map_of (mem_removed m)) \<inter> dom (map_of (mem_members m)) = {} \<and>
     dom (map_of (mem_misses m)) \<subseteq> dom (map_of (mem_members m)) \<and>
     dom (map_of (mem_phi m)) \<subseteq> dom (map_of (mem_members m)) \<and>
     mem_table m = NewTable (map fst (mem_members m)) (mem_backups m)"

lemma rebuildLocked_sel [simp]:
  "mem_self (rebuildLocked m) = mem_self m" "mem_backups (rebuildLocked m) = mem_backups m"
  "mem_members (rebuildLocked m) = mem_members m" "mem_misses (rebuildLocked m) = mem_misses m"
  "mem_phi (rebuildLocked m) = mem_phi m" "mem_removed (rebuildLocked m) = mem_removed m"
  "mem_version (rebuildLocked m) = mem_version m" "mem_tableVer (rebuildLocked m) = mem_tableVer m + 1"
  "mem_table (rebuildLocked m) = NewTable (map fst (mem_members m)) (mem_backups m)"
  by (simp_all add: rebuildLocked_def)

lemma mem_inv_New: "mem_inv (mem_New self backups)"
  by (simp add: mem_inv_def mem_New_def wf_map_def)

lemma map_fst_update_mem: "map_of ms k \<noteq> None \<Longrightarrow> map fst (AList.update k v ms) = map fst ms"
  by (induction ms) auto

text \<open>What folding \<open>merge_one\<close> over the received members keeps.\<close>

definition merge_inv :: "Membership \<Rightarrow> (bytes, Member) gomap \<times> bool \<times> bool \<Rightarrow> bool" where
  "merge_inv m acc \<longleftrightarrow>
     (case acc of (ms, changed, setChanged) \<Rightarrow>
        wf_map ms \<and> (\<forall>mid mem. map_of ms mid = Some mem \<longrightarrow> m_ID mem = mid) \<and>
        map_of ms (m_ID (mem_self m)) = Some (mem_self m) \<and>
        dom (map_of (mem_removed m)) \<inter> dom (map_of ms) = {} \<and>
        dom (map_of (mem_members m)) \<subseteq> dom (map_of ms) \<and>
        (setChanged \<longrightarrow> changed) \<and> (\<not> changed \<longrightarrow> ms = mem_members m) \<and>
        (\<not> setChanged \<longrightarrow> map fst ms = map fst (mem_members m)))"

lemma merge_inv_update:
  assumes "merge_inv m (ms, changed, setChanged)" "m_ID mem \<noteq> m_ID (mem_self m)" "map_of (mem_removed m) (m_ID mem) = None"
  shows "merge_inv m (AList.update (m_ID mem) mem ms, True, if map_of ms (m_ID mem) = None then True else setChanged)"
proof -
  have "m_ID mem \<notin> dom (map_of (mem_removed m))" using assms(3) by (simp add: domIff)
  with assms show ?thesis
    by (simp add: merge_inv_def update_conv' map_fst_update_mem subset_insertI2)
qed

lemma merge_one_inv:
  assumes "merge_inv m acc"
  shows "merge_inv m (merge_one m mem acc)"
proof (cases acc)
  case (fields ms changed setChanged)
  with assms merge_inv_update [of m ms changed setChanged mem] show ?thesis
    by (cases "map_of ms (m_ID mem)") (simp_all add: merge_one_def)
qed

lemma merge_fold_inv:
  assumes "mem_inv m"
  shows "merge_inv m (fold (merge_one m) members (mem_members m, False, False))"
proof -
  have "merge_inv m (mem_members m, False, False)" using assms by (simp add: merge_inv_def mem_inv_def)
  then show ?thesis by (rule fold_invariant [where Q = "\<lambda>_. True", rotated]) (simp_all add: merge_one_inv)
qed

lemma mem_inv_merge:
  assumes "mem_inv m"
  shows "mem_inv (snd (merge members m))"
proof -
  obtain ms changed setChanged where f: "fold (merge_one m) members (mem_members m, False, False) = (ms, changed, setChanged)"
    by (metis prod_cases3)
  from merge_fold_inv [OF assms, of members] f have i: "merge_inv m (ms, changed, setChanged)" by simp
  with assms have "dom (map_of (mem_misses m)) \<subseteq> dom (map_of ms)" "dom (map_of (mem_phi m)) \<subseteq> dom (map_of ms)"
    unfolding merge_inv_def mem_inv_def prod.case by (blast intro: subset_trans)+
  with assms i show ?thesis
    by (cases changed; cases setChanged) (simp_all add: merge_def f merge_inv_def mem_inv_def)
qed

lemma mem_inv_remove:
  assumes "mem_inv m"
  shows "mem_inv (snd (removeLocked now mid m))"
proof (cases "mid = m_ID (mem_self m) \<or> map_of (mem_members m) mid = None")
  case True
  with assms show ?thesis by (auto simp: removeLocked_def)
next
  case False
  with assms show ?thesis by (simp add: mem_inv_def removeLocked_def delete_conv' update_conv') blast
qed

lemma mem_inv_forget:
  assumes "mem_inv m"
  shows "mem_inv (m\<lparr>mem_removed := AList.delete mid (mem_removed m), mem_misses := AList.delete mid (mem_misses m),
    mem_phi := AList.delete mid (mem_phi m)\<rparr>)"
  using assms by (simp add: mem_inv_def delete_conv') blast

lemma mem_inv_add:
  assumes "mem_inv m" "m_ID mem \<noteq> m_ID (mem_self m)" "map_of (mem_removed m) (m_ID mem) = None"
  shows "mem_inv (rebuildLocked (m\<lparr>mem_members := AList.update (m_ID mem) mem (mem_members m), mem_version := v\<rparr>))"
proof -
  have "m_ID mem \<notin> dom (map_of (mem_removed m))" using assms(3) by (simp add: domIff)
  with assms(1,2) show ?thesis by (simp add: mem_inv_def update_conv' subset_insertI2)
qed

lemma mem_inv_rejoin:
  assumes "mem_inv m"
  shows "mem_inv (rejoin mem m)"
proof (cases "m_ID mem = [] \<or> m_ID mem = m_ID (mem_self m)")
  case True
  with assms show ?thesis by (auto simp: rejoin_def)
next
  case False
  let ?m = "m\<lparr>mem_removed := AList.delete (m_ID mem) (mem_removed m), mem_misses := AList.delete (m_ID mem) (mem_misses m),
    mem_phi := AList.delete (m_ID mem) (mem_phi m)\<rparr>"
  have i: "mem_inv ?m" using assms by (rule mem_inv_forget)
  have "mem_inv (rebuildLocked (?m\<lparr>mem_members := AList.update (m_ID mem) mem (mem_members ?m), mem_version := v\<rparr>))" for v
    using False by (intro mem_inv_add [OF i]) (simp_all add: delete_conv')
  with i False show ?thesis by (simp add: rejoin_def Let_def split: option.split)
qed

lemma mem_inv_judge:
  assumes "mem_inv m"
  shows "mem_inv (snd (judge threshold now alive mid m))"
proof (cases "map_of (mem_members m) mid = None")
  case True
  with assms show ?thesis by (simp add: judge_def)
next
  case False
  then have d: "mid \<in> dom (map_of (mem_members m))" by (simp add: domIff)
  have u: "mem_inv (m\<lparr>mem_phi := AList.update mid h (mem_phi m), mem_misses := AList.update mid n (mem_misses m)\<rparr>)" for h n
    using assms d by (simp add: mem_inv_def update_conv')
  have "N - {mid} \<subseteq> M" if "N \<subseteq> M" for N M :: "bytes set" using that by blast
  then have v: "mem_inv (m\<lparr>mem_phi := AList.update mid h (mem_phi m), mem_misses := AList.delete mid (mem_misses m)\<rparr>)" for h
    using assms d by (simp add: mem_inv_def update_conv' delete_conv')
  from False show ?thesis by (simp add: judge_def Let_def u v mem_inv_remove [OF u] del: not_None_eq)
qed

lemma mem_inv_prune:
  assumes "mem_inv m"
  shows "mem_inv (PruneTombstones now ttl m)"
proof -
  have "dom (map_of (filter P (mem_removed m))) \<inter> dom (map_of (mem_members m)) = {}" for P
  proof -
    have "dom (map_of (filter P (mem_removed m))) \<subseteq> dom (map_of (mem_removed m))"
      by (auto simp: dom_map_of_conv_image_fst)
    with assms show ?thesis unfolding mem_inv_def by blast
  qed
  with assms show ?thesis by (simp add: mem_inv_def PruneTombstones_def)
qed

lemma mem_inv_Handle: "mem_inv m \<Longrightarrow> mem_inv (snd (mem_Handle now req m))"
  by (auto simp: mem_Handle_def Let_def mem_inv_merge mem_inv_remove mem_inv_rejoin split: request.splits option.splits)

lemma mem_step_inv: "mem_step m m' \<Longrightarrow> mem_inv m \<Longrightarrow> mem_inv m'"
  by (induction rule: mem_step.induct)
     (simp_all add: mem_inv_merge mem_inv_remove mem_inv_rejoin mem_inv_judge mem_inv_prune mem_inv_Handle)

lemma mem_reach_inv: "mem_reach m \<Longrightarrow> mem_inv m"
  by (induction rule: mem_reach.induct) (simp_all add: mem_inv_New mem_step_inv)

text \<open>
  C27: What every reachable membership view satisfies. A node is always a member of its own view, under
  its own id and address; every entry is stored under its own id; the partition table is the one of
  the current members; and no evicted member is also a live one.
\<close>

theorem membership_invariant:
  assumes "mem_reach m"
  shows "map_of (mem_members m) (m_ID (mem_self m)) = Some (mem_self m) \<and> distinct (map fst (mem_members m)) \<and>
    (\<forall>mid mem. map_of (mem_members m) mid = Some mem \<longrightarrow> m_ID mem = mid) \<and>
    mem_table m = NewTable (map fst (mem_members m)) (mem_backups m) \<and>
    dom (map_of (mem_removed m)) \<inter> dom (map_of (mem_members m)) = {} \<and>
    dom (map_of (mem_misses m)) \<union> dom (map_of (mem_phi m)) \<subseteq> dom (map_of (mem_members m))"
  using mem_reach_inv [OF assms] by (simp add: mem_inv_def wf_map_def)

definition demo_self :: Member where
  "demo_self = \<lparr>m_ID = [1], m_Addr = [10]\<rparr>"

definition demo_view :: Membership where
  "demo_view = rejoin \<lparr>m_ID = [2], m_Addr = [20]\<rparr> (mem_New demo_self 1)"

lemma demo_view_reach: "mem_reach demo_view"
  unfolding demo_view_def by (rule mr_step [OF mr_new ms_rejoin])

lemma demo_view_members: "mem_members demo_view = [([1], demo_self), ([2], \<lparr>m_ID = [2], m_Addr = [20]\<rparr>)]"
  "mem_self demo_view = demo_self" "mem_removed demo_view = []" "mem_misses demo_view = []" "mem_phi demo_view = []"
  by (simp_all add: demo_view_def mem_New_def rejoin_def demo_self_def Let_def)

theorem membership_invariant_witness:
  "map_of (mem_members demo_view) [1] = Some demo_self \<and> mem_table demo_view = NewTable [[1], [2]] (mem_backups demo_view)"
  using membership_invariant [OF demo_view_reach] by (simp add: demo_view_members demo_self_def)

section \<open>Agreement on routing\<close>

lemma NewTable_cong: "mset ids = mset ids' \<Longrightarrow> NewTable ids bc = NewTable ids' bc"
  using properties_for_sort [of "sort ids'" ids] by (simp add: NewTable_def Let_def)

lemma member_ids_mset:
  "mem_inv m \<Longrightarrow> mem_inv m' \<Longrightarrow> member_ids m = member_ids m' \<Longrightarrow> mset (map fst (mem_members m)) = mset (map fst (mem_members m'))"
  by (simp add: mem_inv_def wf_map_def member_ids_def set_eq_iff_mset_eq_distinct [symmetric] flip: mset_map)

text \<open>
  C28: Routing needs no coordinator. Two nodes whose views contain the same member ids, and that are
  configured with the same number of backups, have the same partition table, whatever order they
  learned of the members in and whatever addresses they know; so they agree on the owner and the
  backups of every partition.
\<close>

theorem views_agree:
  assumes "mem_reach m" "mem_reach m'" "member_ids m = member_ids m'" "mem_backups m = mem_backups m'"
  shows "mem_table m = mem_table m'"
  using NewTable_cong [OF member_ids_mset [OF mem_reach_inv [OF assms(1)] mem_reach_inv [OF assms(2)] assms(3)]]
    mem_reach_inv [OF assms(1)] mem_reach_inv [OF assms(2)] assms(4) by (simp add: mem_inv_def)

definition demo_view2 :: Membership where
  "demo_view2 = rejoin \<lparr>m_ID = [1], m_Addr = [11]\<rparr> (mem_New \<lparr>m_ID = [2], m_Addr = [20]\<rparr> 1)"

theorem views_agree_witness: "mem_table demo_view = mem_table demo_view2"
proof (rule views_agree [OF demo_view_reach])
  show "mem_reach demo_view2" unfolding demo_view2_def by (rule mr_step [OF mr_new ms_rejoin])
  show "member_ids demo_view = member_ids demo_view2"
    by (auto simp: member_ids_def demo_view_members demo_view2_def mem_New_def rejoin_def Let_def)
  show "mem_backups demo_view = mem_backups demo_view2"
    by (simp add: demo_view_def demo_view2_def mem_New_def rejoin_def Let_def demo_self_def)
qed

section \<open>Tombstones\<close>

lemma merge_keeps_removed [simp]: "mem_removed (snd (merge ms m)) = mem_removed m"
  by (auto simp: merge_def Let_def split: prod.splits)

lemma mem_inv_merges: "mem_inv m \<Longrightarrow> mem_inv (fold (\<lambda>ms m. snd (merge ms m)) mss m)"
  by (induction mss arbitrary: m) (simp_all add: mem_inv_merge)

lemma merges_keep_removed: "mem_removed (fold (\<lambda>ms m. snd (merge ms m)) mss m) = mem_removed m"
  by (induction mss arbitrary: m) simp_all

text \<open>
  C29: Gossip cannot resurrect an evicted member. After a removal, no sequence of gossiped member lists
  brings the member back into the view, however often peers still list it; an explicit join does.
\<close>

theorem evicted_stays_out:
  assumes "mem_reach m" "removeLocked now mid m = (True, m1)" "m2 = fold (\<lambda>ms m. snd (merge ms m)) mss m1"
  shows "map_of (mem_members m2) mid = None \<and>
    (mid \<noteq> [] \<longrightarrow> map_of (mem_members (rejoin \<lparr>m_ID = mid, m_Addr = a\<rparr> m2)) mid = Some \<lparr>m_ID = mid, m_Addr = a\<rparr>)"
proof -
  from assms(2) have s: "mid \<noteq> m_ID (mem_self m)" and r: "map_of (mem_removed m1) mid \<noteq> None"
    by (auto simp: removeLocked_def update_conv' split: if_splits)
  have "mem_inv m1" using mem_inv_remove [OF mem_reach_inv [OF assms(1)], of now mid] assms(2) by simp
  then have "mem_inv m2" unfolding assms(3) by (rule mem_inv_merges)
  moreover have "map_of (mem_removed m2) mid \<noteq> None" using r by (simp add: assms(3) merges_keep_removed)
  ultimately have n: "map_of (mem_members m2) mid = None" by (auto simp: mem_inv_def)
  have "mem_self (snd (merge ms m)) = mem_self m" for ms m
    by (auto simp: merge_def Let_def split: prod.splits)
  then have "mem_self (fold (\<lambda>ms m. snd (merge ms m)) mss m) = mem_self m" for m
    by (induction mss arbitrary: m) simp_all
  moreover have "mem_self m1 = mem_self m" using assms(2) by (auto simp: removeLocked_def split: if_splits)
  ultimately have "mem_self m2 = mem_self m" by (simp add: assms(3))
  with n s show ?thesis by (simp add: rejoin_def Let_def update_conv')
qed

theorem evicted_stays_out_witness:
  "map_of (mem_members (snd (merge [\<lparr>m_ID = [2], m_Addr = [20]\<rparr>] (snd (removeLocked 5 [2] demo_view))))) [2] = None"
proof -
  have "removeLocked 5 [2] demo_view = (True, snd (removeLocked 5 [2] demo_view))"
    by (simp add: removeLocked_def demo_view_members demo_self_def)
  from evicted_stays_out [OF demo_view_reach this, of _ "[[\<lparr>m_ID = [2], m_Addr = [20]\<rparr>]]"] show ?thesis by simp
qed

section \<open>The table epoch\<close>

text \<open>
  C30: A rejoin that only changes an address counts as a topology change. When a known member joins
  again from another address, the partition table stays what it was but its epoch advances, so every
  node that hears the join starts a full migration pass.
\<close>

theorem rejoin_address_bumps_epoch:
  assumes "mem_reach m" "map_of (mem_members m) (m_ID mem) = Some old" "m_Addr old \<noteq> m_Addr mem"
    "m_ID mem \<noteq> []" "m_ID mem \<noteq> m_ID (mem_self m)"
  shows "mem_table (rejoin mem m) = mem_table m \<and> TableVersion (rejoin mem m) = TableVersion m + 1"
proof -
  have "mem_table m = NewTable (map fst (mem_members m)) (mem_backups m)"
    using mem_reach_inv [OF assms(1)] by (simp add: mem_inv_def)
  with assms(2-5) show ?thesis by (simp add: rejoin_def Let_def TableVersion_def map_fst_update_mem)
qed

theorem rejoin_address_bumps_epoch_witness:
  "mem_table (rejoin \<lparr>m_ID = [2], m_Addr = [21]\<rparr> demo_view) = mem_table demo_view \<and>
   TableVersion (rejoin \<lparr>m_ID = [2], m_Addr = [21]\<rparr> demo_view) = TableVersion demo_view + 1"
  using rejoin_address_bumps_epoch [OF demo_view_reach, of "\<lparr>m_ID = [2], m_Addr = [21]\<rparr>" "\<lparr>m_ID = [2], m_Addr = [20]\<rparr>"]
  by (simp add: demo_view_members demo_self_def)

section \<open>Failure detection by misses\<close>

text \<open>The verdicts on a peer that does not answer at the times \<open>nows\<close>.\<close>

definition silence :: "u8 \<Rightarrow> bytes \<Rightarrow> int list \<Rightarrow> Membership \<Rightarrow> bool list \<times> Membership" where
  "silence threshold mid nows m = run_calls (\<lambda>now. judge threshold now False mid) nows m"

text \<open>A peer without enough heartbeat history that missed the last \<open>k\<close> pings.\<close>

definition cold :: "bytes \<Rightarrow> nat \<Rightarrow> Membership \<Rightarrow> bool" where
  "cold mid k m \<longleftrightarrow> map_of (mem_members m) mid \<noteq> None \<and> mid \<noteq> m_ID (mem_self m) \<and>
     (case map_of (mem_phi m) mid of None \<Rightarrow> True | Some h \<Rightarrow> \<not> warm h) \<and>
     (case map_of (mem_misses m) mid of None \<Rightarrow> 0 | Some n \<Rightarrow> n) = of_nat k"

lemma judge_cold:
  assumes "cold mid k m" "k < unat threshold" "judge threshold now False mid m = (evicted, m')"
  shows "evicted = (Suc k = unat threshold) \<and> (if evicted then map_of (mem_members m') mid = None else cold mid (Suc k) m')"
proof -
  define h where "h = (case map_of (mem_phi m) mid of None \<Rightarrow> newPhiHistory | Some h \<Rightarrow> h)"
  have w: "\<not> warm h"
    using assms(1) by (auto simp: h_def cold_def newPhiHistory_def warm_def phiMinSamples_def split: option.splits)
  have "Suc k < 256" using assms(2) unat_lt2p [of threshold] by simp
  then have u: "unat (of_nat (Suc k) :: u8) = Suc k" by (simp add: unat_of_nat del: of_nat_Suc)
  have c: "(case map_of (mem_misses m) mid of None \<Rightarrow> 0 | Some n \<Rightarrow> n) + 1 = (of_nat (Suc k) :: u8)"
    using assms(1) by (simp add: cold_def)
  have t: "threshold \<le> of_nat (Suc k) \<longleftrightarrow> Suc k = unat threshold"
    using assms(2) by (simp add: word_le_nat_alt u del: of_nat_Suc) linarith
  have m: "map_of (mem_members m) mid \<noteq> None" "mid \<noteq> m_ID (mem_self m)" using assms(1) by (simp_all add: cold_def)
  let ?m = "m\<lparr>mem_phi := AList.update mid h (mem_phi m), mem_misses := AList.update mid (of_nat (Suc k)) (mem_misses m)\<rparr>"
  have j: "judge threshold now False mid m = (if Suc k = unat threshold then removeLocked now mid ?m else (False, ?m))"
    using m(1) w t by (simp only: judge_def h_def [symmetric] c Let_def if_False)
  have "cold mid (Suc k) ?m" using m w by (simp add: cold_def update_conv')
  with j assms(3) m show ?thesis
    by (auto simp: removeLocked_def delete_conv' split: if_splits)
qed

lemma silence_cold:
  assumes "cold mid k m" "k + length nows = unat threshold" "nows \<noteq> []"
  shows "fst (silence threshold mid nows m) = replicate (length nows - 1) False @ [True] \<and>
    map_of (mem_members (snd (silence threshold mid nows m))) mid = None"
  using assms
proof (induction nows arbitrary: k m)
  case (Cons now nows)
  obtain e m' where j: "judge threshold now False mid m = (e, m')" by (metis prod.exhaust)
  from judge_cold [OF Cons.prems(1) _ j] Cons.prems(2) have e: "e = (Suc k = unat threshold)"
    "if e then map_of (mem_members m') mid = None else cold mid (Suc k) m'" by auto
  show ?case
  proof (cases nows)
    case Nil
    with Cons.prems e j show ?thesis by (simp add: silence_def)
  next
    case (Cons now' nows')
    then have "\<not> e" using e(1) Cons.prems by auto
    with e Cons.IH [of "Suc k" m'] Cons.prems j Cons show ?thesis by (simp add: silence_def)
  qed
qed simp



end
