(* ===== verification/Hooks.thy ===== *)
theory Hooks
  imports Prelude
begin

text \<open>
  The injection points of the map service: entry listeners (\<open>imap/listener.go\<close>) and the per-map
  loaders and stores (\<open>imap/loader.go\<close>).

  What a listener, a loader or a store does is code of the embedding application. It is a function on
  \<open>'x\<close>, the state of everything outside the grid. The buffered channel of the dispatcher is the list
  \<open>l_ch\<close> of at most \<open>listenerQueue\<close> events; \<open>dispatch_step\<close> is one iteration of its goroutine.
  \<open>l_emitted\<close> and \<open>l_dropped\<close> are the metrics the code counts.
\<close>

section \<open>Entry listeners\<close>

datatype EventType = EventCreated | EventUpdated | EventRemoved

fun EventType_String :: "EventType \<Rightarrow> bytes" where
  "EventType_String EventCreated = str ''created''"
| "EventType_String EventUpdated = str ''updated''"
| "EventType_String EventRemoved = str ''removed''"

record EntryEvent =
  ev_Type :: EventType
  ev_Map :: bytes
  ev_Key :: bytes
  ev_Value :: bytes

type_synonym 'x EntryListener = "EntryEvent \<Rightarrow> 'x \<Rightarrow> 'x"

definition listenerQueue :: nat where
  "listenerQueue = 1024"

record 'x listeners =
  l_active :: bool
  l_fns :: "'x EntryListener list"
  l_ch :: "EntryEvent list"
  l_running :: bool
  l_closed :: bool
  l_emitted :: nat
  l_dropped :: nat

definition newListeners :: "'x listeners" where
  "newListeners = \<lparr>l_active = False, l_fns = [], l_ch = [], l_running = False, l_closed = False, l_emitted = 0, l_dropped = 0\<rparr>"

definition listeners_add :: "'x EntryListener option \<Rightarrow> 'x listeners \<Rightarrow> 'x listeners" where
  "listeners_add fn l =
     (case fn of
        None \<Rightarrow> l
      | Some f \<Rightarrow>
          if l_closed l then l
          else l\<lparr>l_active := True, l_fns := l_fns l @ [f], l_running := True\<rparr>)"

definition emit :: "EventType \<Rightarrow> bytes \<Rightarrow> bytes \<Rightarrow> bytes \<Rightarrow> 'x listeners \<Rightarrow> 'x listeners" where
  "emit t name key val l =
     (if \<not> l_active l then l
      else if length (l_ch l) < listenerQueue
      then l\<lparr>l_ch := l_ch l @ [\<lparr>ev_Type = t, ev_Map = name, ev_Key = key, ev_Value = val\<rparr>], l_emitted := Suc (l_emitted l)\<rparr>
      else l\<lparr>l_dropped := Suc (l_dropped l)\<rparr>)"

definition dispatch_step :: "'x listeners \<Rightarrow> 'x \<Rightarrow> 'x listeners \<times> 'x" where
  "dispatch_step l x =
     (if l_closed l \<or> \<not> l_running l then (l, x)
      else case l_ch l of
             [] \<Rightarrow> (l, x)
           | ev # rest \<Rightarrow> (l\<lparr>l_ch := rest\<rparr>, fold (\<lambda>fn. fn ev) (l_fns l) x))"

definition listeners_close :: "'x listeners \<Rightarrow> 'x listeners" where
  "listeners_close l = (if l_closed l then l else l\<lparr>l_closed := True, l_active := False\<rparr>)"

text \<open>
  A history of the registry: the events for which \<open>emit\<close> was called since a listener existed
  (\<open>offered\<close>), and the ones the dispatcher took from the channel (\<open>delivered\<close>).
\<close>

inductive listen_reach :: "'x listeners \<Rightarrow> EntryEvent list \<Rightarrow> EntryEvent list \<Rightarrow> bool" where
  lr_new: "listen_reach newListeners [] []"
| lr_add: "listen_reach l off del \<Longrightarrow> listen_reach (listeners_add fn l) off del"
| lr_emit: "listen_reach l off del \<Longrightarrow>
    listen_reach (emit t name key val l)
      (if l_active l \<and> length (l_ch l) < listenerQueue
       then off @ [\<lparr>ev_Type = t, ev_Map = name, ev_Key = key, ev_Value = val\<rparr>] else off) del"
| lr_dispatch: "listen_reach l off del \<Longrightarrow> dispatch_step l x = (l', x') \<Longrightarrow>
    listen_reach l' off (del @ take (length (l_ch l) - length (l_ch l')) (l_ch l))"
| lr_close: "listen_reach l off del \<Longrightarrow> listen_reach (listeners_close l) off del"



section \<open>Loaders and stores\<close>

text \<open>
  \<open>Load\<close> returns the value, whether it was found, and an error; \<open>Store\<close> and \<open>Delete\<close> return an
  error. A plain \<open>MapLoader\<close> has no \<open>Store\<close> and \<open>Delete\<close>.
\<close>

record 'x MapStore =
  ms_Store :: "bytes \<Rightarrow> bytes \<Rightarrow> 'x \<Rightarrow> bytes option \<times> 'x"
  ms_Delete :: "bytes \<Rightarrow> 'x \<Rightarrow> bytes option \<times> 'x"

record 'x MapLoader =
  ldr_Load :: "bytes \<Rightarrow> 'x \<Rightarrow> (bytes \<times> bool \<times> bytes option) \<times> 'x"
  ldr_store :: "'x MapStore option"

type_synonym 'x loaderRegistry = "(bytes, 'x MapLoader) gomap"

definition newLoaderRegistry :: "'x loaderRegistry" where
  "newLoaderRegistry = []"

definition loaders_set :: "bytes \<Rightarrow> 'x MapLoader \<Rightarrow> 'x loaderRegistry \<Rightarrow> 'x loaderRegistry" where
  "loaders_set name l r = AList.update name l r"

definition loaders_loader :: "bytes \<Rightarrow> 'x loaderRegistry \<Rightarrow> 'x MapLoader option" where
  "loaders_loader name r = map_of r name"

definition loaders_store :: "bytes \<Rightarrow> 'x loaderRegistry \<Rightarrow> 'x MapStore option" where
  "loaders_store name r = (case map_of r name of None \<Rightarrow> None | Some l \<Rightarrow> ldr_store l)"

end
