(* ===== verification/StoreInv.thy ===== *)
theory StoreInv
  imports Queue
begin

text \<open>
  What every reachable store satisfies, and what the whole-partition operations of \<open>imap/store.go\<close>
  do to it.

  \<open>store_step\<close> is the relation of one operation of the store, as the service calls it; every
  operation runs under the lock of its shard, so a node's history is a sequence of these steps.
  \<open>wf_store\<close> (Go's maps have one value per key) and \<open>placed\<close> (each entry is in the partition
  \<open>routedPartition\<close> assigns to it) hold in every reachable store. The remaining sections give the
  exact effect of migration, pruning, sweeping and restoring, and what the anti-entropy digest
  depends on.
\<close>

section \<open>The steps of the store\<close>

inductive store_step :: "store \<Rightarrow> store \<Rightarrow> bool" where
  step_put: "store_step s (snd (store_put now (routedPartition n k) n k d e s))"
| step_cache: "store_step s (snd (cacheLoaded now (routedPartition n k) n k d s))"
| step_remove: "store_step s (snd (store_remove now (routedPartition n k) n k s))"
| step_update: "store_step s (snd (exec_proc now (routedPartition n k) n k pr arg s))"
| step_queue: "store_step s (snd (snd (updateMulti (For name) (queueOp name op arg (tx_get now) tx_set tx_del) s)))"
| step_migrate: "store_step s (snd (dropMigrated p es s))"
| step_prune: "store_step s (snd (pruneToKeyset p keep s))"
| step_sweep: "store_step s (snd (sweepExpired now s))"
| step_clear: "store_step s (snd (clearMap n s))"
| step_load: "store_step s (loadAll now es s)"

inductive store_reach :: "store \<Rightarrow> bool" where
  reach_new: "store_reach newStore"
| reach_step: "store_reach s \<Longrightarrow> store_step s s' \<Longrightarrow> store_reach s'"

definition store_inv :: "store \<Rightarrow> bool" where
  "store_inv s \<longleftrightarrow> wf_store s \<and> placed s"

lemma wf_storeI: "wf_store s \<Longrightarrow> wf_shard sh \<Longrightarrow> wf_store (s(p := sh))"
  by (simp add: wf_store_def)

lemma wf_storeD [simp, intro]: "wf_store s \<Longrightarrow> wf_shard (s p)"
  by (simp add: wf_store_def)

named_theorems wf_ops \<open>the operations keep \<open>wf_store\<close>\<close>

lemma wf_put [wf_ops]: "wf_store s \<Longrightarrow> wf_store (snd (store_put now p n k d e s))"
  by (simp add: store_put_def Let_def wf_storeI)

lemma wf_cache [wf_ops]: "wf_store s \<Longrightarrow> wf_store (snd (cacheLoaded now p n k d s))"
  by (simp add: cacheLoaded_def Let_def wf_storeI split: option.splits)

lemma wf_remove [wf_ops]: "wf_store s \<Longrightarrow> wf_store (snd (store_remove now p n k s))"
  by (auto simp: store_remove_def Let_def intro!: wf_storeI wf_shard_update intro: wf_shard_map split: option.splits)

lemma wf_update [wf_ops]: "wf_store s \<Longrightarrow> wf_store (snd (exec_proc now p n k pr arg s))"
  by (auto simp: exec_proc_def store_update_def Let_def intro!: wf_storeI split: prod.splits Action.splits)

lemma wf_tx_set: "wf_shard (fst tx) \<Longrightarrow> wf_shard (fst (tx_set n k v tx))"
  by (cases tx) (auto simp: tx_set_def)

lemma wf_tx_del: "wf_shard (fst tx) \<Longrightarrow> wf_shard (fst (tx_del n k tx))"
  by (auto simp: tx_del_def Let_def intro!: wf_shard_update wf_map_delete intro: wf_shard_map
      split: prod.splits option.splits)

lemma wf_queue [wf_ops]:
  assumes "wf_store s"
  shows "wf_store (snd (snd (updateMulti p (queueOp name op arg getf tx_set tx_del) s)))"
proof -
  have "(\<lambda>tx. wf_shard (fst tx)) (snd (queueOp name op arg getf tx_set tx_del (s p, [])))"
    by (rule queueOp_preserves) (use assms in \<open>simp_all add: wf_tx_set wf_tx_del\<close>)
  with assms show ?thesis by (simp add: updateMulti_def wf_storeI case_prod_beta)
qed

lemma wf_migrate [wf_ops]: "wf_store s \<Longrightarrow> wf_store (snd (dropMigrated p es s))"
  by (simp add: dropMigrated_def case_prod_beta wf_storeI dropMigrated_loop_wf)

lemma wf_prune [wf_ops]: "wf_store s \<Longrightarrow> wf_store (snd (pruneToKeyset p keep s))"
  using wf_shard_filter_inner [of "s p" "\<lambda>n (k, v). kept keep n k"]
  by (simp add: pruneToKeyset_def wf_storeI)

lemma wf_sweep [wf_ops]: "wf_store s \<Longrightarrow> wf_store (snd (sweepExpired now s))"
  using wf_shard_filter_inner [of "s _" "\<lambda>n (k, v). \<not> expired v now"]
  by (simp add: sweepExpired_def sweep_shard_def wf_store_def)

lemma wf_clear [wf_ops]: "wf_store s \<Longrightarrow> wf_store (snd (clearMap n s))"
  by (simp add: clearMap_def wf_store_def)

lemma wf_load [wf_ops]: "wf_store s \<Longrightarrow> wf_store (loadAll now es s)"
  by (induction now es s rule: loadAll.induct) (simp_all add: wf_put)

named_theorems placed_ops \<open>the operations keep \<open>placed\<close>\<close>

lemma placed_put [placed_ops]: "placed s \<Longrightarrow> placed (snd (store_put now (routedPartition n k) n k d e s))"
  by (auto simp: placed_def store_put_lookup split: if_splits)

lemma placed_sub:
  assumes "placed s" "\<And>p n k. shard_lookup (s' p) n k \<noteq> None \<Longrightarrow> shard_lookup (s p) n k \<noteq> None \<or> routedPartition n k = p"
  shows "placed s'"
  using assms unfolding placed_def by blast

lemma placed_update [placed_ops]:
  assumes "placed s"
  shows "placed (snd (exec_proc now (routedPartition n k) n k pr arg s))"
proof -
  obtain cur ex e where v: "live_view now s (routedPartition n k) n k = (cur, ex, e)"
    by (cases "live_view now s (routedPartition n k) n k")
  obtain nv a out where f: "pr cur ex arg = (nv, a, out)" by (cases "pr cur ex arg")
  show ?thesis
    using assms
    by (rule placed_sub)
       (simp add: exec_proc_def store_update_lookup [OF v, of "\<lambda>cur ex. pr cur ex arg", OF f]
         split: if_splits Action.splits)
qed

lemma placed_queue [placed_ops]:
  assumes "placed s"
  shows "placed (snd (snd (updateMulti (For name) (queueOp name op arg getf tx_set tx_del) s)))"
proof -
  have "(\<lambda>tx. \<forall>n k. shard_lookup (fst tx) n k \<noteq> None \<longrightarrow> routedPartition n k = For name)
      (snd (queueOp name op arg getf tx_set tx_del (s (For name), [])))"
    by (rule queueOp_preserves)
       (use assms in \<open>auto simp: placed_def tx_set_lookup tx_del_lookup split: if_splits\<close>)
  with assms show ?thesis by (auto simp: updateMulti_def placed_def case_prod_beta)
qed

lemma placed_load [placed_ops]: "placed s \<Longrightarrow> placed (loadAll now es s)"
  by (induction now es s rule: loadAll.induct) (simp_all add: placed_put)

lemma newStore_inv: "wf_store newStore" "placed newStore"
  by (simp_all add: wf_store_def placed_def newStore_def)

lemma store_step_inv: "store_step s s' \<Longrightarrow> store_inv s \<Longrightarrow> store_inv s'"
proof (induction rule: store_step.induct)
  case (step_migrate s p es)
  then show ?case
    by (auto simp: store_inv_def wf_migrate dropMigrated_lookup intro: placed_sub split: if_splits)
next
  case (step_prune s p keep)
  then show ?case
    by (auto simp: store_inv_def wf_prune pruneToKeyset_lookup intro: placed_sub split: if_splits)
next
  case (step_sweep s now)
  then show ?case
    by (auto simp: store_inv_def wf_sweep sweepExpired_lookup live_def intro!: placed_sub [of s]
        split: if_splits option.splits)
next
  case (step_clear s n)
  then show ?case
    by (auto simp: store_inv_def wf_clear clearMap_lookup intro: placed_sub split: if_splits)
next
  case (step_cache s now n k d)
  then show ?case
    by (auto simp: store_inv_def wf_cache cacheLoaded_lookup intro: placed_sub split: if_splits)
next
  case (step_remove s now n k)
  then show ?case
    by (auto simp: store_inv_def wf_remove store_remove_lookup intro: placed_sub split: if_splits)
qed (simp_all add: store_inv_def wf_ops placed_ops)

text \<open>
  C13: Every store a node can reach keeps one value per map and key, and every entry, the queue
  segments included, is in the one partition that \<open>routedPartition\<close> assigns to it; so a lookup in
  the routed partition finds an entry wherever it was written from.
\<close>

theorem store_invariant: "store_reach s \<Longrightarrow> store_inv s"
proof (induction rule: store_reach.induct)
  case reach_new
  show ?case by (simp add: store_inv_def newStore_inv)
next
  case (reach_step s s')
  then show ?case by (blast intro: store_step_inv)
qed

theorem store_invariant_witness:
  "store_inv (snd (store_put 1 (routedPartition queueSegMap (queueSegKey 3 [5])) queueSegMap (queueSegKey 3 [5]) [] 0 newStore))"
  by (rule store_invariant, rule reach_step, rule reach_new, rule step_put)

section \<open>Migration and pruning\<close>

text \<open>
  Dropping migrated entries never loses a write that raced the migration. An entry leaves the
  store only if it was in the captured snapshot and its stored value and expiry are still the
  captured ones, every other entry of every partition stays as it is, and the returned list is
  exactly what was dropped, so that the log records it.
\<close>

theorem migrated_exact:
  assumes "store_inv s"
  shows "set (fst (dropMigrated p es s)) =
      {e \<in> set es. shard_lookup (s p) (e_mapName e) (e_key e) = Some \<lparr>v_data = e_value e, v_expireAt = e_expireAt e\<rparr>} \<and>
    (\<forall>q n k. shard_lookup (snd (dropMigrated p es s) q) n k =
      (if q = p \<and> (\<exists>e \<in> set (fst (dropMigrated p es s)). e_mapName e = n \<and> e_key e = k)
       then None else shard_lookup (s q) n k))"
  using assms
  by (auto simp: store_inv_def dropMigrated_lookup dropMigrated_dropped same_value_def)

definition demo_entry :: entry where
  "demo_entry = \<lparr>e_mapName = [1], e_key = [2], e_value = [3], e_expireAt = 0\<rparr>"

definition demo_store :: store where
  "demo_store = load_put 0 newStore demo_entry"

lemma demo_inv: "store_inv demo_store"
  by (simp add: demo_store_def load_put_def store_inv_def wf_put placed_put newStore_inv)

lemma demo_lookup:
  "shard_lookup (demo_store p) n k =
    (if p = routedPartition [1] [2] \<and> n = [1] \<and> k = [2] then Some \<lparr>v_data = [3], v_expireAt = 0\<rparr> else None)"
  by (auto simp: demo_store_def demo_entry_def load_put_lookup newStore_def)

theorem migrated_exact_witness:
  "fst (dropMigrated (routedPartition [1] [2]) [demo_entry] demo_store) = [demo_entry] \<and>
   shard_lookup (snd (dropMigrated (routedPartition [1] [2]) [demo_entry] demo_store) (routedPartition [1] [2])) [1] [2] = None"
proof -
  let ?p = "routedPartition [1] [2]"
  have "demo_entry \<in> set (fst (dropMigrated ?p [demo_entry] demo_store))"
    using migrated_exact [OF demo_inv, of ?p "[demo_entry]"] by (simp add: demo_lookup demo_entry_def)
  moreover have "shard_lookup (snd (dropMigrated ?p [demo_entry] demo_store) ?p) [1] [2] =
      (if \<exists>e \<in> set (fst (dropMigrated ?p [demo_entry] demo_store)). e_mapName e = [1] \<and> e_key e = [2]
       then None else shard_lookup (demo_store ?p) [1] [2])"
    using migrated_exact [OF demo_inv, of ?p "[demo_entry]"] by simp
  moreover have "fst (dropMigrated ?p [demo_entry] demo_store) = [demo_entry] \<or> fst (dropMigrated ?p [demo_entry] demo_store) = []"
    by (auto simp: dropMigrated_def split: option.splits prod.splits)
  ultimately show ?thesis by (auto simp: demo_entry_def)
qed

lemma pruneToKeyset_dropped:
  assumes w: "wf_store s"
  shows "e \<in> set (fst (pruneToKeyset p keep s)) \<longleftrightarrow>
    \<not> kept keep (e_mapName e) (e_key e) \<and>
    shard_lookup (s p) (e_mapName e) (e_key e) = Some \<lparr>v_data = e_value e, v_expireAt = e_expireAt e\<rparr>"
proof -
  have "e \<in> set (fst (pruneToKeyset p keep s)) \<longleftrightarrow>
    (\<exists>inner v. (e_mapName e, inner) \<in> set (s p) \<and> (e_key e, v) \<in> set inner \<and>
      \<not> kept keep (e_mapName e) (e_key e) \<and> v = \<lparr>v_data = e_value e, v_expireAt = e_expireAt e\<rparr>)"
    by (auto simp: pruneToKeyset_def image_iff Bex_def entry_of_eq_iff)
  also have "\<dots> \<longleftrightarrow> \<not> kept keep (e_mapName e) (e_key e) \<and>
      shard_lookup (s p) (e_mapName e) (e_key e) = Some \<lparr>v_data = e_value e, v_expireAt = e_expireAt e\<rparr>"
    using wf_storeD [OF w, of p] by (auto simp flip: wf_map_mem_lookup)
  finally show ?thesis .
qed

text \<open>
  Pruning a backup to the owner's key set removes exactly the keys of that partition that the
  owner does not list, keeps every listed key with its value, touches no other partition, and
  reports exactly the removed entries.
\<close>

theorem prune_exact:
  assumes "store_inv s"
  shows "(\<forall>q n k. shard_lookup (snd (pruneToKeyset p keep s) q) n k =
      (if q = p \<and> \<not> kept keep n k then None else shard_lookup (s q) n k)) \<and>
    (\<forall>e. e \<in> set (fst (pruneToKeyset p keep s)) \<longleftrightarrow>
      \<not> kept keep (e_mapName e) (e_key e) \<and>
      shard_lookup (s p) (e_mapName e) (e_key e) = Some \<lparr>v_data = e_value e, v_expireAt = e_expireAt e\<rparr>)"
  using assms pruneToKeyset_dropped [of s] by (simp add: store_inv_def pruneToKeyset_lookup)

theorem prune_exact_witness:
  "shard_lookup (snd (pruneToKeyset (routedPartition [1] [2]) [] demo_store) (routedPartition [1] [2])) [1] [2] = None \<and>
   demo_entry \<in> set (fst (pruneToKeyset (routedPartition [1] [2]) [] demo_store))"
  using prune_exact [OF demo_inv, of "routedPartition [1] [2]" "[]"]
  by (simp add: kept_def demo_lookup demo_entry_def)

section \<open>Expiry\<close>

text \<open>
  The periodic sweep is invisible: every read at the time of the sweep or later returns what it
  would have returned without the sweep, in every partition, and no expired entry is left.
\<close>

theorem sweep_invisible:
  assumes "store_inv s" "now \<le> now'" "p < Count"
  shows "store_lookup now' (snd (sweepExpired now s)) p n k = store_lookup now' s p n k \<and>
    (\<forall>v. shard_lookup (snd (sweepExpired now s) p) n k = Some v \<longrightarrow> \<not> expired v now)"
  using assms
  by (auto simp: store_lookup_live sweepExpired_lookup store_inv_def live_mono)
     (auto simp: live_def split: option.splits if_splits)

theorem sweep_invisible_witness:
  "store_lookup 7 (snd (sweepExpired 5 demo_store)) (routedPartition [1] [2]) [1] [2] = Some ([3], 0)"
proof -
  have "routedPartition [1] [2] < Count" by (simp add: routedPartition_def For_less)
  with sweep_invisible [OF demo_inv, of 5 7 "routedPartition [1] [2]" "[1]" "[2]"] show ?thesis
    by (simp add: store_lookup_live demo_lookup live_def expired_def)
qed

section \<open>The anti-entropy digest\<close>

text \<open>
  The digest of a partition depends only on what readers see in it. Two replicas at which every
  read of the partition returns the same value have the same digest, whatever the order, history and
  expiry times of their entries and whatever expired entries they still hold.
\<close>

theorem digest_content:
  assumes "store_inv s" "store_inv s'" "\<forall>n k. store_get now s p n k = store_get now' s' p n k"
  shows "partitionDigest now s p = partitionDigest now' s' p"
proof -
  let ?t = "\<lambda>e. (e_mapName e, e_key e, e_value e)"
  have mem: "(n, k, d) \<in> ?t ` set (snapshotPartition now s p) \<longleftrightarrow> store_get now s p n k = Some d"
    if "store_inv s" for s :: store and now n k d
  proof -
    have "(n, k, d) \<in> ?t ` set es \<longleftrightarrow>
      (\<exists>x. \<lparr>e_mapName = n, e_key = k, e_value = d, e_expireAt = x\<rparr> \<in> set es)" for es
    proof
      assume "(n, k, d) \<in> ?t ` set es"
      then obtain e where "e \<in> set es" "n = e_mapName e" "k = e_key e" "d = e_value e" by auto
      then show "\<exists>x. \<lparr>e_mapName = n, e_key = k, e_value = d, e_expireAt = x\<rparr> \<in> set es"
        by (intro exI [of _ "e_expireAt e"]) (cases e, simp)
    qed force
    also have "(\<exists>x. \<lparr>e_mapName = n, e_key = k, e_value = d, e_expireAt = x\<rparr> \<in> set (snapshotPartition now s p)) \<longleftrightarrow>
        (\<exists>x. live now (shard_lookup (s p) n k) = Some \<lparr>v_data = d, v_expireAt = x\<rparr>)"
      using that by (simp add: snapshotPartition_mem store_inv_def)
    also have "\<dots> \<longleftrightarrow> store_get now s p n k = Some d"
    proof (cases "live now (shard_lookup (s p) n k)")
      case (Some v)
      then show ?thesis by (cases v) (simp add: store_get_live)
    qed (simp add: store_get_live)
    finally show ?thesis .
  qed
  have "?t ` set (snapshotPartition now s p) = ?t ` set (snapshotPartition now' s' p)"
    using assms(3) by (intro set_eqI) (simp only: split_paired_all mem [OF assms(1)] mem [OF assms(2)])
  then show ?thesis
    using assms(1,2) unfolding partitionDigest_snapshot
    by (intro digest_of_content snapshotPartition_distinct) (auto simp: store_inv_def)
qed

definition demo_store2 :: store where
  "demo_store2 = snd (store_put 0 (routedPartition [1] [2]) [1] [2] [3] 9
     (snd (store_put 0 (routedPartition [1] [7]) [1] [7] [8] 1 newStore)))"

theorem digest_content_witness:
  "partitionDigest 5 demo_store (routedPartition [1] [2]) = partitionDigest 6 demo_store2 (routedPartition [1] [2])"
proof (rule digest_content)
  show "store_inv demo_store" by (rule demo_inv)
  show "store_inv demo_store2"
    by (simp add: demo_store2_def store_inv_def wf_put placed_put newStore_inv)
  show "\<forall>n k. store_get 5 demo_store (routedPartition [1] [2]) n k =
      store_get 6 demo_store2 (routedPartition [1] [2]) n k"
    by (auto simp: store_get_live demo_lookup demo_store2_def store_put_lookup newStore_def live_def expired_def)
qed

text \<open>
  The byte stream the digest hashes for one entry determines the entry: streams of different
  (map, key, value) triples differ, for names and keys whose length fits the 32-bit prefix, whatever
  bytes they contain.
\<close>

theorem digest_stream_injective:
  assumes "length n < 2 ^ 32" "length k < 2 ^ 32" "length n' < 2 ^ 32" "length k' < 2 ^ 32"
    "(n, k, d) \<noteq> (n', k', d')"
  shows "entryStream n k d \<noteq> entryStream n' k' d' \<and> entryHash n k d = fnv1a fnvOffset64 (entryStream n k d)"
  using entryStream_inject [OF assms(1-4), of d d'] assms(5) by (auto simp: entryHash_stream)

theorem digest_stream_injective_witness: "entryStream [1] [107, 0] [118] \<noteq> entryStream [1] [107] [0, 118]"
  using digest_stream_injective [of "[1]" "[107, 0]" "[1]" "[107]" "[118]" "[0, 118]"] by simp

section \<open>Snapshot and restore\<close>

lemma foldl_load_put_other:
  "\<forall>e\<in>set es. (e_mapName e, e_key e) \<noteq> (n, k) \<Longrightarrow>
    shard_lookup (foldl (load_put now) s es p) n k = shard_lookup (s p) n k"
  by (induction es arbitrary: s) (auto simp: load_put_lookup)

lemma foldl_load_put_mem:
  assumes "distinct (map (\<lambda>e. (e_mapName e, e_key e)) es)" "e \<in> set es"
  shows "shard_lookup (foldl (load_put now) s es p) (e_mapName e) (e_key e) =
    (if p = routedPartition (e_mapName e) (e_key e) then Some \<lparr>v_data = e_value e, v_expireAt = e_expireAt e\<rparr>
     else shard_lookup (s p) (e_mapName e) (e_key e))"
  using assms
proof (induction es arbitrary: s)
  case (Cons x es)
  show ?case
  proof (cases "e = x")
    case True
    with Cons.prems(1) have "\<forall>y\<in>set es. (e_mapName y, e_key y) \<noteq> (e_mapName e, e_key e)"
      by (auto simp: image_iff)
    from foldl_load_put_other [OF this] True show ?thesis by (simp add: load_put_lookup)
  next
    case False
    with Cons.prems(2) have e: "e \<in> set es" by simp
    with Cons.prems(1) have "(e_mapName x, e_key x) \<noteq> (e_mapName e, e_key e)" by (auto simp: image_iff)
    with e Cons.IH [of "load_put now s x"] Cons.prems show ?thesis by (auto simp: load_put_lookup)
  qed
qed simp

lemma snapshotAll_mem:
  assumes "store_inv s"
  shows "e \<in> set (snapshotAll now s) \<longleftrightarrow>
    live now (shard_lookup (s (routedPartition (e_mapName e) (e_key e))) (e_mapName e) (e_key e)) =
      Some \<lparr>v_data = e_value e, v_expireAt = e_expireAt e\<rparr>"
proof -
  have "e \<in> set (snapshotAll now s) \<longleftrightarrow> (\<exists>p < Count. e \<in> set (snapshotPartition now s p))"
    by (auto simp: snapshotAll_def)
  also have "\<dots> \<longleftrightarrow> (\<exists>p < Count. live now (shard_lookup (s p) (e_mapName e) (e_key e)) =
      Some \<lparr>v_data = e_value e, v_expireAt = e_expireAt e\<rparr>)"
    using assms by (simp add: snapshotPartition_mem store_inv_def)
  also have "\<dots> \<longleftrightarrow> live now (shard_lookup (s (routedPartition (e_mapName e) (e_key e))) (e_mapName e) (e_key e)) =
      Some \<lparr>v_data = e_value e, v_expireAt = e_expireAt e\<rparr>"
  proof -
    have "p = routedPartition (e_mapName e) (e_key e)"
      if "live now (shard_lookup (s p) (e_mapName e) (e_key e)) = Some v" for p v
      using assms that by (auto simp: store_inv_def placed_def live_def split: option.splits)
    moreover have "routedPartition (e_mapName e) (e_key e) < Count" by (simp add: routedPartition_def For_less)
    ultimately show ?thesis by blast
  qed
  finally show ?thesis .
qed

lemma snapshotAll_distinct:
  assumes "store_inv s"
  shows "distinct (map (\<lambda>e. (e_mapName e, e_key e)) (snapshotAll now s))"
proof -
  have "distinct (map (\<lambda>e. (e_mapName e, e_key e)) (concat (map (snapshotPartition now s) ps)))" if "distinct ps" for ps
    using that
  proof (induction ps)
    case (Cons p ps)
    have "(e_mapName e, e_key e) \<noteq> (e_mapName e', e_key e')"
      if "e \<in> set (snapshotPartition now s p)" "q \<in> set ps" "e' \<in> set (snapshotPartition now s q)" for e e' q
    proof
      assume eq: "(e_mapName e, e_key e) = (e_mapName e', e_key e')"
      have r: "routedPartition (e_mapName x) (e_key x) = r" if "x \<in> set (snapshotPartition now s r)" for x r
        using assms that snapshotPartition_mem [of s r x now]
        by (auto simp: store_inv_def placed_def live_def split: option.splits)
      from r [OF that(1)] r [OF that(3)] eq that(2) Cons.prems show False by simp
    qed
    then have "(\<lambda>e. (e_mapName e, e_key e)) ` set (snapshotPartition now s p) \<inter>
        (\<lambda>e. (e_mapName e, e_key e)) ` set (concat (map (snapshotPartition now s) ps)) = {}" by auto
    moreover have "wf_shard (s p)" using assms by (simp add: store_inv_def)
    ultimately show ?case
      using Cons snapshotPartition_distinct [of s p now] by (simp add: image_UN)
  qed simp
  then show ?thesis by (simp add: snapshotAll_def)
qed

text \<open>
  C15: A snapshot restores what it captured. Loading the snapshot of a store into a fresh node makes
  every read, at the time of the snapshot or later, return what the original store returns, with the
  same expiry, as long as no queue metadata has the legacy packed form.
\<close>

theorem snapshot_restores:
  assumes "store_inv s" "\<forall>e \<in> set (snapshotAll now s). \<not> legacy e" "now \<le> now'"
  shows "store_lookup now' (loadAll t (snapshotAll now s) newStore) (routedPartition n k) n k =
    store_lookup now' s (routedPartition n k) n k"
proof -
  let ?l = "foldl (load_put t) newStore (snapshotAll now s)"
  have l: "loadAll t (snapshotAll now s) newStore = ?l"
    using loadAll_plain [OF assms(2), of t newStore] by (simp add: load_put_def [abs_def])
  have "shard_lookup (?l (routedPartition n k)) n k = live now (shard_lookup (s (routedPartition n k)) n k)"
  proof (cases "live now (shard_lookup (s (routedPartition n k)) n k)")
    case None
    then have "\<forall>e\<in>set (snapshotAll now s). (e_mapName e, e_key e) \<noteq> (n, k)"
      using snapshotAll_mem [OF assms(1)] by auto
    from foldl_load_put_other [OF this] None show ?thesis by (simp add: newStore_def)
  next
    case (Some v)
    then have "entry_of n k v \<in> set (snapshotAll now s)"
      by (simp add: snapshotAll_mem [OF assms(1)])
    from foldl_load_put_mem [OF snapshotAll_distinct [OF assms(1)] this, of t newStore] Some show ?thesis by simp
  qed
  then show ?thesis by (simp add: l store_lookup_live live_mono [OF assms(3)])
qed

theorem snapshot_restores_witness:
  "store_lookup 8 (loadAll 6 (snapshotAll 5 demo_store) newStore) (routedPartition [1] [2]) [1] [2] = Some ([3], 0)"
proof -
  have "\<forall>e \<in> set (snapshotAll 5 demo_store). \<not> legacy e"
    by (auto simp: snapshotAll_mem [OF demo_inv] demo_lookup legacy_def queueMap_def str_def live_def
        split: if_splits)
  from snapshot_restores [OF demo_inv this, of 8 6 "[1]" "[2]"] show ?thesis
    by (simp add: store_lookup_live demo_lookup live_def expired_def)
qed

end
