(* ===== verification/Cluster.thy ===== *)
theory Cluster
  imports Membership Hooks StoreInv
begin

text \<open>
  The state of a cluster, and the operations of \<open>cluster/membership.go\<close> that send messages.

  \<open>Node\<close> is the state of one node: its membership view, its share of the maps, its log, hooks and
  registries (the fields of \<open>imap.Service\<close> and of \<open>medusa.Node\<close>), its clock and its disk. A \<open>world\<close>
  has a node at every address, the links that work, and the state \<open>'x\<close> outside the grid. A call is
  synchronous: \<open>send src dst req\<close> runs the request on the node at \<open>dst\<close> and returns its response with
  the world after it. The transport is an argument of every operation that uses one.

  \<open>n_io\<close> lists the outcomes of the next file operations of a node; when it is empty they succeed. The
  clock of a node stands still during an operation.
\<close>

section \<open>Nodes and worlds\<close>

record 'x Node =
  n_mem :: Membership
  n_store :: store
  n_wal :: "wal option"
  n_events :: "'x listeners"
  n_loaders :: "'x loaderRegistry"
  n_procs :: "(bytes, processor) gomap"
  n_aggs :: "(bytes, aggregator) gomap"
  n_clock :: int
  n_io :: "io list"
  n_walFile :: os_file
  n_snapFile :: os_file
  n_durable :: bool
  n_maxEntries :: int
  n_lastMigrated :: u64
  n_lastSave :: int
  n_checkpointDue :: bool
  n_cursor :: int

record 'x world =
  w_node :: "bytes \<Rightarrow> 'x Node"
  w_up :: "bytes \<Rightarrow> bytes \<Rightarrow> bool"
  w_ext :: 'x

type_synonym 'x send = "bytes \<Rightarrow> bytes \<Rightarrow> request \<Rightarrow> 'x world \<Rightarrow> (error + response) \<times> 'x world"

definition set_node :: "bytes \<Rightarrow> 'x Node \<Rightarrow> 'x world \<Rightarrow> 'x world" where
  "set_node a n w = w\<lparr>w_node := (w_node w)(a := n)\<rparr>"

definition set_mem :: "bytes \<Rightarrow> Membership \<Rightarrow> 'x world \<Rightarrow> 'x world" where
  "set_mem a m w = set_node a ((w_node w a)\<lparr>n_mem := m\<rparr>) w"

abbreviation view :: "'x world \<Rightarrow> bytes \<Rightarrow> Membership" where
  "view w a \<equiv> n_mem (w_node w a)"

abbreviation self_id :: "'x world \<Rightarrow> bytes \<Rightarrow> bytes" where
  "self_id w a \<equiv> m_ID (mem_self (n_mem (w_node w a)))"

abbreviation clock :: "'x world \<Rightarrow> bytes \<Rightarrow> int" where
  "clock w a \<equiv> n_clock (w_node w a)"

lemma set_node_sel [simp]:
  "w_node (set_node a n w) b = (if b = a then n else w_node w b)" "w_up (set_node a n w) = w_up w"
  "w_ext (set_node a n w) = w_ext w"
  by (simp_all add: set_node_def)

lemma set_mem_sel [simp]:
  "w_node (set_mem a m w) b = (if b = a then (w_node w a)\<lparr>n_mem := m\<rparr> else w_node w b)" "w_up (set_mem a m w) = w_up w"
  "w_ext (set_mem a m w) = w_ext w"
  by (simp_all add: set_mem_def)

lemma set_node_id [simp]: "set_node a (w_node w a) w = w"
  by (simp add: set_node_def)

section \<open>Membership over the network\<close>

definition sendJoin :: "'x send \<Rightarrow> bytes \<Rightarrow> bytes \<Rightarrow> 'x world \<Rightarrow> (error + Member list) \<times> 'x world" where
  "sendJoin send a seed w =
     (case send a seed (JoinReq (Some (toProto (mem_self (view w a))))) w of
        (Inl e, w') \<Rightarrow> (Inl e, w')
      | (Inr r, w') \<Rightarrow>
          (if resp_type r \<noteq> MT_JOIN_RESPONSE then (Inl (ErrUnexpectedResponse (resp_type r)), w')
           else case r of
                  JoinResp ms \<Rightarrow> (Inr (map memberFromProto ms), w')
                | BadResp t e \<Rightarrow> (Inl (ErrProto e), w')
                | _ \<Rightarrow> (Inr [], w')))"

definition Gossip :: "'x send \<Rightarrow> bytes \<Rightarrow> 'x world \<Rightarrow> 'x world" where
  "Gossip send a w =
     (let (ms, v) = snapshotProto (view w a)
      in fold (\<lambda>peer w. if m_ID peer = self_id w a then w else snd (send a (m_Addr peer) (MemberListReq ms v) w))
           (Members (view w a)) w)"

definition join_seed ::
  "'x send \<Rightarrow> bytes \<Rightarrow> bytes \<Rightarrow> error option \<times> bool \<times> 'x world \<Rightarrow> error option \<times> bool \<times> 'x world" where
  "join_seed send a seed acc =
     (case acc of (lastErr, reached, w) \<Rightarrow>
        if seed = m_Addr (mem_self (view w a)) then (lastErr, reached, w)
        else case sendJoin send a seed w of
               (Inl e, w') \<Rightarrow> (Some e, reached, w')
             | (Inr members, w') \<Rightarrow> (lastErr, True, set_mem a (snd (merge members (view w' a))) w'))"

definition Join :: "'x send \<Rightarrow> bytes \<Rightarrow> bytes list \<Rightarrow> 'x world \<Rightarrow> error option \<times> 'x world" where
  "Join send a seeds w =
     (case fold (join_seed send a) seeds (None, False, w) of (lastErr, reached, w') \<Rightarrow>
        if \<not> reached then (lastErr, w') else (None, Gossip send a w'))"

definition Ping :: "'x send \<Rightarrow> bytes \<Rightarrow> bytes \<Rightarrow> 'x world \<Rightarrow> error option \<times> 'x world" where
  "Ping send a addr w =
     (case send a addr HeartbeatReq w of (Inl e, w') \<Rightarrow> (Some e, w') | (Inr _, w') \<Rightarrow> (None, w'))"

definition CheckLiveness :: "'x send \<Rightarrow> bytes \<Rightarrow> 'x world \<Rightarrow> bytes list \<times> 'x world" where
  "CheckLiveness send a w =
     fold (\<lambda>peer (evicted, w).
       if m_ID peer = self_id w a then (evicted, w)
       else case Ping send a (m_Addr peer) w of
              (None, w') \<Rightarrow> (evicted, w')
            | (Some _, w') \<Rightarrow>
                (case removeLocked (clock w' a) (m_ID peer) (view w' a) of (gone, m') \<Rightarrow>
                   (if gone then evicted @ [m_ID peer] else evicted, set_mem a m' w')))
       (Members (view w a)) ([], w)"

definition DetectFailures :: "'x send \<Rightarrow> bytes \<Rightarrow> u8 \<Rightarrow> 'x world \<Rightarrow> bytes list \<times> 'x world" where
  "DetectFailures send a threshold0 w =
     (let threshold = (if threshold0 = 0 then 1 else threshold0)
      in fold (\<lambda>peer (evicted, w).
           if m_ID peer = self_id w a then (evicted, w)
           else case Ping send a (m_Addr peer) w of (err, w') \<Rightarrow>
             (case judge threshold (clock w' a) (err = None) (m_ID peer) (view w' a) of (gone, m') \<Rightarrow>
                (if gone then evicted @ [m_ID peer] else evicted, set_mem a m' w')))
           (Members (view w a)) ([], w))"

definition AnnounceLeave :: "'x send \<Rightarrow> bytes \<Rightarrow> 'x world \<Rightarrow> 'x world" where
  "AnnounceLeave send a w =
     fold (\<lambda>peer w. if m_ID peer = self_id w a then w else snd (send a (m_Addr peer) (LeaveReq (self_id w a)) w))
       (Members (view w a)) w"

section \<open>The log of a node\<close>

definition next_io :: "'x Node \<Rightarrow> io" where
  "next_io n = (case n_io n of [] \<Rightarrow> IoOk | x # _ \<Rightarrow> x)"

text \<open>\<open>s.wal.appendLocked\<close> on the node's log file.\<close>

definition append_record :: "u8 \<times> SnapshotEntry \<Rightarrow> 'x Node \<Rightarrow> error option \<times> 'x Node" where
  "append_record r n =
     (case n_wal n of
        None \<Rightarrow> (None, n)
      | Some w \<Rightarrow>
          (case appendLocked (next_io n) (fst r) (snd r) (w, file_bytes (n_walFile n)) of (err, w', b) \<Rightarrow>
             (map_option ErrOs err, n\<lparr>n_wal := Some w', n_walFile := Content b, n_io := tl (n_io n)\<rparr>)))"

text \<open>Append records in order up to the first error.\<close>

fun append_all :: "(u8 \<times> SnapshotEntry) list \<Rightarrow> 'x Node \<Rightarrow> error option \<times> 'x Node" where
  "append_all [] n = (None, n)"
| "append_all (r # rs) n =
     (case append_record r n of (Some e, n') \<Rightarrow> (Some e, n') | (None, n') \<Rightarrow> append_all rs n')"

text \<open>
  \<open>Service.logged\<close>: the store mutation and its records are one unit under the log's lock. The result
  \<open>'r\<close> of the mutation is what the caller captures in outer variables; \<open>rec\<close> gives its records.
\<close>

definition logged :: "(store \<Rightarrow> 'r \<times> store) \<Rightarrow> ('r \<Rightarrow> log) \<Rightarrow> 'x Node \<Rightarrow> (error option \<times> 'r) \<times> 'x Node" where
  "logged mutate rec n =
     (case mutate (n_store n) of (r, s) \<Rightarrow>
        if n_wal n = None then ((None, r), n\<lparr>n_store := s\<rparr>)
        else (case append_all (rec r) (n\<lparr>n_store := s\<rparr>) of (err, n') \<Rightarrow> ((err, r), n')))"

definition dropMigratedLogged :: "nat \<Rightarrow> entry list \<Rightarrow> 'x Node \<Rightarrow> 'x Node" where
  "dropMigratedLogged p entries n =
     (case dropMigrated p entries (n_store n) of (dropped, s) \<Rightarrow>
        if n_wal n = None then n\<lparr>n_store := s\<rparr>
        else snd (append_all (map (\<lambda>e. (walOpRemove, remove_record (e_mapName e) (e_key e))) dropped) (n\<lparr>n_store := s\<rparr>)))"

definition pruneToKeysetLogged :: "nat \<Rightarrow> keyset \<Rightarrow> 'x Node \<Rightarrow> nat \<times> 'x Node" where
  "pruneToKeysetLogged p keep n =
     (case pruneToKeyset p keep (n_store n) of (dropped, s) \<Rightarrow>
        if n_wal n = None then (length dropped, n\<lparr>n_store := s\<rparr>)
        else (length dropped,
              snd (append_all (map (\<lambda>e. (walOpRemove, remove_record (e_mapName e) (e_key e))) dropped) (n\<lparr>n_store := s\<rparr>))))"

end
