(* ===== verification/Service.thy ===== *)
theory Service
  imports Cluster
begin

text \<open>
  The map service of a node, \<open>imap/service.go\<close>: the owner-side operations with their logging,
  replication, events and write-through; the remote calls to peers; migration, anti-entropy and
  eviction; snapshot and restore; and \<open>Handle\<close>, which answers the calls of peers.

  An operation takes the transport, the address \<open>a\<close> of the node it runs on and the world, and returns
  its results with the world after it. The loop bodies of the long operations are definitions of their
  own.
\<close>

section \<open>Time to live\<close>

text \<open>Go's integer division rounds towards zero.\<close>

definition go_div :: "int \<Rightarrow> int \<Rightarrow> int" where
  "go_div a b = sgn a * sgn b * (\<bar>a\<bar> div \<bar>b\<bar>)"

definition millisecond :: int where
  "millisecond = 1000000"

definition expireFromTTL :: "int \<Rightarrow> int \<Rightarrow> int" where
  "expireFromTTL now ttlMs = (if ttlMs \<le> 0 then 0 else wrap64 (now + wrap64 (ttlMs * millisecond)))"

definition remainingTTLms :: "int \<Rightarrow> int \<Rightarrow> int" where
  "remainingTTLms expireAt now = (if expireAt = 0 then 0 else go_div (wrap64 (expireAt - now)) millisecond)"

section \<open>Calls to a peer\<close>

definition sendPut ::
  "'x send \<Rightarrow> bytes \<Rightarrow> bytes \<Rightarrow> bytes \<Rightarrow> bytes \<Rightarrow> bytes \<Rightarrow> int \<Rightarrow> bool \<Rightarrow> 'x world \<Rightarrow> error option \<times> 'x world" where
  "sendPut send a addr name key val ttlMs backup w =
     (case send a addr (PutReq name key val backup ttlMs) w of
        (Inl e, w') \<Rightarrow> (Some e, w')
      | (Inr r, w') \<Rightarrow>
          (if resp_type r \<noteq> MT_PUT_RESPONSE then Some (ErrUnexpectedResponse (resp_type r)) else None, w'))"

definition sendGet :: "'x send \<Rightarrow> bytes \<Rightarrow> bytes \<Rightarrow> bytes \<Rightarrow> bytes \<Rightarrow> 'x world \<Rightarrow> (error + bytes \<times> bool) \<times> 'x world" where
  "sendGet send a addr name key w =
     (case send a addr (GetReq name key) w of
        (Inl e, w') \<Rightarrow> (Inl e, w')
      | (Inr r, w') \<Rightarrow>
          (case r of
             GetResp found val \<Rightarrow> Inr (val, found)
           | BadResp t e \<Rightarrow> if t = MT_GET_RESPONSE then Inl (ErrProto e) else Inl (ErrUnexpectedResponse t)
           | _ \<Rightarrow> Inl (ErrUnexpectedResponse (resp_type r)), w'))"

definition sendRemove ::
  "'x send \<Rightarrow> bytes \<Rightarrow> bytes \<Rightarrow> bytes \<Rightarrow> bytes \<Rightarrow> bool \<Rightarrow> 'x world \<Rightarrow> (error + bool) \<times> 'x world" where
  "sendRemove send a addr name key backup w =
     (case send a addr (RemoveReq name key backup) w of
        (Inl e, w') \<Rightarrow> (Inl e, w')
      | (Inr r, w') \<Rightarrow>
          (case r of
             RemoveResp existed \<Rightarrow> Inr existed
           | BadResp t e \<Rightarrow> if t = MT_REMOVE_RESPONSE then Inl (ErrProto e) else Inl (ErrUnexpectedResponse t)
           | _ \<Rightarrow> Inl (ErrUnexpectedResponse (resp_type r)), w'))"

definition sendEvict :: "'x send \<Rightarrow> bytes \<Rightarrow> bytes \<Rightarrow> bytes \<Rightarrow> bytes \<Rightarrow> 'x world \<Rightarrow> (error + bool) \<times> 'x world" where
  "sendEvict send a addr name key w =
     (case send a addr (EvictReq name key) w of
        (Inl e, w') \<Rightarrow> (Inl e, w')
      | (Inr r, w') \<Rightarrow>
          (case r of
             EvictResp existed \<Rightarrow> Inr existed
           | BadResp t e \<Rightarrow> if t = MT_EVICT_RESPONSE then Inl (ErrProto e) else Inl (ErrUnexpectedResponse t)
           | _ \<Rightarrow> Inl (ErrUnexpectedResponse (resp_type r)), w'))"

definition sendDigest :: "'x send \<Rightarrow> bytes \<Rightarrow> bytes \<Rightarrow> nat \<Rightarrow> u64 \<Rightarrow> 'x world \<Rightarrow> (error + bool) \<times> 'x world" where
  "sendDigest send a addr p digest w =
     (case send a addr (DigestReq (of_nat p) digest) w of
        (Inl e, w') \<Rightarrow> (Inl e, w')
      | (Inr r, w') \<Rightarrow>
          (case r of
             DigestResp same \<Rightarrow> Inr same
           | BadResp t e \<Rightarrow> if t = MT_DIGEST_RESPONSE then Inl (ErrProto e) else Inl (ErrUnexpectedResponse t)
           | _ \<Rightarrow> Inl (ErrUnexpectedResponse (resp_type r)), w'))"

definition sendReconcile ::
  "'x send \<Rightarrow> bytes \<Rightarrow> bytes \<Rightarrow> nat \<Rightarrow> key_ref list \<Rightarrow> 'x world \<Rightarrow> (error + u64) \<times> 'x world" where
  "sendReconcile send a addr p keys w =
     (case send a addr (ReconcileReq (of_nat p) keys) w of
        (Inl e, w') \<Rightarrow> (Inl e, w')
      | (Inr r, w') \<Rightarrow>
          (case r of
             ReconcileResp pruned \<Rightarrow> Inr pruned
           | BadResp t e \<Rightarrow> if t = MT_RECONCILE_RESPONSE then Inl (ErrProto e) else Inl (ErrUnexpectedResponse t)
           | _ \<Rightarrow> Inl (ErrUnexpectedResponse (resp_type r)), w'))"

definition sendExecute ::
  "'x send \<Rightarrow> bytes \<Rightarrow> bytes \<Rightarrow> bytes \<Rightarrow> bytes \<Rightarrow> bytes \<Rightarrow> bytes \<Rightarrow> 'x world \<Rightarrow> (error + bytes) \<times> 'x world" where
  "sendExecute send a addr name key procName arg w =
     (case send a addr (ExecuteReq name key procName arg) w of
        (Inl e, w') \<Rightarrow> (Inl e, w')
      | (Inr r, w') \<Rightarrow>
          (case r of
             ExecuteResp result \<Rightarrow> Inr result
           | BadResp t e \<Rightarrow> if t = MT_EXECUTE_RESPONSE then Inl (ErrProto e) else Inl (ErrUnexpectedResponse t)
           | _ \<Rightarrow> Inl (ErrUnexpectedResponse (resp_type r)), w'))"

definition sendClear :: "'x send \<Rightarrow> bytes \<Rightarrow> bytes \<Rightarrow> bytes \<Rightarrow> 'x world \<Rightarrow> (error + u64) \<times> 'x world" where
  "sendClear send a addr name w =
     (case send a addr (ClearReq name) w of
        (Inl e, w') \<Rightarrow> (Inl e, w')
      | (Inr r, w') \<Rightarrow>
          (case r of
             ClearResp removed \<Rightarrow> Inr removed
           | BadResp t e \<Rightarrow> if t = MT_CLEAR_RESPONSE then Inl (ErrProto e) else Inl (ErrUnexpectedResponse t)
           | _ \<Rightarrow> Inl (ErrUnexpectedResponse (resp_type r)), w'))"

definition sendSize :: "'x send \<Rightarrow> bytes \<Rightarrow> bytes \<Rightarrow> bytes \<Rightarrow> 'x world \<Rightarrow> (error + u64) \<times> 'x world" where
  "sendSize send a addr name w =
     (case send a addr (SizeReq name) w of
        (Inl e, w') \<Rightarrow> (Inl e, w')
      | (Inr r, w') \<Rightarrow>
          (case r of
             SizeResp n \<Rightarrow> Inr n
           | BadResp t e \<Rightarrow> if t = MT_SIZE_RESPONSE then Inl (ErrProto e) else Inl (ErrUnexpectedResponse t)
           | _ \<Rightarrow> Inl (ErrUnexpectedResponse (resp_type r)), w'))"

text \<open>\<open>strings.Contains(re.Message, ErrUnknownAggregator.Error())\<close> on the text of a remote error.\<close>

fun unknown_aggregator :: "error \<Rightarrow> bool" where
  "unknown_aggregator (ErrUnknownAggregator _) = True"
| "unknown_aggregator (ErrUnknownAggregatorPeer _) = True"
| "unknown_aggregator (RemoteError _ e) = unknown_aggregator e"
| "unknown_aggregator _ = False"

definition sendAggregate ::
  "'x send \<Rightarrow> bytes \<Rightarrow> bytes \<Rightarrow> bytes \<Rightarrow> bytes \<Rightarrow> 'x world \<Rightarrow> (error + bytes) \<times> 'x world" where
  "sendAggregate send a addr name aggName w =
     (case send a addr (AggregateReq name aggName) w of
        (Inl e, w') \<Rightarrow>
          (case e of
             RemoteError _ re \<Rightarrow> if unknown_aggregator re then Inl (ErrUnknownAggregatorPeer addr) else Inl e
           | _ \<Rightarrow> Inl e, w')
      | (Inr r, w') \<Rightarrow>
          (case r of
             AggregateResp part \<Rightarrow> Inr part
           | BadResp t e \<Rightarrow> if t = MT_AGGREGATE_RESPONSE then Inl (ErrProto e) else Inl (ErrUnexpectedResponse t)
           | _ \<Rightarrow> Inl (ErrUnexpectedResponse (resp_type r)), w'))"

section \<open>Replication of one write\<close>

datatype rep_op = RepPut bytes int | RepRemove

definition replicate_to ::
  "'x send \<Rightarrow> bytes \<Rightarrow> Table \<Rightarrow> nat \<Rightarrow> rep_op \<Rightarrow> bytes \<Rightarrow> bytes \<Rightarrow> nat \<Rightarrow> 'x world \<Rightarrow> 'x world" where
  "replicate_to send a tbl p op name key i w =
     (case BackupAt tbl p (int i) of (backup, ok) \<Rightarrow>
        if \<not> ok \<or> backup = self_id w a then w
        else case AddrOf backup (view w a) of
               None \<Rightarrow> w
             | Some addr \<Rightarrow>
                 (case op of
                    RepPut val ttlMs \<Rightarrow> snd (sendPut send a addr name key val ttlMs True w)
                  | RepRemove \<Rightarrow> snd (sendRemove send a addr name key True w)))"

definition replicate_write :: "'x send \<Rightarrow> bytes \<Rightarrow> nat \<Rightarrow> rep_op \<Rightarrow> bytes \<Rightarrow> bytes \<Rightarrow> 'x world \<Rightarrow> 'x world" where
  "replicate_write send a p op name key w =
     (let tbl = mem_table (view w a)
      in fold (replicate_to send a tbl p op name key) [0..<NumBackups tbl p] w)"

definition emit_at :: "bytes \<Rightarrow> EventType \<Rightarrow> bytes \<Rightarrow> bytes \<Rightarrow> bytes \<Rightarrow> 'x world \<Rightarrow> 'x world" where
  "emit_at a t name key val w =
     set_node a ((w_node w a)\<lparr>n_events := emit t name key val (n_events (w_node w a))\<rparr>) w"

text \<open>Write-through and delete-through to the map's backing store, if it has one.\<close>

definition store_through :: "bytes \<Rightarrow> bytes \<Rightarrow> bytes \<Rightarrow> bytes \<Rightarrow> 'x world \<Rightarrow> error option \<times> 'x world" where
  "store_through a name key val w =
     (case loaders_store name (n_loaders (w_node w a)) of
        None \<Rightarrow> (None, w)
      | Some ms \<Rightarrow> (case ms_Store ms key val (w_ext w) of (err, x) \<Rightarrow> (map_option ErrExternal err, w\<lparr>w_ext := x\<rparr>)))"

definition delete_through :: "bytes \<Rightarrow> bytes \<Rightarrow> bytes \<Rightarrow> 'x world \<Rightarrow> error option \<times> 'x world" where
  "delete_through a name key w =
     (case loaders_store name (n_loaders (w_node w a)) of
        None \<Rightarrow> (None, w)
      | Some ms \<Rightarrow> (case ms_Delete ms key (w_ext w) of (err, x) \<Rightarrow> (map_option ErrExternal err, w\<lparr>w_ext := x\<rparr>)))"

section \<open>Owner-side operations\<close>

text \<open>The logged part of a put and of a remove, all that a backup write does.\<close>

definition local_put :: "bytes \<Rightarrow> bytes \<Rightarrow> bytes \<Rightarrow> int \<Rightarrow> 'x Node \<Rightarrow> (error option \<times> bool) \<times> 'x Node" where
  "local_put name key val ttlMs n =
     (let p = routedPartition name key; expireAt = expireFromTTL (n_clock n) ttlMs
      in logged (store_put (n_clock n) p name key val expireAt)
           (\<lambda>_. [(walOpPut, put_record name key val expireAt)]) n)"

definition local_remove :: "bytes \<Rightarrow> bytes \<Rightarrow> 'x Node \<Rightarrow> (error option \<times> bool) \<times> 'x Node" where
  "local_remove name key n =
     logged (store_remove (n_clock n) (routedPartition name key) name key)
       (\<lambda>_. [(walOpRemove, remove_record name key)]) n"

definition applyPut ::
  "'x send \<Rightarrow> bytes \<Rightarrow> bytes \<Rightarrow> bytes \<Rightarrow> bytes \<Rightarrow> int \<Rightarrow> bool \<Rightarrow> 'x world \<Rightarrow> (bool \<times> error option) \<times> 'x world" where
  "applyPut send a name key val ttlMs isBackup w =
     (case local_put name key val ttlMs (w_node w a) of ((err, created), n) \<Rightarrow>
        let w1 = set_node a n w
        in if err \<noteq> None then ((created, err), w1)
           else if isBackup then ((created, None), w1)
           else (let w2 = replicate_write send a (routedPartition name key) (RepPut val ttlMs) name key w1;
                     w3 = (if IsReservedMap name then w2
                           else emit_at a (if created then EventCreated else EventUpdated) name key val w2)
                 in case store_through a name key val w3 of (err, w4) \<Rightarrow> ((created, err), w4)))"

definition getThrough :: "bytes \<Rightarrow> bytes \<Rightarrow> bytes \<Rightarrow> 'x world \<Rightarrow> (bytes \<times> bool \<times> error option) \<times> 'x world" where
  "getThrough a name key w =
     (let n = w_node w a; p = routedPartition name key
      in case store_get (n_clock n) (n_store n) p name key of
           Some v \<Rightarrow> ((v, True, None), w)
         | None \<Rightarrow>
             (case loaders_loader name (n_loaders n) of
                None \<Rightarrow> (([], False, None), w)
              | Some ld \<Rightarrow>
                  if OwnerOf (mem_table (n_mem n)) p \<noteq> self_id w a then (([], False, None), w)
                  else (case ldr_Load ld key (w_ext w) of ((v, found, err), x) \<Rightarrow>
                          let w1 = w\<lparr>w_ext := x\<rparr>
                          in if err \<noteq> None \<or> \<not> found then (([], found, map_option ErrExternal err), w1)
                             else (case cacheLoaded (n_clock n) p name key v (n_store n) of (cached, s) \<Rightarrow>
                                     ((cached, True, None), set_node a (n\<lparr>n_store := s\<rparr>) w1)))))"

definition applyRemove ::
  "'x send \<Rightarrow> bytes \<Rightarrow> bytes \<Rightarrow> bytes \<Rightarrow> bool \<Rightarrow> 'x world \<Rightarrow> (bool \<times> error option) \<times> 'x world" where
  "applyRemove send a name key isBackup w =
     (case local_remove name key (w_node w a) of ((err, existed), n) \<Rightarrow>
        let w1 = set_node a n w
        in if err \<noteq> None then ((existed, err), w1)
           else if isBackup then ((existed, None), w1)
           else (let w2 = replicate_write send a (routedPartition name key) RepRemove name key w1;
                     w3 = (if \<not> IsReservedMap name \<and> existed then emit_at a EventRemoved name key [] w2 else w2)
                 in case delete_through a name key w3 of (err, w4) \<Rightarrow> ((existed, err), w4)))"

definition applyEvict :: "'x send \<Rightarrow> bytes \<Rightarrow> bytes \<Rightarrow> bytes \<Rightarrow> 'x world \<Rightarrow> (bool \<times> error option) \<times> 'x world" where
  "applyEvict send a name key w =
     (case local_remove name key (w_node w a) of ((err, existed), n) \<Rightarrow>
        let w1 = set_node a n w
        in if err \<noteq> None then ((existed, err), w1)
           else ((existed, None), replicate_write send a (routedPartition name key) RepRemove name key w1))"

text \<open>
  The queue branch of an execute. \<open>queueOp\<close> runs in one \<open>updateMulti\<close> section; its mutations are
  logged with it and then replicated one by one.
\<close>

definition mutation_record :: "mutation \<Rightarrow> u8 \<times> SnapshotEntry" where
  "mutation_record m =
     (if m_del m then (walOpRemove, remove_record (m_mapName m) (m_key m))
      else (walOpPut, put_record (m_mapName m) (m_key m) (m_value m) 0))"

definition local_queue ::
  "bytes \<Rightarrow> bytes \<Rightarrow> bytes \<Rightarrow> 'x Node \<Rightarrow> (error option \<times> (queue_error + bytes) \<times> mutation list) \<times> 'x Node" where
  "local_queue qname op arg n =
     logged (\<lambda>s. case updateMulti (For qname) (queueOp qname op arg (tx_get (n_clock n)) tx_set tx_del) s of
                    (r, muts, s') \<Rightarrow> ((r, muts), s'))
       (\<lambda>(r, muts). map mutation_record muts) n"

definition replicate_mutation :: "'x send \<Rightarrow> bytes \<Rightarrow> nat \<Rightarrow> mutation \<Rightarrow> 'x world \<Rightarrow> 'x world" where
  "replicate_mutation send a p m w =
     replicate_write send a p (if m_del m then RepRemove else RepPut (m_value m) 0) (m_mapName m) (m_key m) w"

definition applyQueueExecute ::
  "'x send \<Rightarrow> bytes \<Rightarrow> bytes \<Rightarrow> bytes \<Rightarrow> bytes \<Rightarrow> 'x world \<Rightarrow> (error + bytes) \<times> 'x world" where
  "applyQueueExecute send a qname op arg w =
     (case local_queue qname op arg (w_node w a) of ((err, r, muts), n) \<Rightarrow>
        let w1 = set_node a n w
        in case err of
             Some e \<Rightarrow> (Inl e, w1)
           | None \<Rightarrow>
               (case r of
                  Inl qe \<Rightarrow> (Inl (ErrQueue qe), w1)
                | Inr out \<Rightarrow> (Inr out, fold (replicate_mutation send a (For qname)) muts w1)))"

definition local_execute ::
  "bytes \<Rightarrow> bytes \<Rightarrow> processor \<Rightarrow> bytes \<Rightarrow> 'x Node \<Rightarrow> (error option \<times> Action \<times> int \<times> bytes \<times> bool \<times> bytes) \<times> 'x Node" where
  "local_execute name key pr arg n =
     logged
       (\<lambda>s. case store_update (n_clock n) (For key) name key
               (\<lambda>cur ex. case pr cur ex arg of (newVal, action, out) \<Rightarrow> (newVal, action, (newVal, ex, out))) s of
              ((action, expireAt, newVal, existed, out), s') \<Rightarrow> ((action, expireAt, newVal, existed, out), s'))
       (\<lambda>(action, expireAt, newVal, existed, out).
          case action of
            Set \<Rightarrow> [(walOpPut, put_record name key newVal expireAt)]
          | Delete \<Rightarrow> [(walOpRemove, remove_record name key)]
          | Keep \<Rightarrow> []) n"

definition applyExecute ::
  "'x send \<Rightarrow> bytes \<Rightarrow> bytes \<Rightarrow> bytes \<Rightarrow> bytes \<Rightarrow> bytes \<Rightarrow> 'x world \<Rightarrow> (error + bytes) \<times> 'x world" where
  "applyExecute send a name key procName arg w =
     (if name = queueMap then applyQueueExecute send a key procName arg w
      else if name = queueSegMap then (Inl ErrReservedMap, w)
      else case lookupProcessor (n_procs (w_node w a)) procName of
             None \<Rightarrow> (Inl (ErrUnknownProcessor procName), w)
           | Some pr \<Rightarrow>
               (case local_execute name key pr arg (w_node w a) of ((err, action, expireAt, newVal, existed, out), n) \<Rightarrow>
                  let w1 = set_node a n w; p = For key
                  in case err of
                       Some e \<Rightarrow> (Inl e, w1)
                     | None \<Rightarrow>
                         (case action of
                            Set \<Rightarrow>
                              (let w2 = replicate_write send a p (RepPut newVal (remainingTTLms expireAt (clock w a))) name key w1;
                                   w3 = (if IsReservedMap name then w2
                                         else emit_at a (if existed then EventUpdated else EventCreated) name key newVal w2)
                               in case store_through a name key newVal w3 of
                                    (Some e, w4) \<Rightarrow> (Inl e, w4) | (None, w4) \<Rightarrow> (Inr out, w4))
                          | Delete \<Rightarrow>
                              (let w2 = replicate_write send a p RepRemove name key w1;
                                   w3 = (if \<not> IsReservedMap name \<and> existed then emit_at a EventRemoved name key [] w2 else w2)
                               in case delete_through a name key w3 of
                                    (Some e, w4) \<Rightarrow> (Inl e, w4) | (None, w4) \<Rightarrow> (Inr out, w4))
                          | Keep \<Rightarrow> (Inr out, w1))))"

section \<open>Migration\<close>

text \<open>Push one entry to one holder; the flag stays true while every push succeeds.\<close>

definition push_entry :: "'x send \<Rightarrow> bytes \<Rightarrow> bytes \<Rightarrow> int \<Rightarrow> entry \<Rightarrow> bool \<times> 'x world \<Rightarrow> bool \<times> 'x world" where
  "push_entry send a addr now e acc =
     (case acc of (pushedOK, w) \<Rightarrow>
        let ttlMs = remainingTTLms (e_expireAt e) now
        in if e_expireAt e \<noteq> 0 \<and> ttlMs \<le> 0 then (pushedOK, w)
           else case sendPut send a addr (e_mapName e) (e_key e) (e_value e) ttlMs True w of
                  (Some _, w') \<Rightarrow> (False, w') | (None, w') \<Rightarrow> (pushedOK, w'))"

definition push_target :: "'x send \<Rightarrow> bytes \<Rightarrow> entry list \<Rightarrow> bytes \<Rightarrow> bool \<times> 'x world \<Rightarrow> bool \<times> 'x world" where
  "push_target send a entries tid acc =
     (case acc of (pushedOK, w) \<Rightarrow>
        case AddrOf tid (view w a) of
          None \<Rightarrow> (False, w)
        | Some addr \<Rightarrow> fold (push_entry send a addr (clock w a)) entries (pushedOK, w))"

text \<open>The holders of a partition other than this node, and whether this node is one.\<close>

definition migrate_targets :: "bytes \<Rightarrow> Table \<Rightarrow> nat \<Rightarrow> bool \<times> bytes list" where
  "migrate_targets self table p =
     (let owner = OwnerOf table p;
          start = (owner = self, if owner \<noteq> [] \<and> owner \<noteq> self then [owner] else [])
      in fold (\<lambda>i (selfHolds, targets).
           case BackupAt table p (int i) of (b, ok) \<Rightarrow>
             if \<not> ok then (selfHolds, targets)
             else if b = self then (True, targets)
             else (selfHolds, targets @ [b])) [0..<NumBackups table p] start)"

definition migrate_partition :: "'x send \<Rightarrow> bytes \<Rightarrow> Table \<Rightarrow> nat \<Rightarrow> 'x world \<Rightarrow> 'x world" where
  "migrate_partition send a table p w =
     (let entries = orderQueueMetaLast (snapshotPartition (clock w a) (n_store (w_node w a)) p)
      in if entries = [] then w
         else case migrate_targets (self_id w a) table p of (selfHolds, targets) \<Rightarrow>
           (case fold (push_target send a entries) targets (True, w) of (pushedOK, w') \<Rightarrow>
              if \<not> selfHolds \<and> pushedOK then set_node a (dropMigratedLogged p entries (w_node w' a)) w' else w'))"

text \<open>\<open>cancelled p\<close> is what \<open>ctx.Err()\<close> reports at partition \<open>p\<close>. The result says whether the pass completed.\<close>

fun migrate_loop :: "'x send \<Rightarrow> bytes \<Rightarrow> Table \<Rightarrow> (nat \<Rightarrow> bool) \<Rightarrow> nat list \<Rightarrow> 'x world \<Rightarrow> bool \<times> 'x world" where
  "migrate_loop send a table cancelled [] w = (True, w)"
| "migrate_loop send a table cancelled (p # ps) w =
     (if cancelled p then (False, w)
      else migrate_loop send a table cancelled ps (migrate_partition send a table p w))"

definition Migrate :: "'x send \<Rightarrow> bytes \<Rightarrow> (nat \<Rightarrow> bool) \<Rightarrow> Table \<Rightarrow> 'x world \<Rightarrow> bool \<times> 'x world" where
  "Migrate send a cancelled table w = migrate_loop send a table cancelled [0..<Count] w"

section \<open>Anti-entropy\<close>

definition probe_backup ::
  "'x send \<Rightarrow> bytes \<Rightarrow> Table \<Rightarrow> nat \<Rightarrow> u64 \<Rightarrow> nat \<Rightarrow> bytes list \<times> 'x world \<Rightarrow> bytes list \<times> 'x world" where
  "probe_backup send a table p ownerDigest i acc =
     (case acc of (stale, w) \<Rightarrow>
        case BackupAt table p (int i) of (b, ok) \<Rightarrow>
          if \<not> ok \<or> b = self_id w a then (stale, w)
          else case AddrOf b (view w a) of
                 None \<Rightarrow> (stale, w)
               | Some addr \<Rightarrow>
                   (case sendDigest send a addr p ownerDigest w of
                      (Inr True, w') \<Rightarrow> (stale, w')
                    | (_, w') \<Rightarrow> (stale @ [addr], w')))"

text \<open>Re-read one entry of the snapshot and push it to the stale backups.\<close>

definition sync_entry ::
  "'x send \<Rightarrow> bytes \<Rightarrow> nat \<Rightarrow> int \<Rightarrow> bytes list \<Rightarrow> entry \<Rightarrow> key_ref list \<times> nat \<times> 'x world \<Rightarrow> key_ref list \<times> nat \<times> 'x world" where
  "sync_entry send a p now stale e acc =
     (case acc of (keyset, pushed, w) \<Rightarrow>
        case store_lookup (clock w a) (n_store (w_node w a)) p (e_mapName e) (e_key e) of
          None \<Rightarrow> (keyset, pushed, w)
        | Some (data, expireAt) \<Rightarrow>
            let ttlMs = remainingTTLms expireAt now
            in if expireAt \<noteq> 0 \<and> ttlMs \<le> 0 then (keyset, pushed, w)
               else case fold (\<lambda>addr (sent, w).
                           case sendPut send a addr (e_mapName e) (e_key e) data ttlMs True w of
                             (None, w') \<Rightarrow> (True, w') | (Some _, w') \<Rightarrow> (sent, w')) stale (False, w) of
                      (sent, w') \<Rightarrow> (keyset @ [(e_mapName e, e_key e)], if sent then pushed + 1 else pushed, w'))"

definition sync_partition :: "'x send \<Rightarrow> bytes \<Rightarrow> Table \<Rightarrow> int \<Rightarrow> nat \<Rightarrow> nat \<times> 'x world \<Rightarrow> nat \<times> 'x world" where
  "sync_partition send a table now p acc =
     (case acc of (pushed, w) \<Rightarrow>
        if OwnerOf table p \<noteq> self_id w a then (pushed, w)
        else let ownerDigest = partitionDigest (clock w a) (n_store (w_node w a)) p
             in case fold (probe_backup send a table p ownerDigest) [0..<NumBackups table p] ([], w) of (stale, w1) \<Rightarrow>
                  if stale = [] then (pushed, w1)
                  else let snap = orderQueueMetaLast (snapshotPartition (clock w1 a) (n_store (w_node w1 a)) p)
                       in case fold (sync_entry send a p now stale) snap ([], pushed, w1) of (keyset, pushed', w2) \<Rightarrow>
                            (pushed', fold (\<lambda>addr w. snd (sendReconcile send a addr p keyset w)) stale w2))"

definition SyncBackups :: "'x send \<Rightarrow> bytes \<Rightarrow> Table \<Rightarrow> int \<Rightarrow> int \<Rightarrow> 'x world \<Rightarrow> (nat \<times> nat) \<times> 'x world" where
  "SyncBackups send a table start batch w =
     (let now = clock w a; p0 = nat (start mod int Count)
      in case fold (\<lambda>k acc. sync_partition send a table now ((p0 + k) mod Count) acc) [0..<nat batch] (0, w) of
           (pushed, w') \<Rightarrow> ((pushed, (p0 + nat batch) mod Count), w'))"

section \<open>Counting, aggregating, clearing, evicting\<close>

definition owns :: "'x world \<Rightarrow> bytes \<Rightarrow> nat \<Rightarrow> bool" where
  "owns w a p \<longleftrightarrow> OwnerOf (mem_table (view w a)) p = self_id w a"

definition LocalEntryCount :: "bytes \<Rightarrow> 'x world \<Rightarrow> nat" where
  "LocalEntryCount a w = entryCount (clock w a) (n_store (w_node w a))"

definition evict_victims :: "'x send \<Rightarrow> bytes \<Rightarrow> entry list \<Rightarrow> 'x world \<Rightarrow> 'x world" where
  "evict_victims send a victims w = fold (\<lambda>e w. snd (applyEvict send a (e_mapName e) (e_key e) w)) victims w"

definition Evict :: "'x send \<Rightarrow> bytes \<Rightarrow> int \<Rightarrow> int \<Rightarrow> 'x world \<Rightarrow> nat \<times> 'x world" where
  "Evict send a cap batch w =
     (if cap \<le> 0 then (0, w)
      else let n = int (countOwned (clock w a) (owns w a) (n_store (w_node w a)))
           in if n \<le> cap then (0, w)
              else let excess = (if n - cap > batch then batch else n - cap);
                       victims = sampleOwned (clock w a) (owns w a) excess (n_store (w_node w a))
                   in (length victims, evict_victims send a victims w))"

definition localMapSize :: "bytes \<Rightarrow> bytes \<Rightarrow> 'x world \<Rightarrow> nat" where
  "localMapSize a name w = countMap (clock w a) name (owns w a) (n_store (w_node w a))"

definition localAggregate :: "bytes \<Rightarrow> bytes \<Rightarrow> bytes \<Rightarrow> 'x world \<Rightarrow> error + bytes" where
  "localAggregate a name aggName w =
     (case lookupAggregator (n_aggs (w_node w a)) aggName of
        None \<Rightarrow> Inl (ErrUnknownAggregator aggName)
      | Some agg \<Rightarrow> Inr (agg_Reduce agg (collectOwnedValues (clock w a) name (owns w a) (n_store (w_node w a)))))"

definition local_clear :: "bytes \<Rightarrow> 'x Node \<Rightarrow> (error option \<times> entry list) \<times> 'x Node" where
  "local_clear name n =
     logged (clearMap name) (\<lambda>removed. if length removed = 0 then [] else [(walOpClear, clear_record name)]) n"

definition localClearMap :: "bytes \<Rightarrow> bytes \<Rightarrow> 'x world \<Rightarrow> (nat \<times> error option) \<times> 'x world" where
  "localClearMap a name w =
     (case local_clear name (w_node w a) of ((err, removed), n) \<Rightarrow> ((length removed, err), set_node a n w))"

section \<open>Snapshot, restore and the log at startup\<close>

definition Snapshot_of :: "'x Node \<Rightarrow> Snapshot" where
  "Snapshot_of n =
     \<lparr>sn_Entries = map (\<lambda>e. put_record (e_mapName e) (e_key e) (e_value e) (e_expireAt e)) (snapshotAll (n_clock n) (n_store n)),
      sn_unknown = []\<rparr>"

definition Restore :: "Snapshot \<Rightarrow> 'x Node \<Rightarrow> 'x Node" where
  "Restore snap n =
     (let now = n_clock n;
          entries = map (\<lambda>se. \<lparr>e_mapName = se_Map se, e_key = se_Key se, e_value = se_Value se, e_expireAt = se_ExpireAt se\<rparr>)
            (filter (\<lambda>se. \<not> (se_ExpireAt se \<noteq> 0 \<and> se_ExpireAt se \<le> now)) (sn_Entries snap))
      in n\<lparr>n_store := loadAll now entries (n_store n)\<rparr>)"

definition replay_callbacks :: "int \<Rightarrow> store callbacks" where
  "replay_callbacks now =
     \<lparr>cb_put = \<lambda>name key val expireAt s.
        if expireAt \<noteq> 0 \<and> expireAt \<le> now then s
        else if name = queueMap \<and> length val \<noteq> 24 \<and> length val > 0 then loadAll now (convertLegacyQueue key val) s
        else snd (store_put now (routedPartition name key) name key val expireAt s),
      cb_del = \<lambda>name key s. snd (store_remove now (routedPartition name key) name key s),
      cb_clr = \<lambda>name s. snd (clearMap name s)\<rparr>"

definition OpenWAL :: "'x Node \<Rightarrow> error option \<times> 'x Node" where
  "OpenWAL n =
     (case replayWAL (replay_callbacks (n_clock n)) (n_walFile n) (n_store n) of
        Inl e \<Rightarrow> (Some (ErrOs e), n)
      | Inr (valid, s) \<Rightarrow>
          (case truncateTail valid (n_walFile n) of
             Inl e \<Rightarrow> (Some (ErrOs e), n\<lparr>n_store := s\<rparr>)
           | Inr f \<Rightarrow>
               (case openWAL f of
                  Inl e \<Rightarrow> (Some (ErrOs e), n\<lparr>n_store := s, n_walFile := f\<rparr>)
                | Inr (w, f') \<Rightarrow> (None, n\<lparr>n_store := s, n_walFile := f', n_wal := Some w\<rparr>))))"

definition CloseWAL :: "'x Node \<Rightarrow> 'x Node" where
  "CloseWAL n = (case n_wal n of None \<Rightarrow> n | Some w \<Rightarrow> n\<lparr>n_wal := Some (wal_close w)\<rparr>)"

text \<open>\<open>write\<close> persists the snapshot; only on its success is the log truncated.\<close>

definition Checkpoint :: "(Snapshot \<Rightarrow> 'x Node \<Rightarrow> error option \<times> 'x Node) \<Rightarrow> 'x Node \<Rightarrow> error option \<times> 'x Node" where
  "Checkpoint write n =
     (case write (Snapshot_of n) n of
        (Some e, n') \<Rightarrow> (Some e, n')
      | (None, n') \<Rightarrow>
          (case n_wal n' of
             None \<Rightarrow> (None, n')
           | Some w \<Rightarrow>
               (case truncateLocked (next_io n' = IoOk) (w, file_bytes (n_walFile n')) of (err, w', b) \<Rightarrow>
                  (map_option ErrOs err, n'\<lparr>n_wal := Some w', n_walFile := Content b, n_io := tl (n_io n')\<rparr>))))"

definition SweepExpired :: "'x Node \<Rightarrow> nat \<times> 'x Node" where
  "SweepExpired n = (case sweepExpired (n_clock n) (n_store n) of (k, s) \<Rightarrow> (k, n\<lparr>n_store := s\<rparr>))"

section \<open>Inbound calls\<close>

text \<open>The key set of a reconcile request as the two-level Go map.\<close>

definition keep_of :: "key_ref list \<Rightarrow> keyset" where
  "keep_of keys = fold (\<lambda>(name, key) keep.
     AList.update name (AList.update key () (case map_of keep name of None \<Rightarrow> [] | Some inner \<Rightarrow> inner)) keep) keys []"

definition Handle :: "'x send \<Rightarrow> bytes \<Rightarrow> request \<Rightarrow> 'x world \<Rightarrow> (error + response) \<times> 'x world" where
  "Handle send a req w =
     (case req of
        PutReq name key val backup ttlMs \<Rightarrow>
          (case applyPut send a name key val ttlMs backup w of
             ((created, Some e), w') \<Rightarrow> (Inl e, w') | ((created, None), w') \<Rightarrow> (Inr (PutResp created), w'))
      | GetReq name key \<Rightarrow>
          (case getThrough a name key w of
             ((v, ok, Some e), w') \<Rightarrow> (Inl e, w') | ((v, ok, None), w') \<Rightarrow> (Inr (GetResp ok v), w'))
      | RemoveReq name key backup \<Rightarrow>
          (case applyRemove send a name key backup w of
             ((existed, Some e), w') \<Rightarrow> (Inl e, w') | ((existed, None), w') \<Rightarrow> (Inr (RemoveResp existed), w'))
      | ExecuteReq name key procName arg \<Rightarrow>
          (case applyExecute send a name key procName arg w of
             (Inl e, w') \<Rightarrow> (Inl e, w') | (Inr out, w') \<Rightarrow> (Inr (ExecuteResp out), w'))
      | DigestReq p digest \<Rightarrow>
          (if p \<ge> of_nat Count then Inl (ErrOutOfRange p)
           else Inr (DigestResp (partitionDigest (clock w a) (n_store (w_node w a)) (unat p) = digest)), w)
      | SizeReq name \<Rightarrow> (Inr (SizeResp (of_nat (localMapSize a name w))), w)
      | ClearReq name \<Rightarrow>
          (case localClearMap a name w of
             ((removed, Some e), w') \<Rightarrow> (Inl e, w') | ((removed, None), w') \<Rightarrow> (Inr (ClearResp (of_nat removed)), w'))
      | AggregateReq name aggName \<Rightarrow>
          (case localAggregate a name aggName w of Inl e \<Rightarrow> Inl e | Inr part \<Rightarrow> Inr (AggregateResp part), w)
      | EvictReq name key \<Rightarrow>
          (case applyEvict send a name key w of
             ((existed, Some e), w') \<Rightarrow> (Inl e, w') | ((existed, None), w') \<Rightarrow> (Inr (EvictResp existed), w'))
      | ReconcileReq p keys \<Rightarrow>
          (if p \<ge> of_nat Count then (Inl (ErrOutOfRange p), w)
           else if owns w a (unat p) then (Inr (ReconcileResp 0), w)
           else (case pruneToKeysetLogged (unat p) (keep_of keys) (w_node w a) of (pruned, n) \<Rightarrow>
                   (Inr (ReconcileResp (of_nat pruned)), set_node a n w)))
      | BadPayload t e \<Rightarrow>
          (if t \<in> {MT_PUT_REQUEST, MT_GET_REQUEST, MT_REMOVE_REQUEST, MT_EXECUTE_REQUEST, MT_DIGEST_REQUEST,
                   MT_SIZE_REQUEST, MT_CLEAR_REQUEST, MT_AGGREGATE_REQUEST, MT_EVICT_REQUEST, MT_RECONCILE_REQUEST}
           then Inl (ErrProto e) else Inl (ErrUnhandled t), w)
      | _ \<Rightarrow> (Inl (ErrUnhandled (req_type req)), w))"

end
