(* ===== verification/Transport.thy ===== *)
theory Transport
  imports Rpc
begin

text \<open>
  The transports of package \<open>transport\<close>: the wire frame (\<open>frame.go\<close>), the TCP transport (\<open>tcp.go\<close>)
  with its serving loop and its pool of idle connections, and the in-process switch (\<open>inmem.go\<close>).

  A stream is the list of bytes that can be read from it before it ends; a sink is what was written to
  it and how many more bytes the operating system accepts (\<open>None\<close>: no limit). A handler works on a
  state \<open>'s\<close>, the node behind it, and returns either the text of its error or a reply. Deadlines and
  goroutines are not modelled: a connection serves its requests one after the other.
\<close>

section \<open>Frames\<close>

datatype frame_error = ErrFrameTooLarge | ErrStreamEOF | ErrStreamWrite

type_synonym sink = "bytes \<times> nat option"

definition headerSize :: nat where
  "headerSize = 5"

definition MaxFrameSize :: nat where
  "MaxFrameSize = 67108864"

definition sink_write :: "bytes \<Rightarrow> sink \<Rightarrow> frame_error option \<times> sink" where
  "sink_write bs s =
     (case s of
        (out, None) \<Rightarrow> (None, (out @ bs, None))
      | (out, Some k) \<Rightarrow>
          if length bs \<le> k then (None, (out @ bs, Some (k - length bs)))
          else (Some ErrStreamWrite, (out @ take k bs, Some 0)))"

definition frame_hdr :: "MessageType \<Rightarrow> bytes \<Rightarrow> bytes" where
  "frame_hdr t payload = PutUint32 (of_nat (length payload)) @ [of_int t]"

definition writeFrame :: "MessageType \<Rightarrow> bytes \<Rightarrow> sink \<Rightarrow> frame_error option \<times> sink" where
  "writeFrame t payload s =
     (case sink_write (frame_hdr t payload) s of
        (Some e, s') \<Rightarrow> (Some e, s')
      | (None, s') \<Rightarrow> if length payload = 0 then (None, s') else sink_write payload s')"

definition readFrame :: "bytes \<Rightarrow> frame_error + (MessageType \<times> bytes \<times> bytes)" where
  "readFrame r =
     (if length r < headerSize then Inl ErrStreamEOF
      else let hdr = take headerSize r; n = unat (Uint32 (take 4 hdr)); rest = drop headerSize r
           in if n > MaxFrameSize then Inl ErrFrameTooLarge
              else let t = uint (hdr ! (headerSize - 1))
                   in if length rest < n then Inl ErrStreamEOF
                      else Inr (t, take n rest, drop n rest))"

lemma readFrame_shorter: "readFrame r = Inr (t, p, rest) \<Longrightarrow> length rest < length r"
  by (auto simp: readFrame_def Let_def headerSize_def split: if_splits)

text \<open>A message that fits a frame: its type is one byte and its payload is below the cap.\<close>

definition frame_ok :: "MessageType \<Rightarrow> bytes \<Rightarrow> bool" where
  "frame_ok t p \<longleftrightarrow> 0 \<le> t \<and> t < 256 \<and> length p \<le> MaxFrameSize"

lemma length_frame_hdr [simp]: "length (frame_hdr t p) = headerSize"
  by (simp add: frame_hdr_def headerSize_def)

lemma readFrame_written:
  assumes "frame_ok t p"
  shows "readFrame (frame_hdr t p @ p @ rest) = Inr (t, p, rest)"
proof -
  have "unat (of_nat (length p) :: u32) = length p"
    using assms by (simp add: unat_of_nat frame_ok_def MaxFrameSize_def)
  moreover have "uint (of_int t :: byte) = t"
    using assms by (simp add: uint_word_of_int frame_ok_def)
  moreover have "frame_hdr t p ! 4 = of_int t" "Uint32 (take 4 (frame_hdr t p)) = of_nat (length p)"
    by (simp_all add: frame_hdr_def nth_append)
  ultimately show ?thesis using assms
    by (simp add: readFrame_def Let_def headerSize_def [symmetric] frame_ok_def)
       (simp add: headerSize_def)
qed

lemma writeFrame_unlimited: "writeFrame t p (out, None) = (None, (out @ frame_hdr t p @ p, None))"
  by (simp add: writeFrame_def sink_write_def)

text \<open>
  A call crosses the wire unchanged. For every request whose encoding fits a frame, what
  \<open>readFrame\<close> returns from a stream that starts with the frame written for it decodes to exactly the
  request, and the rest of the stream is untouched.
\<close>

theorem rpc_frame_roundtrip:
  assumes "encode_request_ok r" "encode_request r = (t, b)" "frame_ok t b"
    "writeFrame t b ([], None) = (err, (out, room))"
  shows "err = None \<and> readFrame (out @ rest) = Inr (t, b, rest) \<and> decode_request t b = r"
  using request_roundtrip [OF assms(1)] readFrame_written [OF assms(3), of rest] assms(2,4)
  by (auto simp: writeFrame_unlimited)

theorem rpc_frame_roundtrip_witness:
  "\<exists>t b out room. encode_request (PutReq [1] [2] [3] True 5) = (t, b) \<and> writeFrame t b ([], None) = (None, (out, room)) \<and>
    readFrame (out @ [4]) = Inr (t, b, [4]) \<and> decode_request t b = PutReq [1] [2] [3] True 5"
proof -
  let ?r = "PutReq [1] [2] [3] True 5"
  obtain b where b: "encode_request ?r = (MT_PUT_REQUEST, b)" by simp
  have l: "PutRequest_SizeVT \<lparr>pq_Map = [1], pq_Key = [2], pq_Value = [3], pq_Backup = True, pq_TtlMs = 5, pq_unknown = []\<rparr> = 13"
    by code_simp
  then have "encode_request_ok ?r" by (simp add: PutRequest_ok_def int64_range_def)
  moreover have "frame_ok MT_PUT_REQUEST b"
    using b l pq_m.length_MarshalVT by (auto simp: frame_ok_def MaxFrameSize_def)
  moreover obtain err out room where "writeFrame MT_PUT_REQUEST b ([], None) = (err, (out, room))" by (metis prod_cases3)
  ultimately show ?thesis using rpc_frame_roundtrip [OF _ b, of err out room "[4]"] b by auto
qed

section \<open>Serving a TCP connection\<close>

type_synonym 's handler = "MessageType \<Rightarrow> bytes \<Rightarrow> 's \<Rightarrow> (bytes + MessageType \<times> bytes) \<times> 's"

definition error_payload :: "u32 \<Rightarrow> bytes \<Rightarrow> bytes" where
  "error_payload code text = ErrorMsg_MarshalVT \<lparr>em_Code = code, em_Message = text, em_unknown = []\<rparr>"

function serveConn :: "'s handler \<Rightarrow> bytes \<Rightarrow> sink \<Rightarrow> 's \<Rightarrow> sink \<times> 's" where
  "serveConn h c out s =
     (case readFrame c of
        Inl _ \<Rightarrow> (out, s)
      | Inr (reqType, payload, rest) \<Rightarrow>
          (case h reqType payload s of
             (Inl text, s') \<Rightarrow>
               (case writeFrame MT_ERROR (error_payload 1 text) out of
                  (Some _, out') \<Rightarrow> (out', s')
                | (None, out') \<Rightarrow> serveConn h rest out' s')
           | (Inr (respType, resp), s') \<Rightarrow>
               (case writeFrame respType resp out of
                  (Some _, out') \<Rightarrow> (out', s')
                | (None, out') \<Rightarrow> serveConn h rest out' s')))"
  by pat_completeness auto
termination
  by (relation "measure (\<lambda>(_, c, _, _). length c)") (auto dest: readFrame_shorter)

declare serveConn.simps [simp del]

text \<open>
  \<open>tcpTransport.Send\<close> over one connection: \<open>peer\<close> is what the remote end of the connection answers to
  the bytes written to it. The result says whether the connection goes back to the pool.
\<close>

datatype send_error = SendContext | SendConn frame_error | SendRemote u32 bytes

definition undecodable :: bytes where
  "undecodable = str ''undecodable remote error''"

definition tcp_exchange ::
  "(bytes \<Rightarrow> bytes) \<Rightarrow> nat option \<Rightarrow> MessageType \<Rightarrow> bytes \<Rightarrow> (send_error + MessageType \<times> bytes) \<times> bool" where
  "tcp_exchange peer room reqType req =
     (case writeFrame reqType req ([], room) of
        (Some e, _) \<Rightarrow> (Inl (SendConn e), False)
      | (None, (out, _)) \<Rightarrow>
          (case readFrame (peer out) of
             Inl e \<Rightarrow> (Inl (SendConn e), False)
           | Inr (respType, dst, _) \<Rightarrow>
               if respType = MT_ERROR then
                 (case ErrorMsg_UnmarshalVT dst ErrorMsg_zero of
                    Inl _ \<Rightarrow> (Inl (SendRemote 0 undecodable), True)
                  | Inr e \<Rightarrow> (Inl (SendRemote (em_Code e) (em_Message e)), True))
               else (Inr (respType, dst), True)))"

lemma serveConn_step:
  assumes "frame_ok t p"
  shows "serveConn h (frame_hdr t p @ p @ rest) (out, None) s =
    (case h t p s of
       (Inl text, s') \<Rightarrow> serveConn h rest (out @ frame_hdr MT_ERROR (error_payload 1 text) @ error_payload 1 text, None) s'
     | (Inr (rt, resp), s') \<Rightarrow> serveConn h rest (out @ frame_hdr rt resp @ resp, None) s')"
  by (subst serveConn.simps) (simp add: readFrame_written [OF assms] writeFrame_unlimited split: prod.splits sum.splits)

lemma serveConn_Nil [simp]: "serveConn h [] out s = (out, s)"
  by (subst serveConn.simps) (simp add: readFrame_def headerSize_def)

text \<open>What the caller of the handler sees through the transport, and that it fits a frame.\<close>

definition reply :: "bytes + MessageType \<times> bytes \<Rightarrow> send_error + MessageType \<times> bytes" where
  "reply r = (case r of Inl text \<Rightarrow> Inl (SendRemote 1 text) | Inr x \<Rightarrow> Inr x)"

definition reply_ok :: "bytes + MessageType \<times> bytes \<Rightarrow> bool" where
  "reply_ok r =
     (case r of
        Inl text \<Rightarrow> length (error_payload 1 text) \<le> MaxFrameSize
      | Inr (t, p) \<Rightarrow> frame_ok t p \<and> t \<noteq> MT_ERROR)"

lemma error_payload_read:
  assumes "length (error_payload c text) \<le> MaxFrameSize"
  shows "ErrorMsg_UnmarshalVT (error_payload c text) ErrorMsg_zero = Inr \<lparr>em_Code = c, em_Message = text, em_unknown = []\<rparr>"
  using assms unfolding error_payload_def
  by (intro em_m.roundtrip) (simp add: ErrorMsg_ok_def MaxFrameSize_def em_m.length_MarshalVT)

text \<open>
  C23: A TCP exchange is a call of the remote handler. For every request and reply that fit a frame,
  \<open>Send\<close> over a served connection runs the handler once on exactly the request, returns exactly its
  reply, turns an error of the handler into a remote error with its text, and leaves the connection
  reusable.
\<close>

theorem tcp_exchange_is_call:
  assumes "frame_ok t req" "h t req s = (r, s')" "reply_ok r"
  shows "tcp_exchange (\<lambda>inp. fst (fst (serveConn h inp ([], None) s))) None t req = (reply r, True) \<and>
    snd (serveConn h (frame_hdr t req @ req) ([], None) s) = s'"
proof -
  have e: "serveConn h (frame_hdr t req @ req) ([], None) s =
    (case r of
       Inl text \<Rightarrow> ((frame_hdr MT_ERROR (error_payload 1 text) @ error_payload 1 text, None), s')
     | Inr (rt, resp) \<Rightarrow> ((frame_hdr rt resp @ resp, None), s'))"
    using serveConn_step [OF assms(1), of h "[]" "[]" s] assms(2) by (simp split: sum.splits)
  have rd: "readFrame (frame_hdr rt p @ p) = Inr (rt, p, [])" if "frame_ok rt p" for rt p
    using readFrame_written [OF that, of "[]"] by simp
  show ?thesis
  proof (cases r)
    case (Inl emsg)
    with assms(3) have "frame_ok MT_ERROR (error_payload 1 emsg)" "length (error_payload 1 emsg) \<le> MaxFrameSize"
      by (simp_all add: reply_ok_def frame_ok_def)
    with Inl show ?thesis
      by (simp add: e tcp_exchange_def writeFrame_unlimited rd error_payload_read reply_def)
  next
    case (Inr x)
    obtain rt resp where x: "x = (rt, resp)" by (cases x)
    with Inr assms(3) have "frame_ok rt resp" "rt \<noteq> MT_ERROR" by (simp_all add: reply_ok_def)
    with Inr x show ?thesis by (simp add: e tcp_exchange_def writeFrame_unlimited rd reply_def)
  qed
qed

theorem tcp_exchange_is_call_witness:
  "tcp_exchange (\<lambda>inp. fst (fst (serveConn (\<lambda>t p n. (Inr (MT_GET_RESPONSE, p @ [9]), Suc n)) inp ([], None) 0)))
     None MT_GET_REQUEST [1, 2] = (Inr (MT_GET_RESPONSE, [1, 2, 9]), True)"
  using tcp_exchange_is_call [of MT_GET_REQUEST "[1, 2]" "\<lambda>t p n. (Inr (MT_GET_RESPONSE, p @ [9]), Suc n)" 0
      "Inr (MT_GET_RESPONSE, [1, 2, 9])" 1]
  by (simp add: frame_ok_def reply_ok_def reply_def MaxFrameSize_def)

section \<open>The pool of idle connections\<close>

text \<open>
  Connections are numbers; \<open>tcp_open\<close> are the open ones. \<open>getConn\<close> takes an idle connection of the
  address or dials a new one (the argument says whether the dial succeeds), \<open>putConn\<close> returns it or
  closes it when the pool is full or the transport closed.
\<close>

definition maxPoolPerAddr :: nat where
  "maxPoolPerAddr = 8"

record tcpTransport =
  tcp_closed :: bool
  tcp_conns :: "(bytes, nat list) gomap"
  tcp_next :: nat
  tcp_open :: "nat list"

definition NewTCP :: tcpTransport where
  "NewTCP = \<lparr>tcp_closed = False, tcp_conns = [], tcp_next = 0, tcp_open = []\<rparr>"

definition pool :: "tcpTransport \<Rightarrow> bytes \<Rightarrow> nat list" where
  "pool t addr = (case map_of (tcp_conns t) addr of None \<Rightarrow> [] | Some ch \<Rightarrow> ch)"

definition getConn :: "bool \<Rightarrow> bytes \<Rightarrow> tcpTransport \<Rightarrow> (error + nat) \<times> tcpTransport" where
  "getConn dial addr t =
     (if tcp_closed t then (Inl ErrClosed, t)
      else let t1 = (if map_of (tcp_conns t) addr = None then t\<lparr>tcp_conns := AList.update addr [] (tcp_conns t)\<rparr> else t)
           in case pool t1 addr of
                cc # ch \<Rightarrow> (Inr cc, t1\<lparr>tcp_conns := AList.update addr ch (tcp_conns t1)\<rparr>)
              | [] \<Rightarrow>
                  if \<not> dial then (Inl ErrNoRoute, t1)
                  else (Inr (tcp_next t1), t1\<lparr>tcp_next := Suc (tcp_next t1), tcp_open := tcp_next t1 # tcp_open t1\<rparr>))"

definition closeConn :: "nat \<Rightarrow> tcpTransport \<Rightarrow> tcpTransport" where
  "closeConn cc t = t\<lparr>tcp_open := removeAll cc (tcp_open t)\<rparr>"

definition putConn :: "bytes \<Rightarrow> nat \<Rightarrow> tcpTransport \<Rightarrow> tcpTransport" where
  "putConn addr cc t =
     (case map_of (tcp_conns t) addr of
        None \<Rightarrow> closeConn cc t
      | Some ch \<Rightarrow>
          if tcp_closed t then closeConn cc t
          else if length ch < maxPoolPerAddr then t\<lparr>tcp_conns := AList.update addr (ch @ [cc]) (tcp_conns t)\<rparr>
          else closeConn cc t)"

definition tcp_Close :: "tcpTransport \<Rightarrow> tcpTransport" where
  "tcp_Close t =
     (if tcp_closed t then t
      else fold closeConn (concat (map snd (tcp_conns t))) (t\<lparr>tcp_closed := True, tcp_conns := []\<rparr>))"

text \<open>One request of a sender holds a connection between \<open>getConn\<close> and \<open>putConn\<close> or its close.\<close>

inductive pool_reach :: "tcpTransport \<Rightarrow> nat set \<Rightarrow> bool" where
  pr_new: "pool_reach NewTCP {}"
| pr_get: "pool_reach t held \<Longrightarrow> getConn dial addr t = (Inr cc, t') \<Longrightarrow> pool_reach t' (insert cc held)"
| pr_fail: "pool_reach t held \<Longrightarrow> getConn dial addr t = (Inl e, t') \<Longrightarrow> pool_reach t' held"
| pr_put: "pool_reach t held \<Longrightarrow> cc \<in> held \<Longrightarrow> pool_reach (putConn addr cc t) (held - {cc})"
| pr_drop: "pool_reach t held \<Longrightarrow> cc \<in> held \<Longrightarrow> pool_reach (closeConn cc t) (held - {cc})"
| pr_close: "pool_reach t held \<Longrightarrow> pool_reach (tcp_Close t) held"

definition pool_inv :: "tcpTransport \<Rightarrow> nat set \<Rightarrow> bool" where
  "pool_inv t held \<longleftrightarrow>
     wf_map (tcp_conns t) \<and> (tcp_closed t \<longrightarrow> tcp_conns t = []) \<and>
     (\<forall>addr. length (pool t addr) \<le> maxPoolPerAddr \<and> distinct (pool t addr) \<and> set (pool t addr) \<inter> held = {}) \<and>
     (\<forall>addr addr'. addr \<noteq> addr' \<longrightarrow> set (pool t addr) \<inter> set (pool t addr') = {}) \<and>
     set (tcp_open t) = held \<union> (\<Union>addr. set (pool t addr)) \<and> (\<forall>cc \<in> set (tcp_open t). cc < tcp_next t)"

lemma pool_update [simp]:
  "pool (t\<lparr>tcp_conns := AList.update addr ch (tcp_conns t)\<rparr>) a = (if a = addr then ch else pool t a)"
  by (simp add: pool_def update_conv')

lemma pool_other [simp]:
  "pool (t\<lparr>tcp_open := x\<rparr>) = pool t" "pool (t\<lparr>tcp_next := n\<rparr>) = pool t" "pool (t\<lparr>tcp_closed := c\<rparr>) = pool t"
  "pool (t\<lparr>tcp_next := n, tcp_open := x\<rparr>) = pool t"
  by (simp_all add: pool_def fun_eq_iff)

lemma UN_update: "(\<Union>a. set (if a = addr then c else f a)) = set c \<union> (\<Union>a\<in>-{addr}. set (f a))"
  by (auto split: if_splits)

lemma UN_split: "(\<Union>a. set (f a)) = set (f addr) \<union> (\<Union>a\<in>-{addr}. set (f a))"
  by auto

lemma pool_inv_get:
  assumes "pool_inv t held" "getConn dial addr t = (r, t')"
  shows "case r of Inr cc \<Rightarrow> cc \<notin> held \<and> pool_inv t' (insert cc held) | Inl _ \<Rightarrow> pool_inv t' held"
proof -
  define t1 where "t1 = (if map_of (tcp_conns t) addr = None then t\<lparr>tcp_conns := AList.update addr [] (tcp_conns t)\<rparr> else t)"
  have p1: "pool t1 = pool t" by (auto simp: t1_def fun_eq_iff pool_def update_conv')
  have o1: "tcp_open t1 = tcp_open t" "tcp_next t1 = tcp_next t" "tcp_closed t1 = tcp_closed t" "wf_map (tcp_conns t) \<Longrightarrow> wf_map (tcp_conns t1)"
    by (auto simp: t1_def)
  show ?thesis
  proof (cases "tcp_closed t")
    case True
    with assms show ?thesis by (auto simp: getConn_def)
  next
    case False
    show ?thesis
    proof (cases "pool t addr")
      case Nil
      show ?thesis
      proof (cases dial)
        case True
        with assms False Nil have "r = Inr (tcp_next t1)" "t' = t1\<lparr>tcp_next := Suc (tcp_next t1), tcp_open := tcp_next t1 # tcp_open t1\<rparr>"
          by (auto simp: getConn_def Let_def t1_def [symmetric] p1)
        with assms(1) False show ?thesis by (auto simp: pool_inv_def p1 o1 less_Suc_eq)
      next
        case no: False
        with assms False Nil have "r = Inl ErrNoRoute" "t' = t1"
          by (auto simp: getConn_def Let_def t1_def [symmetric] p1)
        with assms(1) False show ?thesis by (auto simp: pool_inv_def p1 o1)
      qed
    next
      case (Cons cc ch)
      with assms False have e: "r = Inr cc" "t' = t1\<lparr>tcp_conns := AList.update addr ch (tcp_conns t1)\<rparr>"
        by (auto simp: getConn_def Let_def t1_def [symmetric] p1)
      have q: "pool t' a = (if a = addr then ch else pool t a)" for a by (simp add: e p1)
      have "cc \<notin> held" using assms(1) Cons by (auto simp: pool_inv_def dest: spec [of _ addr])
      moreover have "pool_inv t' (insert cc held)"
        unfolding pool_inv_def q
      proof (intro conjI allI impI)
        show "wf_map (tcp_conns t')" using assms(1) by (simp add: e o1 pool_inv_def)
        show "tcp_conns t' = []" if "tcp_closed t'" using that False by (simp add: e o1)
        show "length (if a = addr then ch else pool t a) \<le> maxPoolPerAddr" for a
          using assms(1) Cons by (auto simp: pool_inv_def dest: spec [of _ addr])
        show "distinct (if a = addr then ch else pool t a)" for a
          using assms(1) Cons by (auto simp: pool_inv_def dest: spec [of _ addr])
        show "set (if a = addr then ch else pool t a) \<inter> insert cc held = {}" for a
        proof (cases "a = addr")
          case True
          have "distinct (pool t addr)" "set (pool t addr) \<inter> held = {}" using assms(1) by (auto simp: pool_inv_def)
          with True Cons show ?thesis by auto
        next
          case False
          have "set (pool t a) \<inter> set (pool t addr) = {}" "set (pool t a) \<inter> held = {}"
            using assms(1) False by (auto simp: pool_inv_def)
          with False Cons show ?thesis by auto
        qed
        show "set (if a = addr then ch else pool t a) \<inter> set (if b = addr then ch else pool t b) = {}" if "a \<noteq> b" for a b
        proof -
          have "set (pool t a) \<inter> set (pool t b) = {}" using assms(1) that by (auto simp: pool_inv_def)
          moreover have "set ch \<subseteq> set (pool t addr)" using Cons by auto
          ultimately show ?thesis using that by auto
        qed
        have "(\<Union>a. set (pool t a)) = insert cc (\<Union>a. set (if a = addr then ch else pool t a))"
          unfolding UN_update UN_split [of "pool t" addr] Cons by simp
        moreover have "set (tcp_open t') = held \<union> (\<Union>a. set (pool t a))"
          using assms(1) by (simp add: e o1 pool_inv_def)
        ultimately show "set (tcp_open t') = insert cc held \<union> (\<Union>a. set (if a = addr then ch else pool t a))" by auto
        show "\<forall>cc\<in>set (tcp_open t'). cc < tcp_next t'" using assms(1) by (simp add: e o1 pool_inv_def)
      qed
      ultimately show ?thesis by (simp add: e)
    qed
  qed
qed

lemma pool_inv_release:
  assumes "pool_inv t held" "cc \<in> held"
  shows "pool_inv (closeConn cc t) (held - {cc})"
proof -
  have d: "cc \<notin> set (pool t a)" for a using assms by (auto simp: pool_inv_def)
  show ?thesis using assms d by (auto simp: pool_inv_def closeConn_def)
qed

lemma pool_inv_put:
  assumes "pool_inv t held" "cc \<in> held"
  shows "pool_inv (putConn addr cc t) (held - {cc})"
proof (cases "map_of (tcp_conns t) addr")
  case None
  with pool_inv_release [OF assms] show ?thesis by (simp add: putConn_def)
next
  case (Some ch)
  then have ch: "pool t addr = ch" by (simp add: pool_def)
  show ?thesis
  proof (cases "\<not> tcp_closed t \<and> length ch < maxPoolPerAddr")
    case False
    with Some pool_inv_release [OF assms] show ?thesis by (auto simp: putConn_def)
  next
    case True
    let ?t = "t\<lparr>tcp_conns := AList.update addr (ch @ [cc]) (tcp_conns t)\<rparr>"
    have d: "cc \<notin> set (pool t a)" for a using assms by (auto simp: pool_inv_def)
    have i: "wf_map (tcp_conns t)" "\<And>a. length (pool t a) \<le> maxPoolPerAddr" "\<And>a. distinct (pool t a)"
      "\<And>a. set (pool t a) \<inter> held = {}" "\<And>a b. a \<noteq> b \<Longrightarrow> set (pool t a) \<inter> set (pool t b) = {}"
      "set (tcp_open t) = held \<union> (\<Union>a. set (pool t a))" "\<forall>c \<in> set (tcp_open t). c < tcp_next t"
      using assms(1) by (auto simp: pool_inv_def)
    have u: "(\<Union>a. set (pool ?t a)) = insert cc (\<Union>a. set (pool t a))"
      unfolding pool_update UN_update UN_split [of "pool t" addr] ch by simp
    have "pool_inv ?t (held - {cc})"
      unfolding pool_inv_def
    proof (intro conjI allI impI)
      show "set (pool ?t a) \<inter> set (pool ?t b) = {}" if "a \<noteq> b" for a b
        using i(5) [OF that] i(5) [of a addr] i(5) [of b addr] d [of a] d [of b] that ch by auto
      show "set (pool ?t a) \<inter> (held - {cc}) = {}" for a using i(4) [of a] ch by auto
      show "distinct (pool ?t a)" for a using i(3) [of a] d [of a] ch by auto
      show "length (pool ?t a) \<le> maxPoolPerAddr" for a using i(2) [of a] True by auto
      show "set (tcp_open ?t) = held - {cc} \<union> (\<Union>a. set (pool ?t a))" using assms(2) i(6) u by auto
    qed (use i True in auto)
    with Some True show ?thesis by (simp add: putConn_def)
  qed
qed

lemma fold_closeConn:
  "set (tcp_open (fold closeConn cs t)) = set (tcp_open t) - set cs" "tcp_conns (fold closeConn cs t) = tcp_conns t"
  "tcp_closed (fold closeConn cs t) = tcp_closed t" "tcp_next (fold closeConn cs t) = tcp_next t"
  by (induction cs arbitrary: t) (auto simp: closeConn_def)

lemma pool_inv_close:
  assumes "pool_inv t held"
  shows "pool_inv (tcp_Close t) held \<and> set (tcp_open (tcp_Close t)) = held"
proof (cases "tcp_closed t")
  case True
  with assms have "pool t a = []" for a by (simp add: pool_inv_def pool_def)
  with True assms show ?thesis by (simp add: tcp_Close_def pool_inv_def)
next
  case False
  have w: "wf_map (tcp_conns t)" using assms by (simp add: pool_inv_def)
  have m: "x \<in> set (pool t a) \<longleftrightarrow> (\<exists>ch. (a, ch) \<in> set (tcp_conns t) \<and> x \<in> set ch)" for x a
  proof -
    have "(a, ch) \<in> set (tcp_conns t) \<longleftrightarrow> map_of (tcp_conns t) a = Some ch" for ch
      using map_of_mem [OF w, of a ch] by simp
    then show ?thesis by (cases "map_of (tcp_conns t) a") (simp_all add: pool_def)
  qed
  have c: "set (concat (map snd (tcp_conns t))) = (\<Union>a. set (pool t a))"
    by (rule set_eqI) (simp add: m Bex_def split_paired_Ex)
  have "set (tcp_open t) = held \<union> (\<Union>a. set (pool t a))" "\<And>a. set (pool t a) \<inter> held = {}"
    using assms by (simp_all add: pool_inv_def)
  then have "set (tcp_open t) - (\<Union>a. set (pool t a)) = held" by blast
  then have o: "set (tcp_open (tcp_Close t)) = held"
    using False unfolding c [symmetric] by (simp only: tcp_Close_def if_False fold_closeConn) simp
  have p: "pool (tcp_Close t) = (\<lambda>_. [])" using False by (simp add: tcp_Close_def pool_def fun_eq_iff fold_closeConn)
  have n: "tcp_conns (tcp_Close t) = []" "tcp_next (tcp_Close t) = tcp_next t"
    using False by (simp_all add: tcp_Close_def fold_closeConn)
  have "\<forall>cc\<in>held. cc < tcp_next t" using assms by (auto simp: pool_inv_def)
  then show ?thesis by (simp add: pool_inv_def p n o)
qed

lemma pool_reach_inv: "pool_reach t held \<Longrightarrow> pool_inv t held"
proof (induction rule: pool_reach.induct)
  case pr_new
  show ?case by (simp add: pool_inv_def NewTCP_def pool_def)
next
  case (pr_get t held dial addr cc t')
  with pool_inv_get [of t held dial addr "Inr cc" t'] show ?case by simp
next
  case (pr_fail t held dial addr e t')
  with pool_inv_get [of t held dial addr "Inl e" t'] show ?case by simp
qed (simp_all add: pool_inv_put pool_inv_release pool_inv_close)

text \<open>
  C24: The connection pool never shares and never leaks a connection. In every reachable state no
  connection that a request holds is also idle in a pool, no connection is in two pools or twice in
  one, no pool exceeds its cap of eight, and the open connections are exactly the held and the idle
  ones; so once the transport is closed, only the connections of running requests are open.
\<close>

theorem tcp_pool_exclusive:
  assumes "pool_reach t held"
  shows "(\<forall>addr. length (pool t addr) \<le> maxPoolPerAddr \<and> distinct (pool t addr) \<and> set (pool t addr) \<inter> held = {}) \<and>
    (\<forall>addr addr'. addr \<noteq> addr' \<longrightarrow> set (pool t addr) \<inter> set (pool t addr') = {}) \<and>
    set (tcp_open t) = held \<union> (\<Union>addr. set (pool t addr)) \<and> (tcp_closed t \<longrightarrow> set (tcp_open t) = held)"
proof -
  have i: "pool_inv t held" using assms by (rule pool_reach_inv)
  have "pool t a = []" if "tcp_closed t" for a using i that by (simp add: pool_inv_def pool_def)
  with i show ?thesis by (auto simp: pool_inv_def)
qed

theorem tcp_pool_exclusive_witness:
  "set (tcp_open (tcp_Close (putConn [7] 0 (snd (getConn True [7] NewTCP))))) = {}"
proof -
  have g: "getConn True [7] NewTCP = (Inr 0, snd (getConn True [7] NewTCP))" by code_simp
  have "pool_reach (tcp_Close (putConn [7] 0 (snd (getConn True [7] NewTCP)))) (insert 0 {} - {0})"
    by (intro pr_close pr_put pr_get [OF pr_new g]) simp
  from tcp_pool_exclusive [OF this] show ?thesis
    by (simp add: tcp_Close_def fold_closeConn putConn_def getConn_def NewTCP_def closeConn_def pool_def maxPoolPerAddr_def)
qed

section \<open>The in-process switch\<close>

text \<open>
  \<open>Switch.nodes\<close> maps an address to the transport that listens there; transports are numbers, and
  \<open>im_handler\<close> says whether a transport has a handler. \<open>inmem_route\<close> is the part of \<open>Send\<close> that finds
  the handler; the call of the handler itself is in theory \<open>Network\<close>.
\<close>

record inmem =
  im_addr :: bytes
  im_handler :: bool
  im_closed :: bool

record Switch =
  sw_nodes :: "(bytes, nat) gomap"
  sw_tr :: "nat \<Rightarrow> inmem"

definition NewTransport :: "nat \<Rightarrow> bytes \<Rightarrow> Switch \<Rightarrow> Switch" where
  "NewTransport i addr s = s\<lparr>sw_tr := (sw_tr s)(i := \<lparr>im_addr = addr, im_handler = False, im_closed = False\<rparr>)\<rparr>"

definition inmem_Listen :: "nat \<Rightarrow> Switch \<Rightarrow> error option \<times> Switch" where
  "inmem_Listen i s =
     (let t = sw_tr s i
      in if im_closed t then (Some ErrClosed, s)
         else (None, s\<lparr>sw_tr := (sw_tr s)(i := t\<lparr>im_handler := True\<rparr>), sw_nodes := AList.update (im_addr t) i (sw_nodes s)\<rparr>))"

definition inmem_route :: "bytes \<Rightarrow> Switch \<Rightarrow> error + nat" where
  "inmem_route addr s =
     (case map_of (sw_nodes s) addr of
        None \<Rightarrow> Inl ErrNoRoute
      | Some i \<Rightarrow> if im_closed (sw_tr s i) \<or> \<not> im_handler (sw_tr s i) then Inl ErrNoRoute else Inr i)"

definition inmem_Close :: "nat \<Rightarrow> Switch \<Rightarrow> Switch" where
  "inmem_Close i s =
     (let t = sw_tr s i
      in s\<lparr>sw_tr := (sw_tr s)(i := t\<lparr>im_closed := True, im_handler := False\<rparr>), sw_nodes := AList.delete (im_addr t) (sw_nodes s)\<rparr>)"

text \<open>
  C25: Closing a transport twice cuts off its successor. \<open>Close\<close> may be called more than once, and it
  deletes whatever listens at its address: when a transport was closed, another one listens at the
  same address and is reachable, a second \<open>Close\<close> of the first makes the address unreachable.
\<close>

theorem switch_double_close:
  assumes "i \<noteq> j" "im_addr (sw_tr s j) = im_addr (sw_tr s i)" "\<not> im_closed (sw_tr s j)"
  shows "inmem_route (im_addr (sw_tr s i)) (snd (inmem_Listen j (inmem_Close i s))) = Inr j \<and>
    inmem_route (im_addr (sw_tr s i)) (inmem_Close i (snd (inmem_Listen j (inmem_Close i s)))) = Inl ErrNoRoute"
  using assms by (simp add: inmem_route_def inmem_Listen_def inmem_Close_def Let_def update_conv' delete_conv')

definition demo_switch :: Switch where
  "demo_switch = NewTransport 1 [7] (snd (inmem_Listen 0 (NewTransport 0 [7] \<lparr>sw_nodes = [], sw_tr = \<lambda>_. \<lparr>im_addr = [], im_handler = False, im_closed = False\<rparr>\<rparr>)))"

theorem switch_double_close_witness:
  "inmem_route [7] (snd (inmem_Listen 1 (inmem_Close 0 demo_switch))) = Inr 1 \<and>
   inmem_route [7] (inmem_Close 0 (snd (inmem_Listen 1 (inmem_Close 0 demo_switch)))) = Inl ErrNoRoute"
  using switch_double_close [of 0 1 demo_switch] by (simp add: demo_switch_def NewTransport_def inmem_Listen_def Let_def)

end
