(* ===== verification/Network.thy ===== *)
theory Network
  imports Service Transport
begin

text \<open>
  A running cluster: \<open>Node.dispatch\<close> of \<open>medusa.go\<close>, which routes an inbound frame to the layer that
  owns its type, and the network of nodes that call each other through it (\<open>inmem.Send\<close>).

  A handler may itself send (an owner replicates a write), so the network is defined by the depth of
  nested calls: \<open>net_send d\<close> answers calls nested at most \<open>d\<close> deep. \<open>net_depth\<close> shows that two levels
  are always enough: a handler sends only backup writes, and the handler of a backup write sends
  nothing. \<open>net\<close> is that network.

  The locale \<open>network\<close> is what the layers above rely on about a transport: a call changes no node but
  the one it addresses, that node changes as the handler says, and a reply means that it did. It is
  interpreted on \<open>net\<close> and on \<open>lossy\<close>, the same network with requests and replies that get lost.
\<close>

section \<open>Dispatch\<close>

definition dispatch :: "'x send \<Rightarrow> bytes \<Rightarrow> request \<Rightarrow> 'x world \<Rightarrow> (error + response) \<times> 'x world" where
  "dispatch send a req w =
     (let t = req_type req
      in if t \<in> {MT_JOIN_REQUEST, MT_MEMBER_LIST, MT_HEARTBEAT, MT_LEAVE} then
           (case mem_Handle (clock w a) req (view w a) of (r, m) \<Rightarrow> (r, set_mem a m w))
         else if t \<in> {MT_PUT_REQUEST, MT_GET_REQUEST, MT_REMOVE_REQUEST, MT_EXECUTE_REQUEST, MT_DIGEST_REQUEST,
                      MT_SIZE_REQUEST, MT_CLEAR_REQUEST, MT_AGGREGATE_REQUEST, MT_EVICT_REQUEST, MT_RECONCILE_REQUEST} then
           Handle send a req w
         else (Inl (ErrUnhandled t), w))"

text \<open>\<open>inmem.Send\<close>: no route, the error of the remote handler, or its reply.\<close>

definition deliver :: "'x send \<Rightarrow> 'x send" where
  "deliver send src dst req w =
     (if \<not> w_up w src dst then (Inl ErrNoRoute, w)
      else case dispatch send dst req w of
             (Inl e, w') \<Rightarrow> (Inl (RemoteError 1 e), w') | (Inr r, w') \<Rightarrow> (Inr r, w'))"

fun net_send :: "nat \<Rightarrow> 'x send" where
  "net_send 0 = (\<lambda>src dst req w. (Inl ErrContext, w))"
| "net_send (Suc d) = deliver (net_send d)"

declare net_send.simps [simp del]

definition net :: "'x send" where
  "net = net_send 2"

section \<open>Nested calls\<close>

definition backup_req :: "request \<Rightarrow> bool" where
  "backup_req req = (case req of PutReq _ _ _ b _ \<Rightarrow> b | RemoveReq _ _ b \<Rightarrow> b | _ \<Rightarrow> False)"

definition agree_on_backups :: "'x send \<Rightarrow> 'x send \<Rightarrow> bool" where
  "agree_on_backups s s' \<longleftrightarrow> (\<forall>src dst req w. backup_req req \<longrightarrow> s src dst req w = s' src dst req w)"

lemma replicate_agree:
  assumes "agree_on_backups s s'"
  shows "replicate_write s = replicate_write s'"
proof -
  have "replicate_to s = replicate_to s'"
    using assms by (intro ext) (auto simp: replicate_to_def sendPut_def sendRemove_def agree_on_backups_def backup_req_def
        split: prod.splits option.splits rep_op.splits)
  then show ?thesis unfolding replicate_write_def by simp
qed

lemma Handle_agree:
  assumes "agree_on_backups s s'"
  shows "Handle s = Handle s'"
proof -
  note r = replicate_agree [OF assms]
  have "replicate_mutation s = replicate_mutation s'"
    by (intro ext) (simp only: replicate_mutation_def r)
  then have "applyQueueExecute s = applyQueueExecute s'"
    by (intro ext) (simp only: applyQueueExecute_def)
  then have "applyExecute s = applyExecute s'" by (intro ext) (simp only: applyExecute_def r)
  moreover have "applyPut s = applyPut s'" by (intro ext) (simp only: applyPut_def r)
  moreover have "applyRemove s = applyRemove s'" by (intro ext) (simp only: applyRemove_def r)
  moreover have "applyEvict s = applyEvict s'" by (intro ext) (simp only: applyEvict_def r)
  ultimately show ?thesis by (intro ext) (simp only: Handle_def)
qed

lemma Handle_backup: "backup_req req \<Longrightarrow> Handle s a req w = Handle s' a req w"
  by (cases req) (auto simp: backup_req_def Handle_def applyPut_def applyRemove_def Let_def split: prod.splits)

lemma net_agree: "agree_on_backups (net_send (Suc d) :: 'x send) (net_send (Suc d'))"
proof -
  have "dispatch (net_send d) a req w = dispatch (net_send d') a req w" if "backup_req req" for a req and w :: "'x world"
    using Handle_backup [OF that, of "net_send d" a w "net_send d'"] by (simp add: dispatch_def Let_def)
  then show ?thesis by (simp add: agree_on_backups_def net_send.simps deliver_def)
qed

text \<open>
  The nesting of remote calls is bounded: whatever the request and the state of the cluster, two
  levels of calls answer it, and allowing more changes neither the answer nor the resulting state. So
  no call waits on an unbounded chain of calls.
\<close>

theorem net_depth: "net_send (Suc (Suc d)) src dst req w = net src dst req (w :: 'x world)"
proof -
  have "Handle (net_send (Suc d) :: 'x send) = Handle (net_send 1)"
    using Handle_agree [OF net_agree [of d 0]] by simp
  then have "dispatch (net_send (Suc d) :: 'x send) = dispatch (net_send 1)" by (intro ext) (simp only: dispatch_def)
  then have "deliver (net_send (Suc d) :: 'x send) = deliver (net_send 1)" by (intro ext) (simp only: deliver_def)
  then show ?thesis by (simp add: net_def numeral_2_eq_2 net_send.simps)
qed

section \<open>Calls that concern one node\<close>

text \<open>
  Backup writes and the queries and commands that a node answers from its own share: their handler
  sends nothing. \<open>node_handle\<close> is their effect on the node that is called.
\<close>

definition local_req :: "request \<Rightarrow> bool" where
  "local_req req =
     (case req of
        PutReq _ _ _ b _ \<Rightarrow> b | RemoveReq _ _ b \<Rightarrow> b | DigestReq _ _ \<Rightarrow> True | SizeReq _ \<Rightarrow> True | ClearReq _ \<Rightarrow> True
      | AggregateReq _ _ \<Rightarrow> True | ReconcileReq _ _ \<Rightarrow> True | _ \<Rightarrow> False)"

definition node_owns :: "'x Node \<Rightarrow> nat \<Rightarrow> bool" where
  "node_owns n p \<longleftrightarrow> OwnerOf (mem_table (n_mem n)) p = m_ID (mem_self (n_mem n))"

definition answer :: "(error option \<times> 'r) \<times> 'x Node \<Rightarrow> ('r \<Rightarrow> response) \<Rightarrow> (error + response) \<times> 'x Node" where
  "answer res mk = (case res of ((Some e, r), n) \<Rightarrow> (Inl e, n) | ((None, r), n) \<Rightarrow> (Inr (mk r), n))"

definition node_handle :: "request \<Rightarrow> 'x Node \<Rightarrow> (error + response) \<times> 'x Node" where
  "node_handle req n =
     (case req of
        PutReq name key val _ ttlMs \<Rightarrow> answer (local_put name key val ttlMs n) PutResp
      | RemoveReq name key _ \<Rightarrow> answer (local_remove name key n) RemoveResp
      | DigestReq p digest \<Rightarrow>
          (if p \<ge> of_nat Count then Inl (ErrOutOfRange p)
           else Inr (DigestResp (partitionDigest (n_clock n) (n_store n) (unat p) = digest)), n)
      | SizeReq name \<Rightarrow> (Inr (SizeResp (of_nat (countMap (n_clock n) name (node_owns n) (n_store n)))), n)
      | ClearReq name \<Rightarrow> answer (local_clear name n) (\<lambda>removed. ClearResp (of_nat (length removed)))
      | AggregateReq name aggName \<Rightarrow>
          (case lookupAggregator (n_aggs n) aggName of
             None \<Rightarrow> Inl (ErrUnknownAggregator aggName)
           | Some agg \<Rightarrow> Inr (AggregateResp (agg_Reduce agg (collectOwnedValues (n_clock n) name (node_owns n) (n_store n)))), n)
      | ReconcileReq p keys \<Rightarrow>
          (if p \<ge> of_nat Count then (Inl (ErrOutOfRange p), n)
           else if node_owns n (unat p) then (Inr (ReconcileResp 0), n)
           else (case pruneToKeysetLogged (unat p) (keep_of keys) n of (pruned, n') \<Rightarrow> (Inr (ReconcileResp (of_nat pruned)), n')))
      | _ \<Rightarrow> (Inl (ErrUnhandled (req_type req)), n))"

lemma Handle_local:
  assumes "local_req req"
  shows "Handle send a req w = (case node_handle req (w_node w a) of (r, n) \<Rightarrow> (r, set_node a n w))"
proof -
  have o: "owns w a = node_owns (w_node w a)" by (simp add: owns_def node_owns_def fun_eq_iff)
  from assms show ?thesis
    by (cases req)
       (auto simp: local_req_def Handle_def node_handle_def answer_def applyPut_def applyRemove_def localClearMap_def
          localMapSize_def localAggregate_def o Let_def split: prod.splits option.splits)
qed

lemma local_req_type: "local_req req \<Longrightarrow> req_type req \<in> {MT_PUT_REQUEST, MT_REMOVE_REQUEST, MT_DIGEST_REQUEST,
    MT_SIZE_REQUEST, MT_CLEAR_REQUEST, MT_AGGREGATE_REQUEST, MT_RECONCILE_REQUEST}"
  by (cases req) (auto simp: local_req_def)

lemma dispatch_local:
  assumes "local_req req"
  shows "dispatch send a req w = (case node_handle req (w_node w a) of (r, n) \<Rightarrow> (r, set_node a n w))"
  using local_req_type [OF assms] Handle_local [OF assms, of send a w] by (auto simp: dispatch_def Let_def)

section \<open>What the layers above rely on\<close>

locale network =
  fixes send :: "'x send"
  assumes local_effect: "local_req req \<Longrightarrow> send src dst req w = (r, w') \<Longrightarrow>
      w' = w \<or> w' = set_node dst (snd (node_handle req (w_node w dst))) w"
    and local_reply: "local_req req \<Longrightarrow> send src dst req w = (Inr x, w') \<Longrightarrow>
      node_handle req (w_node w dst) = (Inr x, w_node w' dst) \<and> w' = set_node dst (w_node w' dst) w"

locale reliable = network +
  assumes reachable: "local_req req \<Longrightarrow> w_up w src dst \<Longrightarrow>
      send src dst req w = (case node_handle req (w_node w dst) of (r, n) \<Rightarrow> (map_sum (RemoteError 1) id r, set_node dst n w))"

lemma net_local:
  assumes "local_req req"
  shows "net src dst req w =
    (if \<not> w_up w src dst then (Inl ErrNoRoute, w)
     else case node_handle req (w_node w dst) of (r, n) \<Rightarrow> (map_sum (RemoteError 1) id r, set_node dst n w))"
  by (simp add: net_def numeral_2_eq_2 net_send.simps deliver_def dispatch_local [OF assms] split: prod.split sum.split)

text \<open>\<open>fate\<close> says what happens to a call: it arrives, the request is lost, or only the reply is lost.\<close>

datatype fate = Arrives | RequestLost | ReplyLost

definition lossy :: "(bytes \<Rightarrow> bytes \<Rightarrow> request \<Rightarrow> 'x world \<Rightarrow> fate) \<Rightarrow> 'x send" where
  "lossy fate src dst req w =
     (case fate src dst req w of
        Arrives \<Rightarrow> net src dst req w
      | RequestLost \<Rightarrow> (Inl ErrNoRoute, w)
      | ReplyLost \<Rightarrow> (Inl ErrNoRoute, snd (net src dst req w)))"

interpretation cluster_net: reliable net
proof unfold_locales
  fix req :: request and src dst :: bytes and w w' :: "'x world" and r x
  assume l: "local_req req"
  show "w' = w \<or> w' = set_node dst (snd (node_handle req (w_node w dst))) w" if "net src dst req w = (r, w')"
    using that by (auto simp: net_local [OF l] split: if_splits prod.splits)
  show "node_handle req (w_node w dst) = (Inr x, w_node w' dst) \<and> w' = set_node dst (w_node w' dst) w"
    if "net src dst req w = (Inr x, w')"
    using that by (auto simp: net_local [OF l] map_sum_def split: if_splits prod.splits sum.splits)
  show "net src dst req w =
      (case node_handle req (w_node w dst) of (r, n) \<Rightarrow> (map_sum (RemoteError 1) id r, set_node dst n w))" if "w_up w src dst"
    using that by (simp add: net_local [OF l])
qed

interpretation lossy_net: network "lossy fate" for fate :: "bytes \<Rightarrow> bytes \<Rightarrow> request \<Rightarrow> 'x world \<Rightarrow> fate"
proof unfold_locales
  fix req :: request and src dst :: bytes and w w' :: "'x world" and r x
  assume l: "local_req req"
  show "w' = w \<or> w' = set_node dst (snd (node_handle req (w_node w dst))) w" if "lossy fate src dst req w = (r, w')"
    using that cluster_net.local_effect [OF l, of src dst w]
    by (cases "net src dst req w") (auto simp: lossy_def split: fate.splits)
  show "node_handle req (w_node w dst) = (Inr x, w_node w' dst) \<and> w' = set_node dst (w_node w' dst) w"
    if "lossy fate src dst req w = (Inr x, w')"
    using that cluster_net.local_reply [OF l, of src dst w x w'] by (auto simp: lossy_def split: fate.splits)
qed

end
