(* ===== verification/Medusa.thy ===== *)
theory Medusa
  imports Network
begin

text \<open>
  The life of a node, \<open>medusa.go\<close>: start-up from its data directory, one turn of the maintenance loop,
  the snapshot file, leaving and closing.

  A start takes what is outside the program as arguments: the clock, the outcomes of the file
  operations, the two files of the data directory, the registries of the process and whether the
  transport can listen. A turn of the maintenance loop takes what discovery returned and, for each
  partition, whether the time box of the migration had run out. The temporary file of a snapshot is
  not part of the state: it is truncated before it is written and nothing reads it, so all that a
  failed or interrupted write leaves behind is the previous snapshot. Logging and metrics are left
  out, and so is \<open>closeOnce\<close>: \<open>node_Close\<close> is the first call.
\<close>

section \<open>Constants\<close>

definition failureMissThreshold :: u8 where
  "failureMissThreshold = 3"

definition tombstoneTTL :: int where
  "tombstoneTTL = 5 * 60 * 1000000000"

definition snapshotInterval :: int where
  "snapshotInterval = 30 * 1000000000"

definition antiEntropyBatch :: int where
  "antiEntropyBatch = 8"

definition evictBatch :: int where
  "evictBatch = 1024"

section \<open>The snapshot file\<close>

text \<open>A sequence of file operations, up to the first that fails.\<close>

fun file_ops :: "nat \<Rightarrow> io list \<Rightarrow> bool \<times> io list" where
  "file_ops (Suc k) (r # rs) = (if r = IoOk then file_ops k rs else (False, rs))"
| "file_ops _ rs = (True, rs)"

text \<open>
  The six operations are \<open>MkdirAll\<close>, \<open>OpenFile\<close>, \<open>Write\<close>, \<open>Sync\<close> and \<open>Close\<close> of the temporary file,
  and the \<open>Rename\<close> that replaces the snapshot.
\<close>

definition writeSnapshotFile :: "Snapshot \<Rightarrow> 'x Node \<Rightarrow> error option \<times> 'x Node" where
  "writeSnapshotFile snap n =
     (case file_ops 6 (n_io n) of (ok, ios) \<Rightarrow>
        if ok then (None, n\<lparr>n_io := ios, n_snapFile := Content (Snapshot_MarshalVT snap)\<rparr>)
        else (Some (ErrOs ErrOsWrite), n\<lparr>n_io := ios\<rparr>))"

definition saveSnapshot :: "'x Node \<Rightarrow> error option \<times> 'x Node" where
  "saveSnapshot n = Checkpoint writeSnapshotFile n"

definition loadSnapshot :: "'x Node \<Rightarrow> error option \<times> 'x Node" where
  "loadSnapshot n =
     (case n_snapFile n of
        Missing \<Rightarrow> (None, n)
      | Unreadable \<Rightarrow> (Some (ErrOs ErrOsOpen), n)
      | Content data \<Rightarrow>
          (case Snapshot_UnmarshalVT data Snapshot_zero of
             Inl e \<Rightarrow> (Some (ErrProto e), n) | Inr snap \<Rightarrow> (None, Restore snap n)))"

section \<open>Start\<close>

record Config =
  c_ID :: bytes
  c_Addr :: bytes
  c_Backups :: int
  c_MaxEntries :: int
  c_DataDir :: bytes

text \<open>\<open>Config\<close> to the state before the data directory is read: \<open>cluster.New\<close>, \<open>imap.NewService\<close>.\<close>

definition init_node ::
  "Config \<Rightarrow> int \<Rightarrow> io list \<Rightarrow> os_file \<Rightarrow> os_file \<Rightarrow> (bytes, processor) gomap \<Rightarrow> (bytes, aggregator) gomap \<Rightarrow> 'x Node" where
  "init_node cfg now ios snapFile walFile procs aggs =
     (let nid = (if c_ID cfg = [] then c_Addr cfg else c_ID cfg);
          backups = (if c_Backups cfg < 1 then 1 else c_Backups cfg);
          mem = mem_New \<lparr>m_ID = nid, m_Addr = c_Addr cfg\<rparr> backups
      in \<lparr>n_mem = mem, n_store = newStore, n_wal = None, n_events = newListeners, n_loaders = newLoaderRegistry,
          n_procs = procs, n_aggs = aggs, n_clock = now, n_io = ios, n_walFile = walFile, n_snapFile = snapFile,
          n_durable = (c_DataDir cfg \<noteq> []), n_maxEntries = c_MaxEntries cfg, n_lastMigrated = TableVersion mem,
          n_lastSave = 0, n_checkpointDue = False, n_cursor = 0\<rparr>)"

text \<open>Errors of the two files are logged and start-up goes on.\<close>

definition open_data :: "'x Node \<Rightarrow> 'x Node" where
  "open_data n =
     (if n_durable n then (let n1 = snd (loadSnapshot n); n2 = snd (OpenWAL n1) in n2\<lparr>n_lastSave := n_clock n2\<rparr>)
      else n)"

definition node_New ::
  "Config \<Rightarrow> int \<Rightarrow> io list \<Rightarrow> os_file \<Rightarrow> os_file \<Rightarrow> (bytes, processor) gomap \<Rightarrow> (bytes, aggregator) gomap \<Rightarrow>
    error option \<Rightarrow> error option \<times> 'x Node" where
  "node_New cfg now ios snapFile walFile procs aggs listen =
     (let n = open_data (init_node cfg now ios snapFile walFile procs aggs)
      in case listen of
           Some e \<Rightarrow> (Some e, if n_durable n then CloseWAL n else n)
         | None \<Rightarrow> (None, n))"

section \<open>The maintenance loop\<close>

definition on_node :: "bytes \<Rightarrow> ('x Node \<Rightarrow> 'x Node) \<Rightarrow> 'x world \<Rightarrow> 'x world" where
  "on_node a f w = set_node a (f (w_node w a)) w"

definition maintain_membership :: "'x send \<Rightarrow> bytes \<Rightarrow> error + bytes list \<Rightarrow> 'x world \<Rightarrow> 'x world" where
  "maintain_membership send a disco w =
     (if length (Members (view w a)) \<le> 1 then
        (case disco of
           Inl _ \<Rightarrow> w
         | Inr seeds \<Rightarrow> if length seeds = 0 then w else snd (Join send a seeds w))
      else
        (let w1 = Gossip send a w;
             w2 = snd (DetectFailures send a failureMissThreshold w1);
             w3 = set_mem a (PruneTombstones (clock w2 a) tombstoneTTL (view w2 a)) w2
         in case SyncBackups send a (mem_table (view w3 a)) (n_cursor (w_node w3 a)) antiEntropyBatch w3 of
              ((synced, cursor), w4) \<Rightarrow> on_node a (\<lambda>n. n\<lparr>n_cursor := int cursor\<rparr>) w4))"

definition maintain_rebalance :: "'x send \<Rightarrow> bytes \<Rightarrow> (nat \<Rightarrow> bool) \<Rightarrow> 'x world \<Rightarrow> 'x world" where
  "maintain_rebalance send a cancelled w =
     (let v = TableVersion (view w a)
      in if v \<noteq> n_lastMigrated (w_node w a) then
           (case Migrate send a cancelled (mem_table (view w a)) w of (finished, w') \<Rightarrow>
              on_node a (\<lambda>n. n\<lparr>n_checkpointDue := True, n_lastMigrated := if finished then v else n_lastMigrated n\<rparr>) w')
         else w)"

definition maintain_checkpoint :: "'x Node \<Rightarrow> 'x Node" where
  "maintain_checkpoint n =
     (if n_durable n \<and> (n_checkpointDue n \<or> wrap64 (n_clock n - n_lastSave n) > snapshotInterval) then
        (case saveSnapshot n of
           (Some _, n') \<Rightarrow> n'
         | (None, n') \<Rightarrow> n'\<lparr>n_lastSave := n_clock n', n_checkpointDue := False\<rparr>)
      else n)"

definition maintain_tick :: "'x send \<Rightarrow> bytes \<Rightarrow> error + bytes list \<Rightarrow> (nat \<Rightarrow> bool) \<Rightarrow> 'x world \<Rightarrow> 'x world" where
  "maintain_tick send a disco cancelled w =
     (let w1 = maintain_membership send a disco w;
          w2 = maintain_rebalance send a cancelled w1;
          w3 = on_node a (\<lambda>n. snd (SweepExpired n)) w2;
          w4 = (if n_maxEntries (w_node w3 a) > 0 then snd (Evict send a (n_maxEntries (w_node w3 a)) evictBatch w3) else w3)
      in on_node a maintain_checkpoint w4)"

section \<open>Hooks and accessors\<close>

definition SetMapLoader :: "bytes \<Rightarrow> bytes \<Rightarrow> 'x MapLoader \<Rightarrow> 'x world \<Rightarrow> 'x world" where
  "SetMapLoader a name l w = on_node a (\<lambda>n. n\<lparr>n_loaders := loaders_set name l (n_loaders n)\<rparr>) w"

text \<open>A \<open>MapStore\<close> is a loader that can also write.\<close>

definition SetMapStore ::
  "bytes \<Rightarrow> bytes \<Rightarrow> (bytes \<Rightarrow> 'x \<Rightarrow> (bytes \<times> bool \<times> bytes option) \<times> 'x) \<Rightarrow> 'x MapStore \<Rightarrow> 'x world \<Rightarrow> 'x world" where
  "SetMapStore a name load ms w = SetMapLoader a name \<lparr>ldr_Load = load, ldr_store = Some ms\<rparr> w"

definition AddEntryListener :: "bytes \<Rightarrow> 'x EntryListener option \<Rightarrow> 'x world \<Rightarrow> 'x world" where
  "AddEntryListener a fn w = on_node a (\<lambda>n. n\<lparr>n_events := listeners_add fn (n_events n)\<rparr>) w"

definition node_BackupCount :: "bytes \<Rightarrow> 'x world \<Rightarrow> nat" where
  "node_BackupCount a w = t_backupCount (mem_table (view w a))"

section \<open>Shutdown\<close>

definition close_node :: "'x Node \<Rightarrow> 'x Node" where
  "close_node n =
     (let n1 = n\<lparr>n_events := listeners_close (n_events n)\<rparr>
      in if n_durable n1 then CloseWAL (snd (saveSnapshot n1)) else n1)"

text \<open>\<open>tr.Close\<close> ends with nobody reaching the node any more.\<close>

definition node_Close :: "bytes \<Rightarrow> 'x world \<Rightarrow> 'x world" where
  "node_Close a w = (on_node a close_node w)\<lparr>w_up := \<lambda>src dst. dst \<noteq> a \<and> w_up w src dst\<rparr>"

definition node_Leave :: "'x send \<Rightarrow> bytes \<Rightarrow> (nat \<Rightarrow> bool) \<Rightarrow> 'x world \<Rightarrow> 'x world" where
  "node_Leave send a cancelled w =
     (let w1 = snd (Migrate send a cancelled (TableWithout (self_id w a) (view w a)) w);
          w2 = AnnounceLeave send a w1
      in node_Close a w2)"

end
