(* ===== verification/Durability.thy ===== *)
theory Durability
  imports Medusa
begin

text \<open>
  What a node with a data directory recovers after a crash.

  The content of a store is a function from map names and keys to values; every log record has an
  effect \<open>plain\<close> on it. The locale \<open>logged_op\<close> is the contract of an operation that goes through
  \<open>Service.logged\<close>: the records it appends have on the content the effect that the operation has on
  the store. It is interpreted on all seven operations of the service that change the store. Inside it,
  \<open>durable_inv\<close> is shown to be kept: the snapshot and the log on disk together describe the store.
  The property says that start-up reads back that store from the files of a crash at any moment.
\<close>

section \<open>Contents and the effect of a record\<close>

type_synonym content = "bytes \<Rightarrow> bytes \<Rightarrow> value_t option"

definition raw_content :: "store \<Rightarrow> content" where
  "raw_content s = (\<lambda>n k. shard_lookup (s (routedPartition n k)) n k)"

definition plain :: "u8 \<times> SnapshotEntry \<Rightarrow> content \<Rightarrow> content" where
  "plain r c = (\<lambda>n k.
     if fst r = walOpPut \<and> n = se_Map (snd r) \<and> k = se_Key (snd r)
       then Some \<lparr>v_data = se_Value (snd r), v_expireAt = se_ExpireAt (snd r)\<rparr>
     else if fst r = walOpRemove \<and> n = se_Map (snd r) \<and> k = se_Key (snd r) then None
     else if fst r = walOpClear \<and> n = se_Map (snd r) then None
     else c n k)"

definition plain_log :: "log \<Rightarrow> content \<Rightarrow> content" where
  "plain_log rs c = fold plain rs c"

definition same_reads :: "int \<Rightarrow> content \<Rightarrow> content \<Rightarrow> bool" where
  "same_reads t c c' \<longleftrightarrow> (\<forall>n k. live t (c n k) = live t (c' n k))"

lemma plain_log_simps [simp]:
  "plain_log [] c = c" "plain_log (r # rs) c = plain_log rs (plain r c)"
  "plain_log (rs @ rs') c = plain_log rs' (plain_log rs c)"
  by (simp_all add: plain_log_def)

lemma put_record_sel [simp]:
  "se_Map (put_record n k v e) = n" "se_Key (put_record n k v e) = k" "se_Value (put_record n k v e) = v"
  "se_ExpireAt (put_record n k v e) = e" "se_unknown (put_record n k v e) = []"
  "se_Map (remove_record n k) = n" "se_Key (remove_record n k) = k" "se_ExpireAt (remove_record n k) = 0"
  "se_unknown (remove_record n k) = []" "se_Map (clear_record n) = n" "se_ExpireAt (clear_record n) = 0"
  "se_unknown (clear_record n) = []"
  by (simp_all add: put_record_def remove_record_def clear_record_def SnapshotEntry_zero_def)

lemma op_distinct [simp]:
  "walOpPut \<noteq> walOpRemove" "walOpPut \<noteq> walOpClear" "walOpRemove \<noteq> walOpPut" "walOpRemove \<noteq> walOpClear"
  "walOpClear \<noteq> walOpPut" "walOpClear \<noteq> walOpRemove"
  by (simp_all add: walOps)

text \<open>What a log does to one key does not depend on the content before it, unless it leaves it alone.\<close>

fun log_effect :: "log \<Rightarrow> bytes \<Rightarrow> bytes \<Rightarrow> value_t option option" where
  "log_effect [] n k = None"
| "log_effect (r # rs) n k =
     (case log_effect rs n k of
        Some v \<Rightarrow> Some v
      | None \<Rightarrow>
          if fst r = walOpPut \<and> n = se_Map (snd r) \<and> k = se_Key (snd r)
            then Some (Some \<lparr>v_data = se_Value (snd r), v_expireAt = se_ExpireAt (snd r)\<rparr>)
          else if fst r = walOpRemove \<and> n = se_Map (snd r) \<and> k = se_Key (snd r) then Some None
          else if fst r = walOpClear \<and> n = se_Map (snd r) then Some None
          else None)"

lemma plain_log_effect: "plain_log rs c n k = (case log_effect rs n k of None \<Rightarrow> c n k | Some v \<Rightarrow> v)"
  by (induction rs arbitrary: c) (auto simp: plain_def split: option.splits)

lemma same_reads_log: "same_reads t c c' \<Longrightarrow> same_reads t (plain_log rs c) (plain_log rs c')"
  by (auto simp: same_reads_def plain_log_effect split: option.splits)

text \<open>Replaying a log on a content that it already describes changes no read.\<close>

lemma same_reads_absorb: "same_reads t c (plain_log rs c0) \<Longrightarrow> same_reads t (plain_log rs c) (plain_log rs c0)"
  by (auto simp: same_reads_def plain_log_effect split: option.splits)

lemma same_reads_refl [simp, intro]: "same_reads t c c"
  by (simp add: same_reads_def)

lemma same_reads_trans: "same_reads t c c' \<Longrightarrow> same_reads t c' c'' \<Longrightarrow> same_reads t c c''"
  by (simp add: same_reads_def)

lemma same_reads_sym: "same_reads t c c' \<Longrightarrow> same_reads t c' c"
  by (simp add: same_reads_def)

lemma raw_inject:
  assumes "placed s" "placed s'"
  shows "raw_content s = raw_content s' \<longleftrightarrow> (\<forall>p n k. shard_lookup (s p) n k = shard_lookup (s' p) n k)"
proof
  assume eq: "raw_content s = raw_content s'"
  show "\<forall>p n k. shard_lookup (s p) n k = shard_lookup (s' p) n k"
  proof (intro allI)
    fix p n k
    show "shard_lookup (s p) n k = shard_lookup (s' p) n k"
    proof (cases "p = routedPartition n k")
      case True
      with eq show ?thesis by (simp add: raw_content_def fun_eq_iff)
    next
      case False
      with assms have "shard_lookup (s p) n k = None" "shard_lookup (s' p) n k = None"
        by (metis placed_def)+
      then show ?thesis by simp
    qed
  qed
qed (simp add: raw_content_def)

section \<open>Operations that log what they do\<close>

definition in_range :: "content \<Rightarrow> bool" where
  "in_range c \<longleftrightarrow> (\<forall>n k v. c n k = Some v \<longrightarrow> int64_range (v_expireAt v))"

definition record_sound :: "u8 \<times> SnapshotEntry \<Rightarrow> bool" where
  "record_sound r \<longleftrightarrow> se_unknown (snd r) = [] \<and> int64_range (se_ExpireAt (snd r))"

lemma int64_range_0 [simp]: "int64_range 0"
  by (simp add: int64_range_def)

lemma in_range_plain: "in_range c \<Longrightarrow> record_sound r \<Longrightarrow> in_range (plain r c)"
  by (auto simp: in_range_def plain_def record_sound_def split: if_splits)

lemma in_range_log: "in_range c \<Longrightarrow> list_all record_sound rs \<Longrightarrow> in_range (plain_log rs c)"
  by (induction rs arbitrary: c) (simp_all add: in_range_plain)

locale logged_op =
  fixes mutate :: "store \<Rightarrow> 'r \<times> store" and rec :: "'r \<Rightarrow> log"
  assumes keeps_inv: "store_inv s \<Longrightarrow> store_inv (snd (mutate s))"
    and logs_effect: "store_inv s \<Longrightarrow> raw_content (snd (mutate s)) = plain_log (rec (fst (mutate s))) (raw_content s)"
    and sound: "store_inv s \<Longrightarrow> in_range (raw_content s) \<Longrightarrow> list_all record_sound (rec (fst (mutate s)))"

lemma int64_range_expireFromTTL: "int64_range (expireFromTTL now ttl)"
  by (simp add: expireFromTTL_def int64_range_def wrap64_def)

interpretation put_op: logged_op "store_put now (routedPartition name key) name key val (expireFromTTL now ttl)"
    "\<lambda>_. [(walOpPut, put_record name key val (expireFromTTL now ttl))]"
  for now name key val ttl
proof
  fix s :: store
  assume s: "store_inv s"
  then show "store_inv (snd (store_put now (routedPartition name key) name key val (expireFromTTL now ttl) s))"
    by (simp add: store_inv_def wf_put placed_put)
  show "raw_content (snd (store_put now (routedPartition name key) name key val (expireFromTTL now ttl) s)) =
      plain_log [(walOpPut, put_record name key val (expireFromTTL now ttl))] (raw_content s)"
    by (auto simp: raw_content_def plain_def store_put_lookup fun_eq_iff)
qed (simp add: record_sound_def int64_range_expireFromTTL)

interpretation remove_op: logged_op "store_remove now (routedPartition name key) name key"
    "\<lambda>_. [(walOpRemove, remove_record name key)]"
  for now name key
proof
  fix s :: store
  assume s: "store_inv s"
  then show "store_inv (snd (store_remove now (routedPartition name key) name key s))"
    by (rule store_step_inv [OF step_remove])
  show "raw_content (snd (store_remove now (routedPartition name key) name key s)) =
      plain_log [(walOpRemove, remove_record name key)] (raw_content s)"
    by (auto simp: raw_content_def plain_def store_remove_lookup fun_eq_iff)
qed (simp add: record_sound_def)

interpretation clear_op: logged_op "clearMap name"
    "\<lambda>removed. if length removed = 0 then [] else [(walOpClear, clear_record name)]"
  for name
proof
  fix s :: store
  assume s: "store_inv s"
  then show "store_inv (snd (clearMap name s))" by (rule store_step_inv [OF step_clear])
  have "raw_content s name k = None" if "fst (clearMap name s) = []" for k
  proof -
    have "bucket (s (routedPartition name k)) name = []"
      using that For_less by (auto simp: clearMap_def routedPartition_def)
    then show ?thesis by (simp add: raw_content_def bucket_empty_lookup)
  qed
  then show "raw_content (snd (clearMap name s)) =
      plain_log (if length (fst (clearMap name s)) = 0 then [] else [(walOpClear, clear_record name)]) (raw_content s)"
    using For_less by (auto simp: raw_content_def plain_def clearMap_lookup fun_eq_iff routedPartition_def)
qed (simp add: record_sound_def)

lemma removes_effect:
  "log_effect (map (\<lambda>e. (walOpRemove, remove_record (e_mapName e) (e_key e))) es) n k =
    (if \<exists>e\<in>set es. e_mapName e = n \<and> e_key e = k then Some None else None)"
  by (induction es) auto

interpretation drop_op: logged_op "dropMigrated p es"
    "map (\<lambda>e. (walOpRemove, remove_record (e_mapName e) (e_key e)))"
  for p es
proof
  fix s :: store
  assume s: "store_inv s"
  then show "store_inv (snd (dropMigrated p es s))" by (rule store_step_inv [OF step_migrate])
  from s have w: "wf_store s" by (simp add: store_inv_def)
  have "routedPartition (e_mapName e) (e_key e) = p"
    if "same_value e (shard_lookup (s p) (e_mapName e) (e_key e))" for e
    using s that by (auto simp: store_inv_def placed_def same_value_def)
  then show "raw_content (snd (dropMigrated p es s)) =
      plain_log (map (\<lambda>e. (walOpRemove, remove_record (e_mapName e) (e_key e))) (fst (dropMigrated p es s))) (raw_content s)"
    by (auto simp: raw_content_def fun_eq_iff plain_log_effect removes_effect dropMigrated_dropped dropMigrated_lookup [OF w])
qed (simp add: record_sound_def list_all_iff)

interpretation prune_op: logged_op "pruneToKeyset p keep"
    "map (\<lambda>e. (walOpRemove, remove_record (e_mapName e) (e_key e)))"
  for p keep
proof
  fix s :: store
  assume s: "store_inv s"
  then show "store_inv (snd (pruneToKeyset p keep s))" by (rule store_step_inv [OF step_prune])
  from s have w: "wf_store s" by (simp add: store_inv_def)
  have mem: "e \<in> set (fst (pruneToKeyset p keep s)) \<longleftrightarrow> \<not> kept keep (e_mapName e) (e_key e) \<and>
      shard_lookup (s p) (e_mapName e) (e_key e) = Some \<lparr>v_data = e_value e, v_expireAt = e_expireAt e\<rparr>" for e
    by (rule pruneToKeyset_dropped [OF w])
  have ex: "(\<exists>e\<in>set (fst (pruneToKeyset p keep s)). e_mapName e = n \<and> e_key e = k) \<longleftrightarrow>
      \<not> kept keep n k \<and> shard_lookup (s p) n k \<noteq> None" for n k
  proof
    assume "\<not> kept keep n k \<and> shard_lookup (s p) n k \<noteq> None"
    then obtain v where "\<not> kept keep n k" "shard_lookup (s p) n k = Some v" by auto
    then have "entry_of n k v \<in> set (fst (pruneToKeyset p keep s))" by (simp add: mem)
    then show "\<exists>e\<in>set (fst (pruneToKeyset p keep s)). e_mapName e = n \<and> e_key e = k" by force
  qed (auto simp: mem)
  have "routedPartition n k = p" if "shard_lookup (s p) n k \<noteq> None" for n k
    using s that by (auto simp: store_inv_def placed_def)
  then show "raw_content (snd (pruneToKeyset p keep s)) =
      plain_log (map (\<lambda>e. (walOpRemove, remove_record (e_mapName e) (e_key e))) (fst (pruneToKeyset p keep s))) (raw_content s)"
    by (auto simp: raw_content_def fun_eq_iff plain_log_effect removes_effect ex pruneToKeyset_lookup [OF w])
qed (simp add: record_sound_def list_all_iff)

text \<open>The processor call of \<open>applyExecute\<close> and the queue transaction of \<open>applyQueueExecute\<close>.\<close>

definition execute_mutate ::
  "int \<Rightarrow> bytes \<Rightarrow> bytes \<Rightarrow> processor \<Rightarrow> bytes \<Rightarrow> store \<Rightarrow> (Action \<times> int \<times> bytes \<times> bool \<times> bytes) \<times> store" where
  "execute_mutate now name key pr arg =
     store_update now (For key) name key (\<lambda>cur ex. case pr cur ex arg of (newVal, action, out) \<Rightarrow> (newVal, action, (newVal, ex, out)))"

definition execute_records :: "bytes \<Rightarrow> bytes \<Rightarrow> Action \<times> int \<times> bytes \<times> bool \<times> bytes \<Rightarrow> log" where
  "execute_records name key = (\<lambda>(action, expireAt, newVal, existed, out).
     case action of
       Set \<Rightarrow> [(walOpPut, put_record name key newVal expireAt)]
     | Delete \<Rightarrow> [(walOpRemove, remove_record name key)]
     | Keep \<Rightarrow> [])"

lemma local_execute_logged:
  "local_execute name key pr arg n = logged (execute_mutate (n_clock n) name key pr arg) (execute_records name key) n"
proof -
  have "(\<lambda>s. case execute_mutate (n_clock n) name key pr arg s of
      ((action, expireAt, newVal, existed, out), s') \<Rightarrow> ((action, expireAt, newVal, existed, out), s')) =
    execute_mutate (n_clock n) name key pr arg"
    by (simp add: fun_eq_iff split: prod.split)
  then show ?thesis by (simp add: local_execute_def execute_records_def execute_mutate_def)
qed

lemma execute_op:
  assumes "name \<noteq> queueSegMap"
  shows "logged_op (execute_mutate now name key pr arg) (execute_records name key)"
proof
  fix s :: store
  assume s: "store_inv s"
  let ?p = "For key" and ?f = "\<lambda>cur ex. case pr cur ex arg of (newVal, action, out) \<Rightarrow> (newVal, action, (newVal, ex, out))"
  have r: "routedPartition name key = ?p" using assms by (simp add: routedPartition_def)
  obtain cur ex e where v: "live_view now s ?p name key = (cur, ex, e)" by (cases "live_view now s ?p name key")
  obtain nv act out where f: "pr cur ex arg = (nv, act, out)" by (cases "pr cur ex arg")
  then have f': "?f cur ex = (nv, act, (nv, ex, out))" by simp
  have res: "fst (execute_mutate now name key pr arg s) = (act, if act = Set then e else 0, nv, ex, out)"
    unfolding execute_mutate_def by (rule store_update_result [where fn = ?f, OF v f'])
  have lk: "shard_lookup (snd (execute_mutate now name key pr arg s) q) n k =
      (if q = ?p \<and> n = name \<and> k = key
       then (case act of Set \<Rightarrow> Some \<lparr>v_data = nv, v_expireAt = e\<rparr> | Delete \<Rightarrow> None | Keep \<Rightarrow> shard_lookup (s ?p) name key)
       else shard_lookup (s q) n k)" for q n k
    unfolding execute_mutate_def by (rule store_update_lookup [where fn = ?f, OF v f'])
  show "raw_content (snd (execute_mutate now name key pr arg s)) =
      plain_log (execute_records name key (fst (execute_mutate now name key pr arg s))) (raw_content s)"
    by (cases act) (auto simp: raw_content_def lk res execute_records_def plain_def fun_eq_iff r)
  have "wf_store (snd (execute_mutate now name key pr arg s))"
    using s by (auto simp: store_inv_def execute_mutate_def store_update_def Let_def intro!: wf_storeI
        split: prod.splits Action.splits)
  moreover have "placed (snd (execute_mutate now name key pr arg s))"
    using s r by (auto simp: store_inv_def placed_def lk split: if_splits Action.splits)
  ultimately show "store_inv (snd (execute_mutate now name key pr arg s))" by (simp add: store_inv_def)
  assume range: "in_range (raw_content s)"
  have "int64_range e"
    using v range [unfolded in_range_def, rule_format, of name key] r
    by (auto simp: live_view_def live_def raw_content_def split: option.splits if_splits)
  then show "list_all record_sound (execute_records name key (fst (execute_mutate now name key pr arg s)))"
    by (simp add: res execute_records_def record_sound_def split: Action.split)
qed

lemma mut_apply_plain: "foldl mut_apply c muts = plain_log (map mutation_record muts) c"
proof (induction muts arbitrary: c)
  case (Cons m muts)
  have "mut_apply c m = plain (mutation_record m) c"
    by (auto simp: mut_apply_def plain_def mutation_record_def fun_eq_iff)
  with Cons show ?case by simp
qed simp

definition queue_mutate :: "int \<Rightarrow> bytes \<Rightarrow> bytes \<Rightarrow> bytes \<Rightarrow> store \<Rightarrow> ((queue_error + bytes) \<times> mutation list) \<times> store" where
  "queue_mutate now qname op arg s =
     (case updateMulti (For qname) (queueOp qname op arg (tx_get now) tx_set tx_del) s of (r, muts, s') \<Rightarrow> ((r, muts), s'))"

lemma untouched_effect:
  "\<forall>m \<in> set muts. (m_mapName m, m_key m) \<noteq> (n, k) \<Longrightarrow> log_effect (map mutation_record muts) n k = None"
  by (induction muts) (auto simp: mutation_record_def)

interpretation queue_op: logged_op "queue_mutate now qname op arg" "\<lambda>(r, muts). map mutation_record muts"
  for now qname op arg
proof
  fix s :: store
  assume s: "store_inv s"
  let ?q = "queueOp qname op arg (tx_get now) tx_set tx_del (s (For qname), [])"
  obtain r sh muts where q: "?q = (r, sh, muts)" by (cases ?q)
  have m: "queue_mutate now qname op arg s = ((r, muts), s(For qname := sh))"
    by (simp add: queue_mutate_def updateMulti_def q)
  have "store_inv (snd (snd (updateMulti (For qname) (queueOp qname op arg (tx_get now) tx_set tx_del) s)))"
    using s by (rule store_step_inv [OF step_queue])
  then show "store_inv (snd (queue_mutate now qname op arg s))" by (simp add: m updateMulti_def q)
  have lk: "shard_lookup sh = plain_log (map mutation_record muts) (shard_lookup (s (For qname)))"
    using queueOp_log(1) [of qname op arg "tx_get now" "s (For qname)"] by (simp add: q mut_apply_plain)
  have own: "routedPartition (m_mapName x) (m_key x) = For qname" if "x \<in> set muts" for x
    using queueOp_log(2) [of x qname op arg "tx_get now" "s (For qname)"] that by (simp add: q own_mutation_routed)
  show "raw_content (snd (queue_mutate now qname op arg s)) =
      plain_log (case fst (queue_mutate now qname op arg s) of (r, muts) \<Rightarrow> map mutation_record muts) (raw_content s)"
  proof (intro ext)
    fix n k
    show "raw_content (snd (queue_mutate now qname op arg s)) n k =
      plain_log (case fst (queue_mutate now qname op arg s) of (r, muts) \<Rightarrow> map mutation_record muts) (raw_content s) n k"
    proof (cases "routedPartition n k = For qname")
      case True
      then show ?thesis by (simp add: m raw_content_def lk plain_log_effect split: option.split)
    next
      case False
      then have "log_effect (map mutation_record muts) n k = None" using own by (intro untouched_effect) auto
      with False show ?thesis by (simp add: m raw_content_def plain_log_effect)
    qed
  qed
  show "list_all record_sound (case fst (queue_mutate now qname op arg s) of (r, muts) \<Rightarrow> map mutation_record muts)"
    by (auto simp: m list_all_iff record_sound_def mutation_record_def)
qed

section \<open>The disk describes the store\<close>

definition snapshot_of_entries :: "SnapshotEntry list \<Rightarrow> Snapshot" where
  "snapshot_of_entries es = \<lparr>sn_Entries = es, sn_unknown = []\<rparr>"

definition snap_holds :: "os_file \<Rightarrow> SnapshotEntry list \<Rightarrow> bool" where
  "snap_holds f es \<longleftrightarrow> f = Missing \<and> es = [] \<or>
     f = Content (Snapshot_MarshalVT (snapshot_of_entries es)) \<and> Snapshot_ok (snapshot_of_entries es)"

definition disk_content :: "SnapshotEntry list \<Rightarrow> log \<Rightarrow> content" where
  "disk_content es rs = plain_log (map (Pair walOpPut) es @ rs) (\<lambda>_ _. None)"

definition disk_holds :: "os_file \<Rightarrow> os_file \<Rightarrow> SnapshotEntry list \<Rightarrow> log \<Rightarrow> bool" where
  "disk_holds sf lf es rs \<longleftrightarrow> snap_holds sf es \<and> lf = Content (log_bytes rs) \<and> list_all record_ok rs"

definition durable_inv :: "'x Node \<Rightarrow> bool" where
  "durable_inv n \<longleftrightarrow> n_io n = [] \<and> store_inv (n_store n) \<and> in_range (raw_content (n_store n)) \<and>
     (\<exists>w es rs. n_wal n = Some w \<and> at_end (w, log_bytes rs) \<and> disk_holds (n_snapFile n) (n_walFile n) es rs \<and>
       (\<forall>t \<ge> n_clock n. same_reads t (raw_content (n_store n)) (disk_content es rs)))"

lemma disk_content_append: "disk_content es (rs @ rs') = plain_log rs' (disk_content es rs)"
  by (simp add: disk_content_def)

lemma append_record_ok:
  assumes "n_io n = []" "n_wal n = Some w" "n_walFile n = Content b" "at_end (w, b)"
  shows "\<exists>w'. append_record r n = (None, n\<lparr>n_wal := Some w', n_walFile := Content (b @ frame r)\<rparr>) \<and> at_end (w', b @ frame r)"
proof -
  obtain err w' b' where a: "appendLocked IoOk (fst r) (snd r) (w, b) = (err, w', b')"
    by (metis prod_cases3)
  have "err = None" "at_end (w', b')" "b' = b @ frame r"
    using append_ok [OF assms(4), of "fst r" "snd r"] by (simp_all add: a)
  moreover have "n\<lparr>n_wal := Some w', n_walFile := Content b', n_io := []\<rparr> = n\<lparr>n_wal := Some w', n_walFile := Content b'\<rparr>"
    using assms(1) by (cases n) simp
  ultimately show ?thesis using assms a
    by (intro exI [of _ w']) (simp add: append_record_def next_io_def file_bytes_def)
qed

lemma append_all_ok:
  assumes "n_io n = []" "n_wal n = Some w" "n_walFile n = Content b" "at_end (w, b)"
  shows "\<exists>w'. append_all rs n = (None, n\<lparr>n_wal := Some w', n_walFile := Content (b @ log_bytes rs)\<rparr>) \<and>
    at_end (w', b @ log_bytes rs)"
  using assms
proof (induction rs arbitrary: n w b)
  case Nil
  then show ?case by (cases n) auto
next
  case (Cons r rs)
  obtain w1 where r: "append_record r n = (None, n\<lparr>n_wal := Some w1, n_walFile := Content (b @ frame r)\<rparr>)"
    and e: "at_end (w1, b @ frame r)" using append_record_ok [OF Cons.prems, of r] by blast
  let ?n = "n\<lparr>n_wal := Some w1, n_walFile := Content (b @ frame r)\<rparr>"
  obtain w2 where "append_all rs ?n = (None, ?n\<lparr>n_wal := Some w2, n_walFile := Content ((b @ frame r) @ log_bytes rs)\<rparr>)"
    "at_end (w2, (b @ frame r) @ log_bytes rs)"
    using Cons.IH [of ?n w1 "b @ frame r"] Cons.prems(1) e by auto
  with r show ?case by auto
qed

text \<open>The log grows by at most its replay limit between two checkpoints, so every record in it fits.\<close>

lemma records_fit: "list_all record_sound rs \<Longrightarrow> length (log_bytes rs) \<le> maxWALRecord \<Longrightarrow> list_all record_ok rs"
  by (induction rs) (auto simp: record_sound_def record_ok_def length_frame)

context logged_op
begin

lemma logged_state:
  assumes "n_io n = []" "n_wal n = Some w" "n_walFile n = Content b" "at_end (w, b)"
  shows "\<exists>w'. snd (logged mutate rec n) =
      n\<lparr>n_store := snd (mutate (n_store n)), n_wal := Some w', n_walFile := Content (b @ log_bytes (rec (fst (mutate (n_store n)))))\<rparr> \<and>
      fst (fst (logged mutate rec n)) = None \<and> at_end (w', b @ log_bytes (rec (fst (mutate (n_store n)))))"
proof -
  obtain r s where m: "mutate (n_store n) = (r, s)" by (cases "mutate (n_store n)")
  obtain w' where "append_all (rec r) (n\<lparr>n_store := s\<rparr>) =
      (None, n\<lparr>n_store := s, n_wal := Some w', n_walFile := Content (b @ log_bytes (rec r))\<rparr>)" "at_end (w', b @ log_bytes (rec r))"
    using append_all_ok [of "n\<lparr>n_store := s\<rparr>" w b "rec r"] assms by auto
  with assms(2) show ?thesis by (auto simp: logged_def m)
qed

lemma durable:
  assumes inv: "durable_inv n" and small: "length (file_bytes (n_walFile (snd (logged mutate rec n)))) \<le> maxWALRecord"
  shows "durable_inv (snd (logged mutate rec n)) \<and> fst (fst (logged mutate rec n)) = None"
proof -
  from inv obtain w es rs where io: "n_io n = []" and s: "store_inv (n_store n)" and range: "in_range (raw_content (n_store n))"
    and w: "n_wal n = Some w" "at_end (w, log_bytes rs)" and d: "disk_holds (n_snapFile n) (n_walFile n) es rs"
    and same: "\<forall>t \<ge> n_clock n. same_reads t (raw_content (n_store n)) (disk_content es rs)"
    by (auto simp: durable_inv_def)
  from d have f: "n_walFile n = Content (log_bytes rs)" by (simp add: disk_holds_def)
  define rs' where "rs' = rec (fst (mutate (n_store n)))"
  obtain w' where n': "snd (logged mutate rec n) =
      n\<lparr>n_store := snd (mutate (n_store n)), n_wal := Some w', n_walFile := Content (log_bytes rs @ log_bytes rs')\<rparr>"
    and ok: "fst (fst (logged mutate rec n)) = None" and e: "at_end (w', log_bytes rs @ log_bytes rs')"
    unfolding rs'_def using logged_state [OF io w(1) f w(2)] by blast
  have snd': "list_all record_sound rs'" unfolding rs'_def by (rule sound [OF s range])
  have "length (log_bytes rs') \<le> maxWALRecord" using small by (simp add: n' file_bytes_def)
  with snd' have "list_all record_ok rs'" by (rule records_fit)
  with d have d': "disk_holds (n_snapFile n) (Content (log_bytes (rs @ rs'))) es (rs @ rs')" by (simp add: disk_holds_def)
  have raw: "raw_content (snd (mutate (n_store n))) = plain_log rs' (raw_content (n_store n))"
    unfolding rs'_def by (rule logs_effect [OF s])
  have "same_reads t (raw_content (snd (mutate (n_store n)))) (disk_content es (rs @ rs'))" if "t \<ge> n_clock n" for t
    using same that by (simp add: raw disk_content_append same_reads_log)
  moreover have "in_range (raw_content (snd (mutate (n_store n))))" unfolding raw by (rule in_range_log [OF range snd'])
  ultimately have "durable_inv (snd (logged mutate rec n))"
    unfolding durable_inv_def n' using io keeps_inv [OF s] e d'
    by (auto intro!: exI [of _ es] exI [of _ "rs @ rs'"])
  with ok show ?thesis by blast
qed

end

section \<open>Histories of a durable node\<close>

lemma queue_logged: "local_queue qname op arg n = logged (queue_mutate (n_clock n) qname op arg) (\<lambda>(r, muts). map mutation_record muts) n"
proof -
  have "(\<lambda>s. case updateMulti (For qname) (queueOp qname op arg (tx_get (n_clock n)) tx_set tx_del) s of
      (r, muts, s') \<Rightarrow> ((r, muts), s')) = queue_mutate (n_clock n) qname op arg"
    by (simp add: queue_mutate_def fun_eq_iff)
  then show ?thesis by (simp only: local_queue_def)
qed

lemma drop_logged:
  "dropMigratedLogged p es n =
    snd (logged (dropMigrated p es) (map (\<lambda>e. (walOpRemove, remove_record (e_mapName e) (e_key e)))) n)"
  by (simp add: dropMigratedLogged_def logged_def split: prod.split)

lemma prune_logged:
  "snd (pruneToKeysetLogged p keep n) =
    snd (logged (pruneToKeyset p keep) (map (\<lambda>e. (walOpRemove, remove_record (e_mapName e) (e_key e)))) n)"
  by (simp add: pruneToKeysetLogged_def logged_def split: prod.split)

text \<open>
  What a node does to its store and its disk: the logged operations, the expiry sweep and a
  checkpoint, while its clock advances.
\<close>

inductive durable_step :: "'x Node \<Rightarrow> 'x Node \<Rightarrow> bool" where
  dur_put: "durable_step n (snd (local_put name key val ttlMs n))"
| dur_remove: "durable_step n (snd (local_remove name key n))"
| dur_execute: "name \<noteq> queueSegMap \<Longrightarrow> durable_step n (snd (local_execute name key pr arg n))"
| dur_queue: "durable_step n (snd (local_queue qname op arg n))"
| dur_clear: "durable_step n (snd (local_clear name n))"
| dur_migrate: "durable_step n (dropMigratedLogged p es n)"
| dur_prune: "durable_step n (snd (pruneToKeysetLogged p keep n))"
| dur_sweep: "durable_step n (snd (SweepExpired n))"
| dur_checkpoint: "durable_step n (snd (saveSnapshot n))"
| dur_clock: "n_clock n \<le> t \<Longrightarrow> durable_step n (n\<lparr>n_clock := t\<rparr>)"

lemma raw_newStore: "raw_content newStore = (\<lambda>_ _. None)"
  by (simp add: raw_content_def newStore_def fun_eq_iff)

lemma sweep_raw: "store_inv s \<Longrightarrow> raw_content (snd (sweepExpired now s)) = (\<lambda>n k. live now (raw_content s n k))"
  using For_less by (auto simp: raw_content_def sweepExpired_lookup store_inv_def fun_eq_iff routedPartition_def)

lemma live_Some: "live t v = Some x \<Longrightarrow> v = Some x"
  by (simp add: live_def split: option.splits if_splits)

lemma in_range_live: "in_range c \<Longrightarrow> in_range (\<lambda>n k. live now (c n k))"
  unfolding in_range_def by (blast dest: live_Some)

lemma durable_sweep:
  assumes "durable_inv n"
  shows "durable_inv (snd (SweepExpired n))"
proof -
  from assms have s: "store_inv (n_store n)" and range: "in_range (raw_content (n_store n))" by (auto simp: durable_inv_def)
  have n': "snd (SweepExpired n) = n\<lparr>n_store := snd (sweepExpired (n_clock n) (n_store n))\<rparr>"
    by (simp add: SweepExpired_def split: prod.split)
  have "same_reads t (\<lambda>nm k. live (n_clock n) (raw_content (n_store n) nm k)) c"
    if "n_clock n \<le> t" "same_reads t (raw_content (n_store n)) c" for t c
    using that by (simp add: same_reads_def live_mono)
  with assms store_step_inv [OF step_sweep [of "n_store n" "n_clock n"] s] in_range_live [OF range, of "n_clock n"] show ?thesis
    unfolding durable_inv_def n' by (simp add: sweep_raw [OF s]) blast
qed

section \<open>Checkpoints\<close>

lemma entries_effect:
  assumes "distinct (map (\<lambda>e. (e_mapName e, e_key e)) es)"
  shows "plain_log (map (\<lambda>e. (walOpPut, put_record (e_mapName e) (e_key e) (e_value e) (e_expireAt e))) es) c n k =
    (case find (\<lambda>e. (e_mapName e, e_key e) = (n, k)) es of
       None \<Rightarrow> c n k | Some e \<Rightarrow> Some \<lparr>v_data = e_value e, v_expireAt = e_expireAt e\<rparr>)"
  using assms
proof (induction es arbitrary: c)
  case (Cons e es)
  show ?case
  proof (cases "(e_mapName e, e_key e) = (n, k)")
    case True
    with Cons.prems have "find (\<lambda>e. (e_mapName e, e_key e) = (n, k)) es = None" by (auto simp: find_None_iff image_iff)
    with Cons True show ?thesis by (simp add: plain_def)
  next
    case False
    then have "plain (walOpPut, put_record (e_mapName e) (e_key e) (e_value e) (e_expireAt e)) c n k = c n k"
      by (auto simp: plain_def)
    with Cons False show ?thesis by (auto split: option.split)
  qed
qed simp

definition snapshot_records :: "'x Node \<Rightarrow> SnapshotEntry list" where
  "snapshot_records n = sn_Entries (Snapshot_of n)"

lemma snapshot_of_records: "Snapshot_of n = snapshot_of_entries (snapshot_records n)"
  by (simp add: snapshot_records_def snapshot_of_entries_def Snapshot_of_def)

lemma snapshot_content:
  assumes "store_inv (n_store n)"
  shows "disk_content (snapshot_records n) [] = (\<lambda>nm k. live (n_clock n) (raw_content (n_store n) nm k))"
proof (intro ext)
  fix nm k
  let ?es = "snapshotAll (n_clock n) (n_store n)"
  let ?P = "\<lambda>e. (e_mapName e, e_key e) = (nm, k)"
  have "disk_content (snapshot_records n) [] nm k =
      (case find ?P ?es of None \<Rightarrow> None | Some e \<Rightarrow> Some \<lparr>v_data = e_value e, v_expireAt = e_expireAt e\<rparr>)"
    using entries_effect [OF snapshotAll_distinct [OF assms, of "n_clock n"], of "\<lambda>_ _. None" nm k]
    by (simp add: disk_content_def snapshot_records_def Snapshot_of_def comp_def)
  also have "\<dots> = live (n_clock n) (raw_content (n_store n) nm k)"
  proof (cases "find ?P ?es")
    case None
    then have "\<forall>e. e \<in> set ?es \<longrightarrow> (e_mapName e, e_key e) \<noteq> (nm, k)" by (auto simp: find_None_iff)
    then have no: "entry_of nm k v \<notin> set ?es" for v by (auto dest: spec [of _ "entry_of nm k v"])
    have "live (n_clock n) (raw_content (n_store n) nm k) = None"
    proof (rule ccontr)
      assume "live (n_clock n) (raw_content (n_store n) nm k) \<noteq> None"
      then obtain v where "live (n_clock n) (raw_content (n_store n) nm k) = Some v" by blast
      with no [of v] show False by (simp add: snapshotAll_mem [OF assms] raw_content_def)
    qed
    with None show ?thesis by simp
  next
    case (Some e)
    then have "e \<in> set ?es" "e_mapName e = nm" "e_key e = k" by (auto simp: find_Some_iff)
    with snapshotAll_mem [OF assms, of e "n_clock n"] Some show ?thesis by (simp add: raw_content_def)
  qed
  finally show "disk_content (snapshot_records n) [] nm k = live (n_clock n) (raw_content (n_store n) nm k)" .
qed

lemma snapshot_fits:
  assumes "store_inv (n_store n)" "in_range (raw_content (n_store n))" "length (Snapshot_MarshalVT (Snapshot_of n)) < 2 ^ 63"
  shows "Snapshot_ok (Snapshot_of n)"
proof -
  have "SnapshotEntry_ok x" if x: "x \<in> set (sn_Entries (Snapshot_of n))" for x
  proof -
    from x obtain e where e: "e \<in> set (snapshotAll (n_clock n) (n_store n))"
      and xe: "x = put_record (e_mapName e) (e_key e) (e_value e) (e_expireAt e)" by (auto simp: Snapshot_of_def)
    have "raw_content (n_store n) (e_mapName e) (e_key e) = Some \<lparr>v_data = e_value e, v_expireAt = e_expireAt e\<rparr>"
      using e unfolding snapshotAll_mem [OF assms(1)] raw_content_def by (rule live_Some)
    with assms(2) have "int64_range (e_expireAt e)" unfolding in_range_def by fastforce
    moreover have "SnapshotEntry_SizeVT x \<le> Snapshot_SizeVT (Snapshot_of n)"
      using member_le_sum_list [of "msg_size (SnapshotEntry_SizeVT x)" "map (\<lambda>x. msg_size (SnapshotEntry_SizeVT x)) (sn_Entries (Snapshot_of n))"] x
      by (force simp: Snapshot_SizeVT_def msg_size_def)
    ultimately show ?thesis using assms(3) by (simp add: SnapshotEntry_ok_def xe sn_m.length_MarshalVT)
  qed
  with assms(3) show ?thesis by (simp add: Snapshot_ok_def list_all_iff sn_m.length_MarshalVT) (simp add: Snapshot_of_def)
qed

lemma file_ops_Nil [simp]: "file_ops k [] = (True, [])"
  by (cases k) simp_all

lemma durable_checkpoint:
  assumes inv: "durable_inv n" and small: "length (Snapshot_MarshalVT (Snapshot_of n)) < 2 ^ 63"
  shows "durable_inv (snd (saveSnapshot n))"
proof -
  from inv obtain w es rs where io: "n_io n = []" and s: "store_inv (n_store n)" and range: "in_range (raw_content (n_store n))"
    and w: "n_wal n = Some w" "at_end (w, log_bytes rs)"
    by (auto simp: durable_inv_def)
  have n': "snd (saveSnapshot n) =
      n\<lparr>n_snapFile := Content (Snapshot_MarshalVT (Snapshot_of n)), n_wal := Some \<lparr>wal_off = Some 0\<rparr>, n_walFile := Content [], n_io := []\<rparr>"
    using io w by (auto simp: saveSnapshot_def Checkpoint_def writeSnapshotFile_def truncateLocked_def next_io_def at_end_def)
  have "disk_holds (Content (Snapshot_MarshalVT (Snapshot_of n))) (Content []) (snapshot_records n) []"
    using snapshot_fits [OF s range small] by (simp add: disk_holds_def snap_holds_def snapshot_of_records)
  moreover have "same_reads t (raw_content (n_store n)) (disk_content (snapshot_records n) [])" if "n_clock n \<le> t" for t
    using that by (simp add: snapshot_content [OF s] same_reads_def live_mono)
  ultimately show ?thesis
    unfolding durable_inv_def n' using s range
    by (simp add: at_end_def, intro exI [of _ "snapshot_records n"] exI [of _ "[] :: log"]) simp
qed

section \<open>Reading the disk back\<close>

text \<open>
  Start-up skips a put whose time to live has run out, and converts queue metadata in the legacy form.
  \<open>still_valid\<close> are the entries that it takes as they are.
\<close>

definition still_valid :: "int \<Rightarrow> SnapshotEntry \<Rightarrow> bool" where
  "still_valid t e \<longleftrightarrow> (se_ExpireAt e = 0 \<or> t < se_ExpireAt e) \<and>
     \<not> (se_Map e = queueMap \<and> length (se_Value e) \<noteq> 24 \<and> length (se_Value e) > 0)"

text \<open>The entries that the two files hold.\<close>

definition collect_puts :: "SnapshotEntry list callbacks" where
  "collect_puts = \<lparr>cb_put = \<lambda>n k v e acc. acc @ [put_record n k v e], cb_del = \<lambda>n k acc. acc, cb_clr = \<lambda>n acc. acc\<rparr>"

definition disk_puts :: "os_file \<Rightarrow> os_file \<Rightarrow> SnapshotEntry list" where
  "disk_puts sf lf =
     (case Snapshot_UnmarshalVT (file_bytes sf) Snapshot_zero of Inl _ \<Rightarrow> [] | Inr snap \<Rightarrow> sn_Entries snap) @
     (case replayWAL collect_puts lf [] of Inl _ \<Rightarrow> [] | Inr (_, es) \<Rightarrow> es)"

lemma put_record_eta: "se_unknown e = [] \<Longrightarrow> put_record (se_Map e) (se_Key e) (se_Value e) (se_ExpireAt e) = e"
  by (cases e) (simp add: put_record_def SnapshotEntry_zero_def)

lemma apply_collect:
  "list_all record_ok rs \<Longrightarrow> apply_log collect_puts rs acc = acc @ map snd (filter (\<lambda>r. fst r = walOpPut) rs)"
proof (induction rs arbitrary: acc)
  case (Cons r rs)
  obtain op e where "r = (op, e)" by (cases r)
  with Cons show ?case by (auto simp: apply_record_def collect_puts_def record_ok_def put_record_eta)
qed simp

lemma Unmarshal_Nil: "Snapshot_UnmarshalVT [] Snapshot_zero = Inr Snapshot_zero"
proof -
  have "Snapshot_ok Snapshot_zero" "Snapshot_MarshalVT Snapshot_zero = []"
    by (simp_all add: Snapshot_ok_def Snapshot_zero_def Snapshot_SizeVT_def Snapshot_MarshalVT_def)
  with sn_m.roundtrip [of Snapshot_zero] show ?thesis by simp
qed

text \<open>A log file with a torn record at the end.\<close>

definition torn :: "bytes \<Rightarrow> bool" where
  "torn b \<longleftrightarrow> b = [] \<or> (\<exists>r k. record_ok r \<and> k < length (frame r) \<and> b = take k (frame r))"

lemma replay_disk:
  assumes "list_all record_ok rs" "torn b"
  shows "replayWAL cb (Content (log_bytes rs @ b)) s = Inr (length (log_bytes rs), apply_log cb rs s)"
  using assms by (auto simp: torn_def replayWAL_def replay_log replay_torn)

lemma disk_puts_holds:
  assumes "disk_holds sf (Content (log_bytes rs)) es rs" "torn b"
  shows "disk_puts sf (Content (log_bytes rs @ b)) = es @ map snd (filter (\<lambda>r. fst r = walOpPut) rs)"
proof -
  from assms(1) have ok: "list_all record_ok rs" and sf: "snap_holds sf es" by (simp_all add: disk_holds_def)
  have "(case Snapshot_UnmarshalVT (file_bytes sf) Snapshot_zero of Inl _ \<Rightarrow> [] | Inr snap \<Rightarrow> sn_Entries snap) = es"
    using sf by (auto simp: snap_holds_def file_bytes_def Unmarshal_Nil sn_m.roundtrip) (simp_all add: Snapshot_zero_def snapshot_of_entries_def)
  then show ?thesis by (simp add: disk_puts_def replay_disk [OF ok assms(2)] apply_collect [OF ok])
qed

lemma apply_record_plain:
  assumes "op = walOpPut \<Longrightarrow> still_valid t e" "store_inv s"
  shows "raw_content (apply_record (replay_callbacks t) op e s) = plain (op, e) (raw_content s)"
    "store_inv (apply_record (replay_callbacks t) op e s)"
proof -
  consider "op = walOpPut" | "op = walOpRemove" | "op = walOpClear" | "op \<notin> {walOpPut, walOpRemove, walOpClear}" by blast
  note cases = this
  from cases show "raw_content (apply_record (replay_callbacks t) op e s) = plain (op, e) (raw_content s)"
  proof cases
    case 1
    with assms(1) show ?thesis
      by (auto simp: apply_record_def replay_callbacks_def still_valid_def plain_def raw_content_def store_put_lookup fun_eq_iff)
  qed (use For_less in \<open>auto simp: apply_record_def replay_callbacks_def plain_def raw_content_def store_remove_lookup
      clearMap_lookup fun_eq_iff routedPartition_def\<close>)
  from cases show "store_inv (apply_record (replay_callbacks t) op e s)"
  proof cases
    case 1
    with assms show ?thesis
      by (auto simp: apply_record_def replay_callbacks_def still_valid_def intro: store_step_inv [OF step_put])
  qed (use assms(2) in \<open>auto simp: apply_record_def replay_callbacks_def intro: store_step_inv [OF step_remove] store_step_inv [OF step_clear]\<close>)
qed

lemma apply_log_plain:
  assumes "\<forall>r \<in> set rs. fst r = walOpPut \<longrightarrow> still_valid t (snd r)" "store_inv s"
  shows "raw_content (apply_log (replay_callbacks t) rs s) = plain_log rs (raw_content s) \<and>
    store_inv (apply_log (replay_callbacks t) rs s)"
  using assms
proof (induction rs arbitrary: s)
  case (Cons r rs)
  obtain op e where "r = (op, e)" by (cases r)
  with Cons apply_record_plain [of op t e s] show ?case by simp
qed simp

definition entry_of_record :: "SnapshotEntry \<Rightarrow> entry" where
  "entry_of_record se = \<lparr>e_mapName = se_Map se, e_key = se_Key se, e_value = se_Value se, e_expireAt = se_ExpireAt se\<rparr>"

lemma restore_plain:
  assumes "\<forall>e \<in> set es. still_valid (n_clock n) e" "n_store n = newStore"
  shows "raw_content (n_store (Restore (snapshot_of_entries es) n)) = plain_log (map (Pair walOpPut) es) (\<lambda>_ _. None) \<and>
    store_inv (n_store (Restore (snapshot_of_entries es) n))"
proof -
  have "filter (\<lambda>se. \<not> (se_ExpireAt se \<noteq> 0 \<and> se_ExpireAt se \<le> n_clock n)) es = es"
    using assms(1) by (auto simp: filter_id_conv still_valid_def)
  moreover have "\<forall>e \<in> set (map entry_of_record es). \<not> legacy e"
    using assms(1) by (auto simp: legacy_def entry_of_record_def still_valid_def)
  ultimately have st: "n_store (Restore (snapshot_of_entries es) n) = foldl (load_put (n_clock n)) newStore (map entry_of_record es)"
    using loadAll_plain [of "map entry_of_record es" "n_clock n" newStore]
    by (simp add: Restore_def snapshot_of_entries_def Let_def assms(2) load_put_def [abs_def] entry_of_record_def [abs_def])
  have "raw_content (load_put now s (entry_of_record e)) = plain (walOpPut, e) (raw_content s)" for now s e
    by (auto simp: raw_content_def load_put_lookup plain_def entry_of_record_def fun_eq_iff)
  then have "raw_content (foldl (load_put now) s (map entry_of_record es)) = plain_log (map (Pair walOpPut) es) (raw_content s)" for now s
    by (induction es arbitrary: s) simp_all
  moreover have "store_inv (foldl (load_put now) s (map entry_of_record es))" if "store_inv s" for now s
    using that by (induction es arbitrary: s) (simp_all add: load_put_def store_inv_def wf_put placed_put)
  ultimately show ?thesis by (simp add: st raw_newStore store_inv_def newStore_inv)
qed

section \<open>Recovery\<close>

text \<open>
  What a crash can leave on the disk of a node: its files as they are, a partly written record at the
  end of the log, or a new snapshot whose log was not yet truncated.
\<close>

inductive crash_disk :: "'x Node \<Rightarrow> os_file \<Rightarrow> os_file \<Rightarrow> bool" where
  crash_idle: "crash_disk n (n_snapFile n) (n_walFile n)"
| crash_append: "record_ok r \<Longrightarrow> k < length (frame r) \<Longrightarrow>
    crash_disk n (n_snapFile n) (Content (file_bytes (n_walFile n) @ take k (frame r)))"
| crash_checkpoint: "length (Snapshot_MarshalVT (Snapshot_of n)) < 2 ^ 63 \<Longrightarrow>
    crash_disk n (Content (Snapshot_MarshalVT (Snapshot_of n))) (n_walFile n)"

lemma crash_holds:
  assumes "crash_disk n sf lf" "durable_inv n"
  shows "\<exists>es rs b. disk_holds sf (Content (log_bytes rs)) es rs \<and> torn b \<and> lf = Content (log_bytes rs @ b) \<and>
    (\<forall>t \<ge> n_clock n. same_reads t (raw_content (n_store n)) (disk_content es rs))"
proof -
  from assms(2) obtain es rs where s: "store_inv (n_store n)" and range: "in_range (raw_content (n_store n))"
    and d: "disk_holds (n_snapFile n) (n_walFile n) es rs"
    and same: "\<forall>t \<ge> n_clock n. same_reads t (raw_content (n_store n)) (disk_content es rs)"
    by (auto simp: durable_inv_def)
  from d have f: "n_walFile n = Content (log_bytes rs)" by (simp add: disk_holds_def)
  from assms(1) show ?thesis
  proof cases
    case crash_idle
    with d same f show ?thesis by (intro exI [of _ es] exI [of _ rs] exI [of _ "[]"]) (simp add: torn_def)
  next
    case (crash_append r k)
    then have "torn (take k (frame r))" unfolding torn_def by blast
    with d same f crash_append show ?thesis
      by (intro exI [of _ es] exI [of _ rs] exI [of _ "take k (frame r)"]) (simp add: file_bytes_def)
  next
    case crash_checkpoint
    have "disk_holds sf (Content (log_bytes rs)) (snapshot_records n) rs"
      using d snapshot_fits [OF s range] crash_checkpoint by (simp add: disk_holds_def snap_holds_def snapshot_of_records)
    moreover have "same_reads t (raw_content (n_store n)) (disk_content (snapshot_records n) rs)" if t: "n_clock n \<le> t" for t
    proof -
      have c: "disk_content es rs = plain_log rs (disk_content es [])" for es by (simp add: disk_content_def)
      have "same_reads t (disk_content (snapshot_records n) []) (raw_content (n_store n))"
        using t by (simp add: snapshot_content [OF s] same_reads_def live_mono)
      then have "same_reads t (disk_content (snapshot_records n) []) (plain_log rs (disk_content es []))"
        using same t c [of es] by (auto intro: same_reads_trans)
      then have "same_reads t (disk_content (snapshot_records n) rs) (disk_content es rs)"
        unfolding c [of "snapshot_records n"] c [of es] by (rule same_reads_absorb)
      with same t show ?thesis by (blast intro: same_reads_trans same_reads_sym)
    qed
    ultimately show ?thesis
      using f crash_checkpoint by (intro exI [of _ "snapshot_records n"] exI [of _ rs] exI [of _ "[]"]) (simp add: torn_def)
  qed
qed

abbreviation restart ::
  "Config \<Rightarrow> int \<Rightarrow> os_file \<Rightarrow> os_file \<Rightarrow> (bytes, processor) gomap \<Rightarrow> (bytes, aggregator) gomap \<Rightarrow> 'x Node" where
  "restart cfg t sf lf procs aggs \<equiv> snd (node_New cfg t [] sf lf procs aggs None)"

lemma in_range_disk:
  assumes "disk_holds sf lf es rs"
  shows "in_range (disk_content es rs)"
proof -
  have "list_all record_sound (map (Pair walOpPut) es)"
    using assms by (auto simp: disk_holds_def snap_holds_def Snapshot_ok_def snapshot_of_entries_def list_all_iff
        SnapshotEntry_ok_def record_sound_def)
  moreover have "list_all record_sound rs"
    using assms by (auto simp: disk_holds_def list_all_iff record_ok_def record_sound_def)
  ultimately show ?thesis unfolding disk_content_def by (intro in_range_log) (auto simp: in_range_def)
qed

lemma restart_reads_disk:
  fixes cfg procs aggs
  assumes d: "disk_holds sf (Content (log_bytes rs)) es rs" and b: "torn b" and dir: "c_DataDir cfg \<noteq> []"
    and valid: "list_all (still_valid t) (disk_puts sf (Content (log_bytes rs @ b)))"
  defines "n \<equiv> restart cfg t sf (Content (log_bytes rs @ b)) procs aggs :: 'x Node"
  shows "raw_content (n_store n) = disk_content es rs" "durable_inv n" "n_clock n = t"
proof -
  let ?n0 = "init_node cfg t [] sf (Content (log_bytes rs @ b)) procs aggs :: 'x Node"
  let ?n1 = "snd (loadSnapshot ?n0)"
  from d have ok: "list_all record_ok rs" and sf: "snap_holds sf es" by (simp_all add: disk_holds_def)
  have v: "\<forall>e \<in> set es. still_valid t e" "\<forall>r \<in> set rs. fst r = walOpPut \<longrightarrow> still_valid t (snd r)"
    using valid unfolding disk_puts_holds [OF d b] by (auto simp: list_all_iff)
  have n1: "raw_content (n_store ?n1) = plain_log (map (Pair walOpPut) es) (\<lambda>_ _. None) \<and> store_inv (n_store ?n1) \<and>
      ?n1 = ?n0\<lparr>n_store := n_store ?n1\<rparr>"
  proof (cases "sf = Missing")
    case True
    with sf have "es = []" by (simp add: snap_holds_def)
    with True show ?thesis
      by (simp add: loadSnapshot_def init_node_def Let_def raw_newStore store_inv_def newStore_inv)
  next
    case False
    with sf have "sf = Content (Snapshot_MarshalVT (snapshot_of_entries es))" "Snapshot_ok (snapshot_of_entries es)"
      by (simp_all add: snap_holds_def)
    then have "?n1 = Restore (snapshot_of_entries es) ?n0"
      by (simp add: loadSnapshot_def init_node_def Let_def sn_m.roundtrip)
    moreover have "n_store ?n0 = newStore" "n_clock ?n0 = t" by (simp_all add: init_node_def Let_def)
    ultimately show ?thesis using restore_plain [of es ?n0] v(1) by (simp add: Restore_def Let_def)
  qed
  have sel: "n_clock ?n1 = t" "n_walFile ?n1 = Content (log_bytes rs @ b)" "n_io ?n1 = []" "n_snapFile ?n1 = sf"
    by (subst n1 [THEN conjunct2, THEN conjunct2], simp add: init_node_def Let_def)+
  have "n_durable ?n0" using dir by (simp add: init_node_def Let_def)
  then have n: "n = (snd (OpenWAL ?n1))\<lparr>n_lastSave := n_clock (snd (OpenWAL ?n1))\<rparr>"
    by (simp add: n_def node_New_def open_data_def Let_def)
  have o: "snd (OpenWAL ?n1) = ?n1\<lparr>n_store := apply_log (replay_callbacks t) rs (n_store ?n1), n_walFile := Content (log_bytes rs),
      n_wal := Some \<lparr>wal_off = Some (length (log_bytes rs))\<rparr>\<rparr>"
    by (simp add: OpenWAL_def sel replay_disk [OF ok b] truncateTail_valid openWAL_def)
  have a: "raw_content (n_store n) = disk_content es rs" "store_inv (n_store n)"
    using apply_log_plain [OF v(2), of "n_store ?n1"] n1 by (simp_all add: n o disk_content_def)
  then show "raw_content (n_store n) = disk_content es rs" by simp
  show c: "n_clock n = t" by (simp add: n o sel)
  show "durable_inv n"
    unfolding durable_inv_def a(1) using a(2) d in_range_disk [OF d]
    by (auto simp: n o sel at_end_def intro!: exI [of _ es] exI [of _ rs])
qed

definition small_files :: "'x Node \<Rightarrow> bool" where
  "small_files n \<longleftrightarrow> length (file_bytes (n_walFile n)) \<le> maxWALRecord \<and> length (file_bytes (n_snapFile n)) < 2 ^ 63"

text \<open>
  A node that started in an empty data directory, after any number of operations and crashes. The log
  stays below the 128 MiB that replay accepts for one record, so that every record can be read back.
\<close>

inductive durable_reach :: "'x Node \<Rightarrow> bool" where
  dur_start: "c_DataDir cfg \<noteq> [] \<Longrightarrow> durable_reach (restart cfg now Missing (Content []) procs aggs)"
| dur_step: "durable_reach n \<Longrightarrow> durable_step n n' \<Longrightarrow> small_files n' \<Longrightarrow> durable_reach n'"
| dur_restart: "durable_reach n \<Longrightarrow> crash_disk n sf lf \<Longrightarrow> n_clock n \<le> t \<Longrightarrow>
    list_all (still_valid t) (disk_puts sf lf) \<Longrightarrow> c_DataDir cfg \<noteq> [] \<Longrightarrow> durable_reach (restart cfg t sf lf procs aggs)"

lemma durable_step_inv:
  assumes "durable_step n n'" "durable_inv n" "small_files n'"
  shows "durable_inv n'"
  using assms
proof cases
  case (dur_checkpoint)
  have "n_io n = []" using assms(2) by (simp add: durable_inv_def)
  moreover obtain w where "n_wal n = Some w" "wal_off w \<noteq> None" using assms(2) by (auto simp: durable_inv_def at_end_def)
  ultimately have "n_snapFile n' = Content (Snapshot_MarshalVT (Snapshot_of n))"
    by (auto simp: dur_checkpoint saveSnapshot_def Checkpoint_def writeSnapshotFile_def truncateLocked_def split: prod.split)
  with assms(3) show ?thesis
    unfolding dur_checkpoint by (intro durable_checkpoint [OF assms(2)]) (simp add: small_files_def file_bytes_def)
next
  case (dur_clock t)
  with assms(2) show ?thesis unfolding durable_inv_def by clarsimp (meson order_trans)
qed (use assms in \<open>auto simp: small_files_def local_put_def local_remove_def local_clear_def local_execute_logged queue_logged
    drop_logged prune_logged Let_def put_op.durable remove_op.durable clear_op.durable queue_op.durable drop_op.durable
    prune_op.durable logged_op.durable [OF execute_op] clear_op.durable [simplified] durable_sweep\<close>)

lemma durable_reach_inv: "durable_reach n \<Longrightarrow> durable_inv n"
proof (induction rule: durable_reach.induct)
  case (dur_start cfg now procs aggs)
  have "disk_holds Missing (Content (log_bytes [])) [] []" by (simp add: disk_holds_def snap_holds_def)
  moreover have "disk_puts Missing (Content (log_bytes [])) = []"
    using disk_puts_holds [OF calculation, of "[]"] by (simp add: torn_def)
  ultimately show ?case using restart_reads_disk(2) [of Missing "[]" "[]" "[]" cfg] dur_start by (simp add: torn_def)
next
  case (dur_step n n')
  then show ?case by (blast intro: durable_step_inv)
next
  case (dur_restart n sf lf t cfg procs aggs)
  from crash_holds [OF dur_restart(2,6)] obtain es rs b where
    "disk_holds sf (Content (log_bytes rs)) es rs" "torn b" "lf = Content (log_bytes rs @ b)" by blast
  with dur_restart show ?case using restart_reads_disk(2) by blast
qed


text \<open>A node that has written one entry crashes while it writes another record.\<close>

definition demo_config :: Config where
  "demo_config = \<lparr>c_ID = [110], c_Addr = [97], c_Backups = 1, c_MaxEntries = 0, c_DataDir = [100]\<rparr>"

definition demo_started :: "unit Node" where
  "demo_started = restart demo_config 1 Missing (Content []) [] []"

definition demo_node :: "unit Node" where
  "demo_node = snd (local_put [1] [2] [3] 0 demo_started)"

lemma demo_started_reach: "durable_reach demo_started"
  unfolding demo_started_def by (rule dur_start) (simp add: demo_config_def)

lemma demo_started_state:
  "n_io demo_started = []" "n_store demo_started = newStore" "n_clock demo_started = 1" "n_snapFile demo_started = Missing"
  "n_walFile demo_started = Content []" "n_wal demo_started = Some \<lparr>wal_off = Some 0\<rparr>"
  "n_durable demo_started" "n_mem demo_started = mem_New \<lparr>m_ID = [110], m_Addr = [97]\<rparr> 1"
  by (simp_all add: demo_started_def demo_config_def node_New_def open_data_def init_node_def Let_def loadSnapshot_def
      OpenWAL_def replayWAL_def truncateTail_def openWAL_def)

lemma demo_node_state:
  "n_store demo_node = snd (store_put 1 (routedPartition [1] [2]) [1] [2] [3] 0 newStore)"
  "n_walFile demo_node = Content (log_bytes [(walOpPut, put_record [1] [2] [3] 0)])" "n_snapFile demo_node = Missing" "n_clock demo_node = 1"
  "n_durable demo_node" "n_mem demo_node = mem_New \<lparr>m_ID = [110], m_Addr = [97]\<rparr> 1"
proof -
  have "at_end (\<lparr>wal_off = Some 0\<rparr>, [])" by (simp add: at_end_def)
  from put_op.logged_state [OF demo_started_state(1,6,5) this, of 1 "[1]" "[2]" "[3]" 0]
  obtain w' where eq: "demo_node = demo_started\<lparr>n_store := snd (store_put 1 (routedPartition [1] [2]) [1] [2] [3] 0 newStore), n_wal := Some w',
      n_walFile := Content (log_bytes [(walOpPut, put_record [1] [2] [3] 0)])\<rparr>"
    unfolding demo_node_def local_put_def
    by (auto simp: Let_def demo_started_state expireFromTTL_def)
  show "n_store demo_node = snd (store_put 1 (routedPartition [1] [2]) [1] [2] [3] 0 newStore)"
    "n_walFile demo_node = Content (log_bytes [(walOpPut, put_record [1] [2] [3] 0)])" "n_snapFile demo_node = Missing" "n_clock demo_node = 1"
    "n_durable demo_node" "n_mem demo_node = mem_New \<lparr>m_ID = [110], m_Addr = [97]\<rparr> 1"
    by (subst eq, simp add: demo_started_state)+
qed

lemma demo_node_reach: "durable_reach demo_node"
proof (rule dur_step [OF demo_started_reach])
  show "durable_step demo_started demo_node" unfolding demo_node_def by (rule dur_put)
  show "small_files demo_node"
    by (simp add: small_files_def demo_node_state file_bytes_def length_frame maxWALRecord_def)
qed

lemma demo_disk:
  "disk_holds Missing (Content (log_bytes [(walOpPut, put_record [1] [2] [3] 0)])) [] [(walOpPut, put_record [1] [2] [3] 0)]"
  by (simp add: disk_holds_def snap_holds_def)


section \<open>Expired writes and recovery\<close>

lemma restart_log:
  assumes "c_DataDir cfg \<noteq> []" "list_all record_ok rs"
  shows "n_store (restart cfg t Missing (Content (log_bytes rs)) procs aggs :: 'x Node) = apply_log (replay_callbacks t) rs newStore"
proof -
  have "replayWAL cb (Content (log_bytes rs)) s = Inr (length (log_bytes rs), apply_log cb rs s)" for cb :: "store callbacks" and s
    using replay_disk [OF assms(2), of "[]"] by (simp add: torn_def)
  moreover have "truncateTail (length (log_bytes rs)) (Content (log_bytes rs)) = Inr (Content (log_bytes rs))"
    by (simp add: truncateTail_def)
  ultimately show ?thesis
    using assms(1) by (simp add: node_New_def open_data_def init_node_def Let_def loadSnapshot_def OpenWAL_def openWAL_def)
qed

text \<open>
  C34: Recovery can bring an overwritten value back. A node stores \<open>v1\<close> under a key for ever and then
  overwrites it with \<open>v2\<close> and a time to live. Once that has run out, the node reports the key absent.
  If it restarts then, replay applies the put of \<open>v1\<close> and skips the expired put of \<open>v2\<close> that replaced
  it, so the key is there again, with the old value and without expiry.
\<close>

theorem replay_resurrects:
  fixes n :: "'x Node"
  assumes "c_DataDir cfg \<noteq> []" "\<not> IsReservedMap nm" "expireFromTTL now ttl \<noteq> 0" "expireFromTTL now ttl < t"
    "n = snd (local_put nm k v2 ttl (snd (local_put nm k v1 0 (snd (node_New cfg now [] Missing (Content []) procs aggs None)))))"
    "small_files n"
  shows "store_lookup t (n_store n) (routedPartition nm k) nm k = None \<and>
    store_lookup t (n_store (snd (node_New cfg t [] (n_snapFile n) (n_walFile n) procs aggs None) :: 'x Node))
      (routedPartition nm k) nm k = Some (v1, 0)"
proof -
  let ?n0 = "restart cfg now Missing (Content []) procs aggs :: 'x Node"
  let ?e = "expireFromTTL now ttl" and ?p = "routedPartition nm k"
  let ?r1 = "(walOpPut, put_record nm k v1 0)" and ?r2 = "(walOpPut, put_record nm k v2 (expireFromTTL now ttl))"
  have n0: "n_io ?n0 = []" "n_store ?n0 = newStore" "n_clock ?n0 = now" "n_snapFile ?n0 = Missing" "n_walFile ?n0 = Content []"
    "n_wal ?n0 = Some \<lparr>wal_off = Some 0\<rparr>"
    using assms(1) by (simp_all add: node_New_def open_data_def init_node_def Let_def loadSnapshot_def
        OpenWAL_def replayWAL_def truncateTail_def openWAL_def)
  let ?s1 = "snd (store_put now ?p nm k v1 0 newStore)"
  have "at_end (\<lparr>wal_off = Some 0\<rparr>, [])" by (simp add: at_end_def)
  from put_op.logged_state [OF n0(1,6,5) this, of now nm k v1 0]
  obtain w1 where n1: "snd (local_put nm k v1 0 ?n0) = ?n0\<lparr>n_store := ?s1, n_wal := Some w1, n_walFile := Content (frame ?r1)\<rparr>"
    and e1: "at_end (w1, frame ?r1)"
    by (auto simp: local_put_def Let_def n0 expireFromTTL_def)
  let ?n1 = "?n0\<lparr>n_store := ?s1, n_wal := Some w1, n_walFile := Content (frame ?r1)\<rparr>"
  have "n = snd (local_put nm k v2 ttl ?n1)" by (simp only: assms(5) n1)
  with put_op.logged_state [of ?n1 w1 "frame ?r1" now nm k v2 ttl] e1
  obtain w2 where n2: "n = ?n1\<lparr>n_store := snd (store_put now ?p nm k v2 ?e ?s1), n_wal := Some w2,
      n_walFile := Content (frame ?r1 @ frame ?r2)\<rparr>"
    by (auto simp: local_put_def Let_def n0)
  have sound: "list_all record_sound [?r1, ?r2]" by (simp add: record_sound_def int64_range_expireFromTTL)
  have "length (log_bytes [?r1, ?r2]) \<le> maxWALRecord" using assms(6) by (simp add: small_files_def n2 file_bytes_def)
  with sound have ok: "list_all record_ok [?r1, ?r2]" by (rule records_fit)
  have "store_lookup t (n_store n) ?p nm k = None"
    using assms(3,4) by (simp add: n2 store_lookup_live store_put_lookup live_def expired_def)
  moreover have "n_store (restart cfg t (n_snapFile n) (n_walFile n) procs aggs :: 'x Node) = snd (store_put t ?p nm k v1 0 newStore)"
    using restart_log [OF assms(1) ok, of t procs aggs] assms(2-4)
    by (simp add: n2 n0 apply_record_def replay_callbacks_def IsReservedMap_def)
  ultimately show ?thesis by (simp add: store_lookup_live store_put_lookup live_def expired_def)
qed

theorem replay_resurrects_witness:
  "store_lookup 9000000 (n_store (snd (node_New demo_config 9000000 []
       (n_snapFile (snd (local_put [1] [2] [4] 5 demo_node))) (n_walFile (snd (local_put [1] [2] [4] 5 demo_node))) [] [] None) :: unit Node))
     (routedPartition [1] [2]) [1] [2] = Some ([3], 0)"
proof -
  let ?n = "snd (local_put [1] [2] [4] 5 demo_node)"
  have e: "expireFromTTL 1 5 = 5000001" by code_simp
  have "SnapshotEntry_SizeVT (put_record [1] [2] [4] 5000001) = 14" by code_simp
  moreover have "snd (local_put [1] [2] [4] 5 demo_node) = snd (local_put [1] [2] [4] 5
      (snd (local_put [1] [2] [3] 0 (snd (node_New demo_config 1 [] Missing (Content []) [] [] None)))))"
    by (simp add: demo_node_def demo_started_def)
  moreover obtain w where "n_wal demo_node = Some w" "at_end (w, log_bytes [(walOpPut, put_record [1] [2] [3] 0)])" "n_io demo_node = []"
    using durable_reach_inv [OF demo_node_reach] by (auto simp: durable_inv_def disk_holds_def demo_node_state)
  ultimately have "small_files ?n"
    using put_op.logged_state [of demo_node w _ 1 "[1]" "[2]" "[4]" 5]
    by (auto simp: small_files_def local_put_def Let_def demo_node_state e file_bytes_def length_frame maxWALRecord_def)
  then show ?thesis
    using replay_resurrects [of demo_config "[1]" 1 5 9000000 ?n "[2]" "[4]" "[3]" "[]" "[]"]
    by (simp add: e demo_config_def IsReservedMap_def queueMap_def queueSegMap_def str_def demo_node_def demo_started_def)
qed

end
