(* ===== verification/Shutdown.thy ===== *)
theory Shutdown
  imports Durability
begin

text \<open>
  What a shutdown leaves in the data directory of a durable node: \<open>Close\<close> keeps every entry, \<open>Leave\<close> of
  the last member deletes them all.
\<close>

section \<open>Leaving as the last member\<close>

text \<open>A node with its log open at the end and no file operation about to fail.\<close>

definition log_open :: "'x Node \<Rightarrow> bool" where
  "log_open n \<longleftrightarrow> n_io n = [] \<and> n_durable n \<and> store_inv (n_store n) \<and>
     (\<exists>w b. n_wal n = Some w \<and> n_walFile n = Content b \<and> at_end (w, b))"

lemma drop_state:
  assumes "log_open n"
  shows "log_open (dropMigratedLogged p es n)" "n_store (dropMigratedLogged p es n) = snd (dropMigrated p es (n_store n))"
    "n_mem (dropMigratedLogged p es n) = n_mem n" "n_clock (dropMigratedLogged p es n) = n_clock n"
proof -
  from assms obtain w b where st: "n_io n = []" "n_wal n = Some w" "n_walFile n = Content b" "at_end (w, b)"
    by (auto simp: log_open_def)
  obtain w' b' where eq: "dropMigratedLogged p es n = n\<lparr>n_store := snd (dropMigrated p es (n_store n)), n_wal := Some w', n_walFile := Content b'\<rparr>"
    and e: "at_end (w', b')"
    unfolding drop_logged using drop_op.logged_state [OF st, of p es] by blast
  have "store_inv (snd (dropMigrated p es (n_store n)))" using assms store_step_inv [OF step_migrate] by (simp add: log_open_def)
  with assms e show "log_open (dropMigratedLogged p es n)" unfolding eq by (simp add: log_open_def)
  show "n_store (dropMigratedLogged p es n) = snd (dropMigrated p es (n_store n))"
    "n_mem (dropMigratedLogged p es n) = n_mem n" "n_clock (dropMigratedLogged p es n) = n_clock n"
    unfolding eq by simp_all
qed

text \<open>With nobody to migrate to, the migration of a partition drops what is alive in it.\<close>

definition emptied :: "nat \<Rightarrow> 'x Node \<Rightarrow> bool" where
  "emptied p n \<longleftrightarrow> (\<forall>nm k. live (n_clock n) (shard_lookup (n_store n p) nm k) = None)"

lemma no_targets:
  assumes "p < Count" "self \<noteq> []"
  shows "migrate_targets self (NewTable [] bc) p = (False, [])"
proof -
  have "OwnerOf (NewTable [] bc) p = []" "NumBackups (NewTable [] bc) p = 0"
    using assms OwnerOf_ranking [of "[]" p bc] NumBackups_eq [of "[]" p bc] by simp_all
  with assms(2) show ?thesis by (simp add: migrate_targets_def Let_def)
qed

lemma migrate_alone:
  fixes w :: "'x world"
  assumes "log_open (w_node w a)" "self_id w a \<noteq> []" "p < Count"
    "migrate_partition send a (NewTable [] bc) p w = w'"
  shows "log_open (w_node w' a) \<and> view w' a = view w a \<and> clock w' a = clock w a \<and> emptied p (w_node w' a) \<and>
    (\<forall>q. emptied q (w_node w a) \<longrightarrow> emptied q (w_node w' a))"
proof -
  let ?es = "orderQueueMetaLast (snapshotPartition (clock w a) (n_store (w_node w a)) p)"
  have wf: "wf_store (n_store (w_node w a))" using assms(1) by (simp add: log_open_def store_inv_def)
  have mem: "e \<in> set ?es \<longleftrightarrow> live (clock w a) (shard_lookup (n_store (w_node w a) p) (e_mapName e) (e_key e)) =
      Some \<lparr>v_data = e_value e, v_expireAt = e_expireAt e\<rparr>" for e
    using snapshotPartition_mem [of "n_store (w_node w a)" p e "clock w a"] wf
    by (auto simp: orderQueueMetaLast_filter wf_store_def)
  have w': "w' = (if ?es = [] then w else set_node a (dropMigratedLogged p ?es (w_node w a)) w)"
    using assms(2,3) by (simp add: assms(4) [symmetric] migrate_partition_def no_targets Let_def)
  note st = drop_state [OF assms(1), of p ?es]
  have gone: "live (clock w a) (shard_lookup (snd (dropMigrated p ?es (n_store (w_node w a))) p) nm k) = None" for nm k
  proof (cases "live (clock w a) (shard_lookup (n_store (w_node w a) p) nm k)")
    case None
    then show ?thesis by (auto simp: dropMigrated_lookup [OF wf] live_def)
  next
    case (Some v)
    then have "entry_of nm k v \<in> set ?es" by (simp add: mem)
    moreover have "same_value (entry_of nm k v) (shard_lookup (n_store (w_node w a) p) nm k)"
      using live_Some [OF Some] by (simp add: same_value_def)
    ultimately have "\<exists>e \<in> set ?es. e_mapName e = nm \<and> e_key e = k \<and> same_value e (shard_lookup (n_store (w_node w a) p) nm k)"
      by (intro bexI [of _ "entry_of nm k v"]) simp_all
    then show ?thesis by (simp add: dropMigrated_lookup [OF wf] live_def)
  qed
  have keep: "emptied q (dropMigratedLogged p ?es (w_node w a))" if "emptied q (w_node w a)" for q
    using that by (auto simp: emptied_def st dropMigrated_lookup [OF wf] live_def)
  show ?thesis
  proof (cases "?es = []")
    case True
    have "emptied p (w_node w a)"
      unfolding emptied_def
    proof (intro allI, rule ccontr)
      fix nm k
      assume "live (clock w a) (shard_lookup (n_store (w_node w a) p) nm k) \<noteq> None"
      then obtain v where "live (clock w a) (shard_lookup (n_store (w_node w a) p) nm k) = Some v" by blast
      then have "entry_of nm k v \<in> set ?es" by (simp add: mem)
      with True show False by simp
    qed
    with True assms(1) show ?thesis by (simp add: w')
  next
    case False
    with st gone keep show ?thesis by (simp add: w' emptied_def)
  qed
qed

lemma migrate_all_alone:
  fixes w :: "'x world"
  assumes "migrate_loop send a (NewTable [] bc) (\<lambda>_. False) ps w = (ok, w')" "log_open (w_node w a)" "self_id w a \<noteq> []"
    "set ps \<subseteq> {..<Count}"
  shows "log_open (w_node w' a) \<and> view w' a = view w a \<and> clock w' a = clock w a \<and> (\<forall>p \<in> set ps. emptied p (w_node w' a)) \<and>
    (\<forall>q. emptied q (w_node w a) \<longrightarrow> emptied q (w_node w' a))"
  using assms
proof (induction ps arbitrary: w)
  case (Cons p ps)
  let ?w = "migrate_partition send a (NewTable [] bc) p w"
  have 1: "log_open (w_node ?w a) \<and> view ?w a = view w a \<and> clock ?w a = clock w a \<and> emptied p (w_node ?w a) \<and>
      (\<forall>q. emptied q (w_node w a) \<longrightarrow> emptied q (w_node ?w a))"
    using Cons.prems by (intro migrate_alone [OF _ _ _ refl]) auto
  with Cons.IH [of ?w] Cons.prems show ?case by auto
qed simp

lemma empty_snapshot:
  assumes "store_inv (n_store n)" "\<forall>p < Count. emptied p n"
  shows "Snapshot_of n = snapshot_of_entries []"
proof -
  have "e \<notin> set (snapshotAll (n_clock n) (n_store n))" for e
    using assms For_less by (auto simp: snapshotAll_mem [OF assms(1)] emptied_def routedPartition_def)
  then have "snapshotAll (n_clock n) (n_store n) = []" by (metis list.set_intros(1) neq_Nil_conv)
  then show ?thesis by (simp add: Snapshot_of_def snapshot_of_entries_def)
qed

lemma close_files:
  assumes "log_open n"
  shows "n_snapFile (close_node n) = Content (Snapshot_MarshalVT (Snapshot_of n))" "n_walFile (close_node n) = Content []"
  using assms by (auto simp: log_open_def close_node_def CloseWAL_def saveSnapshot_def Checkpoint_def writeSnapshotFile_def
      truncateLocked_def next_io_def at_end_def Snapshot_of_def Let_def split: option.split)

text \<open>
  C33: When the only member of a cluster leaves, its data is gone for good. Whatever durable history the
  node has, \<open>Leave\<close> finds no holder for any partition in the table without itself, takes that for a
  completed hand-over and deletes every live entry, and the snapshot written on closing is empty: a node
  started from that data directory finds no key.
\<close>

theorem last_leave_wipes:
  fixes w :: "'x world" and send :: "'x send"
  assumes "durable_reach (w_node w a)" "n_durable (w_node w a)" "mem_members (view w a) = [(self_id w a, mem_self (view w a))]"
    "self_id w a \<noteq> []" "c_DataDir cfg \<noteq> []"
  defines "n' \<equiv> w_node (node_Leave send a (\<lambda>_. False) w) a"
  shows "store_lookup t (n_store (snd (node_New cfg t [] (n_snapFile n') (n_walFile n') procs aggs None) :: 'x Node)) p nm k = None"
proof -
  obtain ok w1 where m: "migrate_loop send a (TableWithout (self_id w a) (view w a)) (\<lambda>_. False) [0..<Count] w = (ok, w1)" by fastforce
  have t: "TableWithout (self_id w a) (view w a) = NewTable [] (mem_backups (view w a))" by (simp add: TableWithout_def assms(3))
  have "log_open (w_node w a)"
    using durable_reach_inv [OF assms(1)] assms(2) by (auto simp: durable_inv_def log_open_def disk_holds_def)
  from migrate_all_alone [OF m [unfolded t] this assms(4)] lessThan_atLeast0 [of Count]
  have w1: "log_open (w_node w1 a)" "view w1 a = view w a" "\<forall>p < Count. emptied p (w_node w1 a)"
    by auto
  have "Members (view w a) = [mem_self (view w a)]" by (simp add: Members_def assms(3) sort_by_def)
  then have "n' = close_node (w_node w1 a)"
    by (simp add: n'_def node_Leave_def Migrate_def m AnnounceLeave_def w1(2) node_Close_def on_node_def)
  moreover have "Snapshot_of (w_node w1 a) = snapshot_of_entries []"
    using w1 by (intro empty_snapshot) (auto simp: log_open_def)
  ultimately have f: "n_snapFile n' = Content (Snapshot_MarshalVT (snapshot_of_entries []))" "n_walFile n' = Content (log_bytes [] @ [])"
    using close_files [OF w1(1)] by simp_all
  have d: "disk_holds (n_snapFile n') (Content (log_bytes [])) [] []"
    by (simp add: f disk_holds_def snap_holds_def snapshot_of_entries_def Snapshot_ok_def Snapshot_SizeVT_def)
  have "disk_puts (n_snapFile n') (Content (log_bytes [] @ [])) = []"
    using disk_puts_holds [OF d, of "[]"] by (simp add: torn_def)
  then have n: "raw_content (n_store (restart cfg t (n_snapFile n') (n_walFile n') procs aggs :: 'x Node)) = (\<lambda>_ _. None)"
    "durable_inv (restart cfg t (n_snapFile n') (n_walFile n') procs aggs :: 'x Node)"
    using restart_reads_disk [OF d _ assms(5), of "[]" t procs aggs] unfolding f(2) by (simp_all add: torn_def disk_content_def)
  then have "shard_lookup (n_store (restart cfg t (n_snapFile n') (n_walFile n') procs aggs :: 'x Node) p) nm k = None"
    unfolding raw_content_def durable_inv_def store_inv_def placed_def fun_eq_iff by metis
  then show ?thesis by (simp add: store_lookup_live live_def)
qed

definition demo_alone :: "unit world" where
  "demo_alone = \<lparr>w_node = \<lambda>_. demo_node, w_up = \<lambda>_ _. True, w_ext = ()\<rparr>"

lemma demo_alone_sel: "w_node demo_alone a = demo_node" "n_durable demo_node" "mem_members (n_mem demo_node) = [([110], \<lparr>m_ID = [110], m_Addr = [97]\<rparr>)]"
  "mem_self (n_mem demo_node) = \<lparr>m_ID = [110], m_Addr = [97]\<rparr>"
  by (simp_all add: demo_alone_def demo_node_state mem_New_def)

theorem last_leave_wipes_witness:
  "store_lookup 5 (n_store demo_node) (routedPartition [1] [2]) [1] [2] = Some ([3], 0) \<and>
   store_lookup 5 (n_store (snd (node_New demo_config 5 []
       (n_snapFile (w_node (node_Leave net [97] (\<lambda>_. False) demo_alone) [97]))
       (n_walFile (w_node (node_Leave net [97] (\<lambda>_. False) demo_alone) [97])) [] [] None) :: unit Node))
     (routedPartition [1] [2]) [1] [2] = None"
proof
  show "store_lookup 5 (n_store demo_node) (routedPartition [1] [2]) [1] [2] = Some ([3], 0)"
    by (simp add: demo_node_state store_lookup_live store_put_lookup live_def expired_def)
  show "store_lookup 5 (n_store (snd (node_New demo_config 5 []
       (n_snapFile (w_node (node_Leave net [97] (\<lambda>_. False) demo_alone) [97]))
       (n_walFile (w_node (node_Leave net [97] (\<lambda>_. False) demo_alone) [97])) [] [] None) :: unit Node))
     (routedPartition [1] [2]) [1] [2] = None"
    by (rule last_leave_wipes) (simp_all add: demo_alone_sel demo_node_reach demo_config_def)
qed

section \<open>Closing\<close>

text \<open>
  \<open>Close\<close> keeps everything: a node started from the files that \<open>Close\<close> leaves reads for every key what
  the closed node had, for any durable history and on a cluster of any size.
\<close>

lemma close_keeps:
  fixes w :: "'x world"
  assumes "durable_reach (w_node w a)" "n_durable (w_node w a)" "length (Snapshot_MarshalVT (Snapshot_of (w_node w a))) < 2 ^ 63"
    "clock w a \<le> t" "c_DataDir cfg \<noteq> []"
  defines "n' \<equiv> w_node (node_Close a w) a"
  assumes "list_all (still_valid t) (disk_puts (n_snapFile n') (n_walFile n'))"
  shows "store_lookup t (n_store (snd (node_New cfg t [] (n_snapFile n') (n_walFile n') procs aggs None) :: 'x Node)) (routedPartition nm k) nm k =
    store_lookup t (n_store (w_node w a)) (routedPartition nm k) nm k"
proof -
  let ?n = "w_node w a"
  have inv: "durable_inv ?n" by (rule durable_reach_inv [OF assms(1)])
  then have s: "store_inv (n_store ?n)" and range: "in_range (raw_content (n_store ?n))" and lo: "log_open ?n"
    using assms(2) by (auto simp: durable_inv_def log_open_def disk_holds_def)
  have f: "n_snapFile n' = Content (Snapshot_MarshalVT (Snapshot_of ?n))" "n_walFile n' = Content (log_bytes [] @ [])"
    using close_files [OF lo] by (simp_all add: n'_def node_Close_def on_node_def)
  have d: "disk_holds (n_snapFile n') (Content (log_bytes [])) (snapshot_records ?n) []"
    using snapshot_fits [OF s range assms(3)] by (simp add: f disk_holds_def snap_holds_def snapshot_of_records)
  have "raw_content (n_store (restart cfg t (n_snapFile n') (n_walFile n') procs aggs :: 'x Node)) = disk_content (snapshot_records ?n) []"
    using restart_reads_disk(1) [OF d _ assms(5), of "[]" t procs aggs] assms(7) unfolding f(2) by (simp add: torn_def)
  then show ?thesis
    using assms(4) by (simp add: store_lookup_live snapshot_content [OF s] raw_content_def fun_eq_iff live_mono)
qed

end
