(* ===== verification/MapApi.thy ===== *)
theory MapApi
  imports Service
begin

text \<open>
  The client side of the maps and queues: \<open>imap/map.go\<close> and the \<open>Queue\<close> handle of \<open>imap/queue.go\<close>.

  An operation routes to the owner of the key's partition in the view of the node at \<open>a\<close>; when the
  owner cannot be reached it falls back to the backups in replica order (\<open>tryBackups\<close>, whose closure
  works on a state \<open>'s\<close>, the variables the Go closure captures). \<open>Size\<close>, \<open>Clear\<close> and \<open>Aggregate\<close> ask
  every member. The metrics counters are left out.
\<close>

section \<open>Routing\<close>

definition route :: "bytes \<Rightarrow> bytes \<Rightarrow> 'x world \<Rightarrow> nat \<times> bytes \<times> bool" where
  "route a key w =
     (let p = For key;
          ownerID = OwnerOf (mem_table (view w a)) p;
          ownerLocal = (ownerID = self_id w a);
          owner = (if ownerLocal then [] else case AddrOf ownerID (view w a) of None \<Rightarrow> [] | Some addr \<Rightarrow> addr)
      in (p, owner, ownerLocal))"

fun try_loop ::
  "bytes \<Rightarrow> Table \<Rightarrow> nat \<Rightarrow> (bool \<Rightarrow> bytes \<Rightarrow> 's \<times> 'x world \<Rightarrow> bool \<times> 's \<times> 'x world) \<Rightarrow> nat list \<Rightarrow> 's \<times> 'x world \<Rightarrow> 's \<times> 'x world" where
  "try_loop a tbl p fn [] sw = sw"
| "try_loop a tbl p fn (i # is) sw =
     (case BackupAt tbl p (int i) of (tid, ok) \<Rightarrow>
        if \<not> ok then try_loop a tbl p fn is sw
        else if tid = self_id (snd sw) a then
          (case fn True [] sw of (done_now, sw') \<Rightarrow> if done_now then sw' else try_loop a tbl p fn is sw')
        else case AddrOf tid (view (snd sw) a) of
               None \<Rightarrow> try_loop a tbl p fn is sw
             | Some addr \<Rightarrow>
                 (case fn False addr sw of (done_now, sw') \<Rightarrow> if done_now then sw' else try_loop a tbl p fn is sw'))"

definition tryBackups ::
  "bytes \<Rightarrow> nat \<Rightarrow> (bool \<Rightarrow> bytes \<Rightarrow> 's \<times> 'x world \<Rightarrow> bool \<times> 's \<times> 'x world) \<Rightarrow> 's \<Rightarrow> 'x world \<Rightarrow> 's \<times> 'x world" where
  "tryBackups a p fn s w =
     (let tbl = mem_table (view w a) in try_loop a tbl p fn [0..<NumBackups tbl p] (s, w))"

section \<open>Single-key operations\<close>

definition put_backup ::
  "'x send \<Rightarrow> bytes \<Rightarrow> bytes \<Rightarrow> bytes \<Rightarrow> bytes \<Rightarrow> int \<Rightarrow> bool \<Rightarrow> bytes \<Rightarrow> (bool \<times> error option) \<times> 'x world \<Rightarrow>
    bool \<times> (bool \<times> error option) \<times> 'x world" where
  "put_backup send a name key val ttlMs isLocal addr sw =
     (case sw of ((landed, err), w) \<Rightarrow>
        case (if isLocal then (case applyPut send a name key val ttlMs True w of ((_, e), w') \<Rightarrow> (e, w'))
              else sendPut send a addr name key val ttlMs True w) of
          (None, w') \<Rightarrow> (True, (True, err), w')
        | (Some e, w') \<Rightarrow> (False, (landed, Some e), w'))"

definition putWithTTL :: "'x send \<Rightarrow> bytes \<Rightarrow> bytes \<Rightarrow> bytes \<Rightarrow> bytes \<Rightarrow> int \<Rightarrow> 'x world \<Rightarrow> error option \<times> 'x world" where
  "putWithTTL send a name key val ttlMs w =
     (if IsReservedMap name then (Some ErrReservedMap, w)
      else case route a key w of (p, owner, ownerLocal) \<Rightarrow>
        if ownerLocal then (case applyPut send a name key val ttlMs False w of ((_, err), w') \<Rightarrow> (err, w'))
        else (case sendPut send a owner name key val ttlMs False w of
                (None, w') \<Rightarrow> (None, w')
              | (Some e, w') \<Rightarrow>
                  (case tryBackups a p (put_backup send a name key val ttlMs) (False, Some e) w' of
                     ((landed, err), w'') \<Rightarrow> (if landed then None else err, w''))))"

definition Map_Put :: "'x send \<Rightarrow> bytes \<Rightarrow> bytes \<Rightarrow> bytes \<Rightarrow> bytes \<Rightarrow> 'x world \<Rightarrow> error option \<times> 'x world" where
  "Map_Put send a name key val w = putWithTTL send a name key val 0 w"

text \<open>The duration is in nanoseconds; \<open>Milliseconds()\<close> truncates it.\<close>

definition Map_PutTTL :: "'x send \<Rightarrow> bytes \<Rightarrow> bytes \<Rightarrow> bytes \<Rightarrow> bytes \<Rightarrow> int \<Rightarrow> 'x world \<Rightarrow> error option \<times> 'x world" where
  "Map_PutTTL send a name key val ttl w = putWithTTL send a name key val (go_div ttl millisecond) w"

definition get_backup ::
  "'x send \<Rightarrow> bytes \<Rightarrow> nat \<Rightarrow> bytes \<Rightarrow> bytes \<Rightarrow> bool \<Rightarrow> bytes \<Rightarrow> (bytes \<times> bool \<times> error option) \<times> 'x world \<Rightarrow>
    bool \<times> (bytes \<times> bool \<times> error option) \<times> 'x world" where
  "get_backup send a p name key isLocal addr sw =
     (case sw of ((val, found, gerr), w) \<Rightarrow>
        if isLocal then
          (case store_get (clock w a) (n_store (w_node w a)) p name key of
             None \<Rightarrow> (False, ([], False, None), w) | Some v \<Rightarrow> (True, (v, True, None), w))
        else case sendGet send a addr name key w of
               (Inl e, w') \<Rightarrow> (False, (val, found, Some e), w')
             | (Inr (v, ok), w') \<Rightarrow> (ok, (v, ok, None), w'))"

definition Map_Get :: "'x send \<Rightarrow> bytes \<Rightarrow> bytes \<Rightarrow> bytes \<Rightarrow> 'x world \<Rightarrow> (bytes \<times> bool \<times> error option) \<times> 'x world" where
  "Map_Get send a name key w =
     (case route a key w of (p, owner, ownerLocal) \<Rightarrow>
        if ownerLocal then
          (case getThrough a name key w of ((v, ok, err), w') \<Rightarrow>
             if ok \<or> err \<noteq> None then ((v, ok, err), w')
             else tryBackups a p (get_backup send a p name key) ([], False, None) w')
        else case sendGet send a owner name key w of
               (Inr (v, True), w') \<Rightarrow> ((v, True, None), w')
             | (_, w') \<Rightarrow> tryBackups a p (get_backup send a p name key) ([], False, None) w')"

definition execute_backup ::
  "'x send \<Rightarrow> bytes \<Rightarrow> bytes \<Rightarrow> bytes \<Rightarrow> bytes \<Rightarrow> bytes \<Rightarrow> bool \<Rightarrow> bytes \<Rightarrow> (error + bytes) \<times> 'x world \<Rightarrow>
    bool \<times> (error + bytes) \<times> 'x world" where
  "execute_backup send a name key procName arg isLocal addr sw =
     (case (if isLocal then applyExecute send a name key procName arg (snd sw)
            else sendExecute send a addr name key procName arg (snd sw)) of
        (Inr out, w') \<Rightarrow> (True, Inr out, w') | (Inl e, w') \<Rightarrow> (False, Inl e, w'))"

definition Map_Execute ::
  "'x send \<Rightarrow> bytes \<Rightarrow> bytes \<Rightarrow> bytes \<Rightarrow> bytes \<Rightarrow> bytes \<Rightarrow> 'x world \<Rightarrow> (error + bytes) \<times> 'x world" where
  "Map_Execute send a name key procName arg w =
     (case route a key w of (p, owner, ownerLocal) \<Rightarrow>
        if ownerLocal then applyExecute send a name key procName arg w
        else case sendExecute send a owner name key procName arg w of
               (Inr out, w') \<Rightarrow> (Inr out, w')
             | (Inl e, w') \<Rightarrow> tryBackups a p (execute_backup send a name key procName arg) (Inl e) w')"

text \<open>\<open>len(out) == 1 && out[0] == 1\<close>, the answer of the yes-or-no processors.\<close>

definition yes :: "error + bytes \<Rightarrow> error + bool" where
  "yes r = (case r of Inl e \<Rightarrow> Inl e | Inr out \<Rightarrow> Inr (out = [1]))"

definition PutIfAbsent :: "'x send \<Rightarrow> bytes \<Rightarrow> bytes \<Rightarrow> bytes \<Rightarrow> bytes \<Rightarrow> 'x world \<Rightarrow> (error + bool) \<times> 'x world" where
  "PutIfAbsent send a name key val w =
     (case Map_Execute send a name key (str ''putifabsent'') val w of (r, w') \<Rightarrow> (yes r, w'))"

definition CompareAndSwap ::
  "'x send \<Rightarrow> bytes \<Rightarrow> bytes \<Rightarrow> bytes \<Rightarrow> bytes \<Rightarrow> bytes \<Rightarrow> 'x world \<Rightarrow> (error + bool) \<times> 'x world" where
  "CompareAndSwap send a name key expected newVal w =
     (case Map_Execute send a name key (str ''cas'') (encodeCAS expected newVal) w of (r, w') \<Rightarrow> (yes r, w'))"

definition Map_Lock :: "'x send \<Rightarrow> bytes \<Rightarrow> bytes \<Rightarrow> bytes \<Rightarrow> bytes \<Rightarrow> 'x world \<Rightarrow> (error + u64 \<times> bool) \<times> 'x world" where
  "Map_Lock send a name key holder w =
     (if length holder = 0 then (Inl ErrEmptyHolder, w)
      else case Map_Execute send a name key (str ''lockacquire'') holder w of
             (Inl e, w') \<Rightarrow> (Inl e, w')
           | (Inr out, w') \<Rightarrow> (Inr (if length out \<noteq> 8 then (0, False) else (Uint64 out, True)), w'))"

definition Map_Unlock :: "'x send \<Rightarrow> bytes \<Rightarrow> bytes \<Rightarrow> bytes \<Rightarrow> bytes \<Rightarrow> 'x world \<Rightarrow> (error + bool) \<times> 'x world" where
  "Map_Unlock send a name key holder w =
     (if length holder = 0 then (Inl ErrEmptyHolder, w)
      else case Map_Execute send a name key (str ''lockrelease'') holder w of (r, w') \<Rightarrow> (yes r, w'))"

definition remove_backup ::
  "'x send \<Rightarrow> bytes \<Rightarrow> bytes \<Rightarrow> bytes \<Rightarrow> bool \<Rightarrow> bytes \<Rightarrow> (error + bool) \<times> 'x world \<Rightarrow> bool \<times> (error + bool) \<times> 'x world" where
  "remove_backup send a name key isLocal addr sw =
     (case (if isLocal then
              (case applyRemove send a name key True (snd sw) of
                 ((ex, None), w') \<Rightarrow> (Inr ex, w') | ((ex, Some e), w') \<Rightarrow> (Inl e, w'))
            else sendRemove send a addr name key True (snd sw)) of
        (Inr ex, w') \<Rightarrow> (True, Inr ex, w') | (Inl e, w') \<Rightarrow> (False, Inl e, w'))"

definition Map_Remove :: "'x send \<Rightarrow> bytes \<Rightarrow> bytes \<Rightarrow> bytes \<Rightarrow> 'x world \<Rightarrow> (error + bool) \<times> 'x world" where
  "Map_Remove send a name key w =
     (if IsReservedMap name then (Inl ErrReservedMap, w)
      else case route a key w of (p, owner, ownerLocal) \<Rightarrow>
        if ownerLocal then
          (case applyRemove send a name key False w of
             ((existed, None), w') \<Rightarrow> (Inr existed, w') | ((existed, Some e), w') \<Rightarrow> (Inl e, w'))
        else case sendRemove send a owner name key False w of
               (Inr existed, w') \<Rightarrow> (Inr existed, w')
             | (Inl e, w') \<Rightarrow> tryBackups a p (remove_backup send a name key) (Inl e) w')"

definition Map_Evict :: "'x send \<Rightarrow> bytes \<Rightarrow> bytes \<Rightarrow> bytes \<Rightarrow> 'x world \<Rightarrow> (error + bool) \<times> 'x world" where
  "Map_Evict send a name key w =
     (if IsReservedMap name then (Inl ErrReservedMap, w)
      else case route a key w of (p, owner, ownerLocal) \<Rightarrow>
        if ownerLocal then
          (case applyEvict send a name key w of
             ((existed, None), w') \<Rightarrow> (Inr existed, w') | ((existed, Some e), w') \<Rightarrow> (Inl e, w'))
        else sendEvict send a owner name key w)"

section \<open>Whole-map operations\<close>

definition size_member ::
  "'x send \<Rightarrow> bytes \<Rightarrow> bytes \<Rightarrow> Member \<Rightarrow> (u64 \<times> error option) \<times> 'x world \<Rightarrow> (u64 \<times> error option) \<times> 'x world" where
  "size_member send a name m acc =
     (case acc of ((tot, firstErr), w) \<Rightarrow>
        if m_ID m = self_id w a then ((tot + of_nat (localMapSize a name w), firstErr), w)
        else case sendSize send a (m_Addr m) name w of
               (Inl e, w') \<Rightarrow> ((tot, if firstErr = None then Some e else firstErr), w')
             | (Inr c, w') \<Rightarrow> ((tot + c, firstErr), w'))"

definition Map_Size :: "'x send \<Rightarrow> bytes \<Rightarrow> bytes \<Rightarrow> 'x world \<Rightarrow> (u64 \<times> error option) \<times> 'x world" where
  "Map_Size send a name w = fold (size_member send a name) (Members (view w a)) ((0, None), w)"

definition clear_member ::
  "'x send \<Rightarrow> bytes \<Rightarrow> bytes \<Rightarrow> Member \<Rightarrow> error option \<times> 'x world \<Rightarrow> error option \<times> 'x world" where
  "clear_member send a name m acc =
     (case acc of (firstErr, w) \<Rightarrow>
        case (if m_ID m = self_id w a then (case localClearMap a name w of ((_, err), w') \<Rightarrow> (err, w'))
              else (case sendClear send a (m_Addr m) name w of (Inl e, w') \<Rightarrow> (Some e, w') | (Inr _, w') \<Rightarrow> (None, w'))) of
          (err, w') \<Rightarrow> (if err \<noteq> None \<and> firstErr = None then err else firstErr, w'))"

definition Map_Clear :: "'x send \<Rightarrow> bytes \<Rightarrow> bytes \<Rightarrow> 'x world \<Rightarrow> error option \<times> 'x world" where
  "Map_Clear send a name w =
     (if IsReservedMap name then (Some ErrReservedMap, w)
      else fold (clear_member send a name) (Members (view w a)) (None, w))"

fun aggregate_loop ::
  "'x send \<Rightarrow> bytes \<Rightarrow> bytes \<Rightarrow> bytes \<Rightarrow> Member list \<Rightarrow> bytes list \<Rightarrow> error option \<Rightarrow> 'x world \<Rightarrow>
    (error + bytes list \<times> error option) \<times> 'x world" where
  "aggregate_loop send a name aggName [] partials firstErr w = (Inr (partials, firstErr), w)"
| "aggregate_loop send a name aggName (m # ms) partials firstErr w =
     (if m_ID m = self_id w a then
        (case localAggregate a name aggName w of
           Inl e \<Rightarrow> (Inl e, w)
         | Inr part \<Rightarrow> aggregate_loop send a name aggName ms (partials @ [part]) firstErr w)
      else case sendAggregate send a (m_Addr m) name aggName w of
             (Inr part, w') \<Rightarrow> aggregate_loop send a name aggName ms (partials @ [part]) firstErr w'
           | (Inl e, w') \<Rightarrow>
               (case e of
                  ErrUnknownAggregator _ \<Rightarrow> (Inl e, w')
                | ErrUnknownAggregatorPeer _ \<Rightarrow> (Inl e, w')
                | _ \<Rightarrow> aggregate_loop send a name aggName ms partials (if firstErr = None then Some e else firstErr) w'))"

definition Map_Aggregate ::
  "'x send \<Rightarrow> bytes \<Rightarrow> bytes \<Rightarrow> bytes \<Rightarrow> 'x world \<Rightarrow> (error + bytes \<times> error option) \<times> 'x world" where
  "Map_Aggregate send a name aggName w =
     (case lookupAggregator (n_aggs (w_node w a)) aggName of
        None \<Rightarrow> (Inl (ErrUnknownAggregator aggName), w)
      | Some agg \<Rightarrow>
          (case aggregate_loop send a name aggName (Members (view w a)) [] None w of
             (Inl e, w') \<Rightarrow> (Inl e, w')
           | (Inr (partials, firstErr), w') \<Rightarrow> (Inr (agg_Combine agg partials, firstErr), w')))"

section \<open>Queues\<close>

definition Queue_Offer :: "'x send \<Rightarrow> bytes \<Rightarrow> bytes \<Rightarrow> bytes \<Rightarrow> 'x world \<Rightarrow> (error + int) \<times> 'x world" where
  "Queue_Offer send a qname val w =
     (case Map_Execute send a queueMap qname (str ''queueoffer'') val w of
        (Inl e, w') \<Rightarrow> (Inl e, w') | (Inr out, w') \<Rightarrow> (Inr (decodeI64 out), w'))"

definition Queue_Poll :: "'x send \<Rightarrow> bytes \<Rightarrow> bytes \<Rightarrow> 'x world \<Rightarrow> (error + bytes option) \<times> 'x world" where
  "Queue_Poll send a qname w =
     (case Map_Execute send a queueMap qname (str ''queuepoll'') [] w of
        (Inl e, w') \<Rightarrow> (Inl e, w') | (Inr out, w') \<Rightarrow> (Inr (decodeQueueItem out), w'))"

definition Queue_Peek :: "'x send \<Rightarrow> bytes \<Rightarrow> bytes \<Rightarrow> 'x world \<Rightarrow> (error + bytes option) \<times> 'x world" where
  "Queue_Peek send a qname w =
     (case Map_Execute send a queueMap qname (str ''queuepeek'') [] w of
        (Inl e, w') \<Rightarrow> (Inl e, w') | (Inr out, w') \<Rightarrow> (Inr (decodeQueueItem out), w'))"

definition Queue_Size :: "'x send \<Rightarrow> bytes \<Rightarrow> bytes \<Rightarrow> 'x world \<Rightarrow> (error + int) \<times> 'x world" where
  "Queue_Size send a qname w =
     (case Map_Execute send a queueMap qname (str ''queuesize'') [] w of
        (Inl e, w') \<Rightarrow> (Inl e, w') | (Inr out, w') \<Rightarrow> (Inr (decodeI64 out), w'))"

end
