(* ===== verification/Replication.thy ===== *)
theory Replication
  imports Medusa MapApi
begin

text \<open>
  What replication, migration and anti-entropy achieve over a network.

  The lemmas of the locale \<open>network\<close> hold for any transport that delivers a call or fails, also when
  requests and replies are lost; they give migration its safety. Those of \<open>reliable\<close> need links that
  work, and give replication and anti-entropy their effect. The properties state them for the networks
  of theory \<open>Network\<close>.
\<close>

section \<open>What a call on one node leaves alone\<close>

lemma append_record_sel [simp]:
  "n_store (snd (append_record r n)) = n_store n" "n_mem (snd (append_record r n)) = n_mem n"
  "n_clock (snd (append_record r n)) = n_clock n" "n_loaders (snd (append_record r n)) = n_loaders n"
  by (simp_all add: append_record_def split: option.split prod.split)

lemma append_all_sel [simp]:
  "n_store (snd (append_all rs n)) = n_store n" "n_mem (snd (append_all rs n)) = n_mem n"
  "n_clock (snd (append_all rs n)) = n_clock n" "n_loaders (snd (append_all rs n)) = n_loaders n"
proof (induction rs arbitrary: n)
  case (Cons r rs)
  {
    case 1
    show ?case using Cons.IH(1) append_record_sel(1) [of r n]
      by (cases "append_record r n") (auto split: option.split)
  next
    case 2
    show ?case using Cons.IH(2) append_record_sel(2) [of r n]
      by (cases "append_record r n") (auto split: option.split)
  next
    case 3
    show ?case using Cons.IH(3) append_record_sel(3) [of r n]
      by (cases "append_record r n") (auto split: option.split)
  next
    case 4
    show ?case using Cons.IH(4) append_record_sel(4) [of r n]
      by (cases "append_record r n") (auto split: option.split)
  }
qed simp_all

lemma logged_sel [simp]:
  "n_store (snd (logged mutate rec n)) = snd (mutate (n_store n))" "n_mem (snd (logged mutate rec n)) = n_mem n"
  "n_clock (snd (logged mutate rec n)) = n_clock n" "n_loaders (snd (logged mutate rec n)) = n_loaders n"
  "snd (fst (logged mutate rec n)) = fst (mutate (n_store n))"
  by (simp_all add: logged_def case_prod_beta)

lemma local_put_sel [simp]:
  "n_store (snd (local_put name key val ttlMs n)) =
    snd (store_put (n_clock n) (routedPartition name key) name key val (expireFromTTL (n_clock n) ttlMs) (n_store n))"
  "n_mem (snd (local_put name key val ttlMs n)) = n_mem n" "n_clock (snd (local_put name key val ttlMs n)) = n_clock n"
  "n_loaders (snd (local_put name key val ttlMs n)) = n_loaders n"
  by (simp_all add: local_put_def Let_def)

lemma answer_snd [simp]: "snd (answer res mk) = snd res"
  by (simp add: answer_def split: prod.split option.split)

lemma prune_sel [simp]:
  "n_store (snd (pruneToKeysetLogged p keep n)) = snd (pruneToKeyset p keep (n_store n))"
  "n_mem (snd (pruneToKeysetLogged p keep n)) = n_mem n" "n_clock (snd (pruneToKeysetLogged p keep n)) = n_clock n"
  "n_loaders (snd (pruneToKeysetLogged p keep n)) = n_loaders n"
  by (simp_all add: pruneToKeysetLogged_def case_prod_beta)

lemma drop_sel [simp]:
  "n_store (dropMigratedLogged p es n) = snd (dropMigrated p es (n_store n))"
  "n_mem (dropMigratedLogged p es n) = n_mem n" "n_clock (dropMigratedLogged p es n) = n_clock n"
  "n_loaders (dropMigratedLogged p es n) = n_loaders n"
  by (simp_all add: dropMigratedLogged_def case_prod_beta)

text \<open>The same membership view, clock and loaders at every node, and the same links.\<close>

definition same_frame :: "'x world \<Rightarrow> 'x world \<Rightarrow> bool" where
  "same_frame w w' \<longleftrightarrow> (\<forall>b. view w' b = view w b \<and> clock w' b = clock w b \<and> n_loaders (w_node w' b) = n_loaders (w_node w b)) \<and>
     w_up w' = w_up w"

lemma same_frame_refl [simp, intro]: "same_frame w w"
  by (simp add: same_frame_def)

lemma same_frame_trans: "same_frame w w' \<Longrightarrow> same_frame w' w'' \<Longrightarrow> same_frame w w''"
  by (simp add: same_frame_def)

lemma same_frameD: "same_frame w w' \<Longrightarrow> view w' b = view w b" "same_frame w w' \<Longrightarrow> clock w' b = clock w b"
  "same_frame w w' \<Longrightarrow> w_up w' = w_up w"
  by (simp_all add: same_frame_def)

section \<open>Pushing entries to a holder\<close>

text \<open>The value that a push of an entry with the given remaining time to live stores at an address.\<close>

definition pushed_value :: "'x world \<Rightarrow> bytes \<Rightarrow> bytes \<Rightarrow> int \<Rightarrow> value_t" where
  "pushed_value w addr val ttlMs = \<lparr>v_data = val, v_expireAt = expireFromTTL (clock w addr) ttlMs\<rparr>"

abbreviation held :: "'x world \<Rightarrow> bytes \<Rightarrow> bytes \<Rightarrow> bytes \<Rightarrow> value_t option" where
  "held w b nm k \<equiv> shard_lookup (n_store (w_node w b) (routedPartition nm k)) nm k"

text \<open>What a lookup returns after a push of one of the entries.\<close>

definition put_by :: "'x world \<Rightarrow> entry list \<Rightarrow> int \<Rightarrow> bytes \<Rightarrow> nat \<Rightarrow> bytes \<Rightarrow> bytes \<Rightarrow> value_t option \<Rightarrow> bool" where
  "put_by w es now b p nm k v \<longleftrightarrow> (\<exists>e \<in> set es. p = routedPartition nm k \<and> e_mapName e = nm \<and> e_key e = k \<and>
     v = Some (pushed_value w b (e_value e) (remainingTTLms (e_expireAt e) now)))"

text \<open>
  Between two worlds only backup puts of the given entries happened, none of them at \<open>a\<close>. The relation
  is transitive, so it describes any sequence of pushes.
\<close>

definition spread :: "bytes \<Rightarrow> entry list \<Rightarrow> int \<Rightarrow> 'x world \<Rightarrow> 'x world \<Rightarrow> bool" where
  "spread a es now w w' \<longleftrightarrow> same_frame w w' \<and> w_node w' a = w_node w a \<and>
     (\<forall>b. store_inv (n_store (w_node w b)) \<longrightarrow> store_inv (n_store (w_node w' b))) \<and>
     (\<forall>b p nm k. shard_lookup (n_store (w_node w' b) p) nm k = shard_lookup (n_store (w_node w b) p) nm k \<or>
       put_by w es now b p nm k (shard_lookup (n_store (w_node w' b) p) nm k))"

lemma spread_refl [simp, intro]: "spread a es now w w"
  by (simp add: spread_def)

lemma spreadD:
  assumes "spread a es now w w'"
  shows "same_frame w w'" "w_node w' a = w_node w a" "store_inv (n_store (w_node w b)) \<Longrightarrow> store_inv (n_store (w_node w' b))"
  using assms by (simp_all add: spread_def)

lemma spread_trans:
  assumes "spread a es now w w'" "spread a es now w' w''"
  shows "spread a es now w w''"
proof -
  from assms(1) have "put_by w' es now b p nm k = put_by w es now b p nm k" for b p nm k
    by (intro ext) (simp add: put_by_def pushed_value_def spread_def same_frame_def)
  with assms show ?thesis unfolding spread_def by (auto simp: same_frame_def) metis+
qed

lemma spread_lookup:
  assumes "spread a es now w w'" "\<forall>e \<in> set es. (e_mapName e, e_key e) \<noteq> (nm, k)"
  shows "shard_lookup (n_store (w_node w' b) p) nm k = shard_lookup (n_store (w_node w b) p) nm k"
proof -
  from assms(1) have "shard_lookup (n_store (w_node w' b) p) nm k = shard_lookup (n_store (w_node w b) p) nm k \<or>
      (\<exists>e \<in> set es. e_mapName e = nm \<and> e_key e = k)"
    unfolding spread_def put_by_def by blast
  with assms(2) show ?thesis by auto
qed

text \<open>An entry with less than a millisecond to live is not pushed.\<close>

definition lapsing :: "int \<Rightarrow> entry \<Rightarrow> bool" where
  "lapsing now e \<longleftrightarrow> e_expireAt e \<noteq> 0 \<and> remainingTTLms (e_expireAt e) now \<le> 0"

definition copied :: "int \<Rightarrow> 'x world \<Rightarrow> bytes \<Rightarrow> entry \<Rightarrow> bool" where
  "copied now w addr e \<longleftrightarrow> lapsing now e \<or>
     held w addr (e_mapName e) (e_key e) = Some (pushed_value w addr (e_value e) (remainingTTLms (e_expireAt e) now))"

abbreviation distinct_keys :: "entry list \<Rightarrow> bool" where
  "distinct_keys es \<equiv> distinct (map (\<lambda>e. (e_mapName e, e_key e)) es)"

lemma distinct_keysD:
  "distinct_keys es \<Longrightarrow> e \<in> set es \<Longrightarrow> e' \<in> set es \<Longrightarrow> e_mapName e = e_mapName e' \<Longrightarrow> e_key e = e_key e' \<Longrightarrow> e = e'"
  by (auto simp: distinct_map dest: inj_onD)

lemma copied_stable:
  assumes "spread a es now w w'" "distinct_keys es" "e \<in> set es" "copied now w addr e"
  shows "copied now w' addr e"
proof -
  have pv: "pushed_value w' addr = pushed_value w addr"
    using assms(1) by (simp add: pushed_value_def spread_def same_frame_def fun_eq_iff)
  from assms(1) have "held w' addr (e_mapName e) (e_key e) = held w addr (e_mapName e) (e_key e) \<or>
      (\<exists>e' \<in> set es. e_mapName e' = e_mapName e \<and> e_key e' = e_key e \<and> held w' addr (e_mapName e) (e_key e) =
        Some (pushed_value w addr (e_value e') (remainingTTLms (e_expireAt e') now)))"
    unfolding spread_def put_by_def by blast
  then show ?thesis
  proof (elim disjE bexE conjE)
    assume "held w' addr (e_mapName e) (e_key e) = held w addr (e_mapName e) (e_key e)"
    with assms(4) pv show ?thesis by (simp add: copied_def)
  next
    fix e'
    assume e': "e' \<in> set es" "e_mapName e' = e_mapName e" "e_key e' = e_key e"
      "held w' addr (e_mapName e) (e_key e) = Some (pushed_value w addr (e_value e') (remainingTTLms (e_expireAt e') now))"
    with distinct_keysD [OF assms(2) e'(1) assms(3) e'(2,3)] pv show ?thesis by (simp add: copied_def)
  qed
qed

text \<open>The member has an address, and the node there has a copy of every entry.\<close>

definition handed_to :: "entry list \<Rightarrow> int \<Rightarrow> Membership \<Rightarrow> 'x world \<Rightarrow> bytes \<Rightarrow> bool" where
  "handed_to es now m w tid \<longleftrightarrow> (\<exists>addr. AddrOf tid m = Some addr \<and> (\<forall>e \<in> set es. copied now w addr e))"

section \<open>Migration\<close>

text \<open>The members that a table names for a partition: its owner, if it has one, and its backups.\<close>

definition holders :: "Table \<Rightarrow> nat \<Rightarrow> bytes list" where
  "holders table p = filter (\<lambda>x. x \<noteq> []) [OwnerOf table p] @
     map fst (filter snd (map (\<lambda>i. BackupAt table p (int i)) [0..<NumBackups table p]))"

lemma migrate_targets_holders:
  assumes "migrate_targets self table p = (selfHolds, targets)"
  shows "set targets = set (holders table p) - {self}" "self \<in> set (holders table p) \<Longrightarrow> selfHolds"
proof -
  let ?step = "\<lambda>i (selfHolds, targets). case BackupAt table p (int i) of (b, ok) \<Rightarrow>
      if \<not> ok then (selfHolds, targets) else if b = self then (True, targets) else (selfHolds, targets @ [b])"
  let ?bs = "\<lambda>js. map fst (filter snd (map (\<lambda>i. BackupAt table p (int i)) js))"
  have fold: "fold ?step js (h, ts) = (h \<or> self \<in> set (?bs js), ts @ filter (\<lambda>b. b \<noteq> self) (?bs js))" for js h ts
    by (induction js arbitrary: h ts) (auto simp: case_prod_beta)
  have "migrate_targets self table p =
      (OwnerOf table p = self \<or> self \<in> set (?bs [0..<NumBackups table p]),
       (if OwnerOf table p \<noteq> [] \<and> OwnerOf table p \<noteq> self then [OwnerOf table p] else []) @
         filter (\<lambda>b. b \<noteq> self) (?bs [0..<NumBackups table p]))"
    by (simp only: migrate_targets_def Let_def fold)
  then show "set targets = set (holders table p) - {self}" "self \<in> set (holders table p) \<Longrightarrow> selfHolds"
    unfolding assms holders_def by (auto split: if_splits)
qed

text \<open>Nobody else is listed under the address of the node at \<open>a\<close>.\<close>

definition own_address :: "'x world \<Rightarrow> bytes \<Rightarrow> bool" where
  "own_address w a \<longleftrightarrow> (\<forall>tid. AddrOf tid (view w a) = Some a \<longrightarrow> tid = self_id w a)"

lemma own_address_frame: "same_frame w w' \<Longrightarrow> own_address w a \<Longrightarrow> own_address w' a"
  by (simp add: own_address_def same_frame_def)

text \<open>
  A live entry \<open>v\<close> of a key stayed at \<open>a\<close>, or it is gone there, \<open>a\<close> is none of the key's holders and
  each of them has a copy.
\<close>

definition kept_or_moved :: "bytes \<Rightarrow> Table \<Rightarrow> bytes \<Rightarrow> bytes \<Rightarrow> value_t \<Rightarrow> 'x world \<Rightarrow> 'x world \<Rightarrow> bool" where
  "kept_or_moved a table nm k v w w' \<longleftrightarrow> held w' a nm k = held w a nm k \<or>
     held w' a nm k = None \<and> self_id w a \<notin> set (holders table (routedPartition nm k)) \<and>
     (\<forall>tid \<in> set (holders table (routedPartition nm k)).
        \<exists>addr. AddrOf tid (view w a) = Some addr \<and> copied (clock w a) w' addr (entry_of nm k v))"

text \<open>What a migration or anti-entropy pass at \<open>a\<close> sends of a partition.\<close>

abbreviation to_transfer :: "'x world \<Rightarrow> bytes \<Rightarrow> nat \<Rightarrow> entry list" where
  "to_transfer w a p \<equiv> orderQueueMetaLast (snapshotPartition (clock w a) (n_store (w_node w a)) p)"

lemma transfer_entries:
  assumes "store_inv s"
  shows "distinct_keys (orderQueueMetaLast (snapshotPartition now s p))"
    "e \<in> set (orderQueueMetaLast (snapshotPartition now s p)) \<longleftrightarrow>
      live now (shard_lookup (s p) (e_mapName e) (e_key e)) = Some \<lparr>v_data = e_value e, v_expireAt = e_expireAt e\<rparr>"
    "e \<in> set (orderQueueMetaLast (snapshotPartition now s p)) \<Longrightarrow> routedPartition (e_mapName e) (e_key e) = p"
proof -
  from assms have wf: "wf_shard (s p)" by (simp add: store_inv_def)
  have m: "mset (orderQueueMetaLast es) = mset es" for es
    by (simp add: orderQueueMetaLast_filter)
  from snapshotPartition_distinct [of s p now, OF wf] show "distinct_keys (orderQueueMetaLast (snapshotPartition now s p))"
    by (rule mset_eq_imp_distinct_iff [THEN iffD2, rotated]) (simp add: m)
  have "set (orderQueueMetaLast (snapshotPartition now s p)) = set (snapshotPartition now s p)"
    by (rule mset_eq_setD [OF m])
  with snapshotPartition_mem [of s p e now, OF wf] show mem: "e \<in> set (orderQueueMetaLast (snapshotPartition now s p)) \<longleftrightarrow>
      live now (shard_lookup (s p) (e_mapName e) (e_key e)) = Some \<lparr>v_data = e_value e, v_expireAt = e_expireAt e\<rparr>" by simp
  assume "e \<in> set (orderQueueMetaLast (snapshotPartition now s p))"
  with mem assms show "routedPartition (e_mapName e) (e_key e) = p"
    by (auto simp: store_inv_def placed_def live_def split: option.splits if_splits)
qed

context network
begin

text \<open>One backup put: the node it goes to is the only one that changes, and only in that key.\<close>

lemma put_effect:
  fixes w :: "'x world"
  assumes "sendPut send a addr name key val ttlMs True w = (err, w')"
  shows "same_frame w w'" "\<And>b. b \<noteq> addr \<Longrightarrow> w_node w' b = w_node w b"
    "\<And>b p nm k. (b, p, nm, k) \<noteq> (addr, routedPartition name key, name, key) \<Longrightarrow>
      shard_lookup (n_store (w_node w' b) p) nm k = shard_lookup (n_store (w_node w b) p) nm k"
    "held w' addr name key = held w addr name key \<or> held w' addr name key = Some (pushed_value w addr val ttlMs)"
    "err = None \<Longrightarrow> held w' addr name key = Some (pushed_value w addr val ttlMs)"
    "w_ext w' = w_ext w" "\<And>b. n_loaders (w_node w' b) = n_loaders (w_node w b)"
    "store_inv (n_store (w_node w b)) \<Longrightarrow> store_inv (n_store (w_node w' b))"
proof -
  let ?req = "PutReq name key val True ttlMs"
  have l: "local_req ?req" by (simp add: local_req_def)
  obtain r where r: "send a addr ?req w = (r, w')" and e: "err = None \<Longrightarrow> \<exists>x. r = Inr x"
    using assms by (auto simp: sendPut_def split: prod.splits sum.splits)
  let ?n = "snd (local_put name key val ttlMs (w_node w addr))"
  have eff: "w' = w \<or> w' = set_node addr ?n w"
    using local_effect [OF l r] by (simp add: node_handle_def)
  then show "same_frame w w'" "w_ext w' = w_ext w" by (auto simp: same_frame_def)
  show "w_node w' b = w_node w b" if "b \<noteq> addr" for b using eff that by auto
  show "n_loaders (w_node w' b) = n_loaders (w_node w b)" for b using eff by auto
  show "shard_lookup (n_store (w_node w' b) p) nm k = shard_lookup (n_store (w_node w b) p) nm k"
    if "(b, p, nm, k) \<noteq> (addr, routedPartition name key, name, key)" for b p nm k
    using eff that by (auto simp: store_put_lookup)
  show "held w' addr name key = held w addr name key \<or> held w' addr name key = Some (pushed_value w addr val ttlMs)"
    using eff by (auto simp: store_put_lookup pushed_value_def)
  show "held w' addr name key = Some (pushed_value w addr val ttlMs)" if "err = None"
  proof -
    from e [OF that] r obtain x where "send a addr ?req w = (Inr x, w')" by blast
    from local_reply [OF l this] have "w_node w' addr = ?n" by (simp add: node_handle_def) (metis answer_snd snd_conv)
    then show ?thesis by (simp add: store_put_lookup pushed_value_def)
  qed
  show "store_inv (n_store (w_node w' b))" if "store_inv (n_store (w_node w b))"
    using eff that by (auto simp: store_inv_def wf_put placed_put)
qed

lemma put_spread:
  fixes w :: "'x world"
  assumes "sendPut send a addr (e_mapName e) (e_key e) (e_value e) (remainingTTLms (e_expireAt e) now) True w = (err, w')"
    "e \<in> set es" "addr \<noteq> a"
  shows "spread a es now w w'"
proof -
  note eff = put_effect [OF assms(1)]
  have "shard_lookup (n_store (w_node w' b) q) nm k = shard_lookup (n_store (w_node w b) q) nm k \<or>
      q = routedPartition nm k \<and> e_mapName e = nm \<and> e_key e = k \<and>
        shard_lookup (n_store (w_node w' b) q) nm k = Some (pushed_value w b (e_value e) (remainingTTLms (e_expireAt e) now))"
    for b q nm k
    using eff(3) [of b q nm k] eff(4)
    by (cases "(b, q, nm, k) = (addr, routedPartition (e_mapName e) (e_key e), e_mapName e, e_key e)") auto
  then show ?thesis
    unfolding spread_def put_by_def using eff(1) eff(2) [of a] eff(8) assms(2,3) by blast
qed

lemma push_entry_spread:
  fixes w :: "'x world"
  assumes "push_entry send a addr now e (ok, w) = (ok', w')" "e \<in> set es" "addr \<noteq> a"
  shows "spread a es now w w' \<and> (ok' \<longrightarrow> ok \<and> copied now w' addr e)"
proof (cases "lapsing now e")
  case True
  with assms(1) show ?thesis by (simp add: push_entry_def lapsing_def copied_def)
next
  case False
  let ?ttl = "remainingTTLms (e_expireAt e) now"
  obtain err where p: "sendPut send a addr (e_mapName e) (e_key e) (e_value e) ?ttl True w = (err, w')"
    and ok: "ok' \<longleftrightarrow> ok \<and> err = None"
    using assms(1) False by (auto simp: push_entry_def lapsing_def Let_def split: prod.splits option.splits)
  note s = put_spread [OF p assms(2,3)]
  then have "pushed_value w' addr = pushed_value w addr"
    by (simp add: pushed_value_def spread_def same_frame_def fun_eq_iff)
  with put_effect(5) [OF p] have "err = None \<Longrightarrow> copied now w' addr e" by (simp add: copied_def)
  with s ok show ?thesis by simp
qed

lemma push_entries_spread:
  fixes w :: "'x world"
  assumes "fold (push_entry send a addr now) xs (ok, w) = (ok', w')" "set xs \<subseteq> set es" "distinct_keys es" "addr \<noteq> a"
  shows "spread a es now w w' \<and> (ok' \<longrightarrow> ok \<and> (\<forall>e \<in> set xs. copied now w' addr e))"
  using assms(1,2)
proof (induction xs arbitrary: ok w)
  case (Cons e xs)
  obtain ok1 w1 where e: "push_entry send a addr now e (ok, w) = (ok1, w1)" by (metis prod.exhaust)
  from Cons.prems have "e \<in> set es" by simp
  note 1 = push_entry_spread [OF e this assms(4)]
  from Cons.prems e have "fold (push_entry send a addr now) xs (ok1, w1) = (ok', w')" "set xs \<subseteq> set es" by auto
  note 2 = Cons.IH [OF this]
  have "copied now w' addr e" if "copied now w1 addr e" by (rule copied_stable [OF 2 [THEN conjunct1] assms(3) \<open>e \<in> set es\<close> that])
  with 1 2 have "ok' \<longrightarrow> ok \<and> (\<forall>x \<in> set (e # xs). copied now w' addr x)" by simp
  with spread_trans [OF 1 [THEN conjunct1] 2 [THEN conjunct1]] show ?case by (rule conjI)
qed simp

lemma push_targets_spread:
  fixes w :: "'x world"
  assumes "fold (push_target send a es) tids (ok, w) = (ok', w')" "distinct_keys es"
    "\<And>tid addr. tid \<in> set tids \<Longrightarrow> AddrOf tid (view w a) = Some addr \<Longrightarrow> addr \<noteq> a"
  shows "spread a es (clock w a) w w' \<and> (ok' \<longrightarrow> ok \<and> (\<forall>tid \<in> set tids. handed_to es (clock w a) (view w a) w' tid))"
  using assms(1,3)
proof (induction tids arbitrary: ok w)
  case (Cons tid tids)
  obtain ok1 w1 where t: "push_target send a es tid (ok, w) = (ok1, w1)" by (metis prod.exhaust)
  have 1: "spread a es (clock w a) w w1 \<and> (ok1 \<longrightarrow> ok \<and> handed_to es (clock w a) (view w a) w1 tid)"
  proof (cases "AddrOf tid (view w a)")
    case None
    with t show ?thesis by (simp add: push_target_def)
  next
    case (Some addr)
    with t have "fold (push_entry send a addr (clock w a)) es (ok, w) = (ok1, w1)" by (simp add: push_target_def)
    from push_entries_spread [OF this subset_refl assms(2)] Cons.prems(2) [of tid addr] Some show ?thesis
      by (auto simp: handed_to_def)
  qed
  then have same: "w_node w1 a = w_node w a" by (simp add: spread_def)
  from Cons.prems(1) t have f: "fold (push_target send a es) tids (ok1, w1) = (ok', w')" by simp
  have "spread a es (clock w1 a) w1 w' \<and> (ok' \<longrightarrow> ok1 \<and> (\<forall>tid \<in> set tids. handed_to es (clock w1 a) (view w1 a) w' tid))"
  proof (rule Cons.IH [OF f])
    fix x addr
    assume "x \<in> set tids" "AddrOf x (view w1 a) = Some addr"
    with Cons.prems(2) [of x addr] same show "addr \<noteq> a" by simp
  qed
  then have 2: "spread a es (clock w a) w1 w'" "ok' \<longrightarrow> ok1 \<and> (\<forall>tid \<in> set tids. handed_to es (clock w a) (view w a) w' tid)"
    by (simp_all add: same)
  have h: "handed_to es (clock w a) (view w a) w' tid" if "handed_to es (clock w a) (view w a) w1 tid"
  proof -
    from that obtain addr where "AddrOf tid (view w a) = Some addr" "\<forall>e \<in> set es. copied (clock w a) w1 addr e"
      unfolding handed_to_def by (elim exE conjE)
    with copied_stable [OF 2(1) assms(2)] show ?thesis unfolding handed_to_def by (intro exI [of _ addr]) simp
  qed
  from 1 2(2) h have "ok' \<longrightarrow> ok \<and> (\<forall>x \<in> set (tid # tids). handed_to es (clock w a) (view w a) w' x)" by simp
  with spread_trans [OF 1 [THEN conjunct1] 2(1)] show ?case by (rule conjI)
qed simp


text \<open>What one partition of a migration pass does to the other partitions, and to an entry of its own.\<close>

lemma migrate_partition_spread:
  fixes w :: "'x world"
  assumes "store_inv (n_store (w_node w a))" "own_address w a"
  obtains w1 where "spread a (to_transfer w a p) (clock w a) w w1"
    "migrate_partition send a table p w = w1 \<or>
      migrate_partition send a table p w = set_node a (dropMigratedLogged p (to_transfer w a p) (w_node w a)) w1 \<and>
      self_id w a \<notin> set (holders table p) \<and>
      (\<forall>tid \<in> set (holders table p). handed_to (to_transfer w a p) (clock w a) (view w a) w1 tid)"
proof -
  obtain selfHolds targets where t: "migrate_targets (self_id w a) table p = (selfHolds, targets)" by fastforce
  obtain ok w1 where f: "fold (push_target send a (to_transfer w a p)) targets (True, w) = (ok, w1)" by fastforce
  note h = migrate_targets_holders [OF t]
  have sp: "spread a (to_transfer w a p) (clock w a) w w1 \<and>
      (ok \<longrightarrow> True \<and> (\<forall>tid \<in> set targets. handed_to (to_transfer w a p) (clock w a) (view w a) w1 tid))"
  proof (rule push_targets_spread [OF f transfer_entries(1) [OF assms(1)]])
    fix tid addr
    assume "tid \<in> set targets" "AddrOf tid (view w a) = Some addr"
    with assms(2) h(1) show "addr \<noteq> a" by (auto simp: own_address_def)
  qed
  have mp: "migrate_partition send a table p w =
      (if to_transfer w a p = [] then w
       else if \<not> selfHolds \<and> ok then set_node a (dropMigratedLogged p (to_transfer w a p) (w_node w1 a)) w1 else w1)"
    by (simp only: migrate_partition_def Let_def t f prod.case)
  consider "to_transfer w a p = []" | "to_transfer w a p \<noteq> []" "\<not> (\<not> selfHolds \<and> ok)"
    | "to_transfer w a p \<noteq> []" "\<not> selfHolds" "ok" by blast
  then show thesis
  proof cases
    case 1
    show ?thesis by (rule that [of w]) (simp_all add: mp 1)
  next
    case 2
    then have "migrate_partition send a table p w = w1" by (simp only: mp if_False)
    with sp show ?thesis by (intro that [of w1] disjI1) simp_all
  next
    case 3
    with h(2) have "self_id w a \<notin> set (holders table p)" by blast
    moreover from this h(1) have "set targets = set (holders table p)" by simp
    moreover have "w_node w1 a = w_node w a" using sp by (simp add: spread_def)
    ultimately show ?thesis using sp by (intro that [of w1]) (simp_all add: mp 3)
  qed
qed

lemma migrate_partition_step:
  fixes w :: "'x world"
  assumes "store_inv (n_store (w_node w a))" "own_address w a"
    "migrate_partition send a table p w = w'"
  shows "same_frame w w'" "store_inv (n_store (w_node w' a))"
    "routedPartition nm k \<noteq> p \<Longrightarrow> held w' b nm k = held w b nm k"
    "routedPartition nm k = p \<Longrightarrow> live (clock w a) (held w a nm k) = Some v \<Longrightarrow> kept_or_moved a table nm k v w w'"
proof -
  let ?es = "to_transfer w a p"
  obtain w1 where s: "spread a ?es (clock w a) w w1"
    and w': "w' = w1 \<or> w' = set_node a (dropMigratedLogged p ?es (w_node w a)) w1 \<and> self_id w a \<notin> set (holders table p) \<and>
      (\<forall>tid \<in> set (holders table p). handed_to ?es (clock w a) (view w a) w1 tid)"
    using migrate_partition_spread [where table = table and p = p, OF assms(1,2)] unfolding assms(3) by blast
  note sD = spreadD [OF s]
  from assms(1) have wf: "wf_store (n_store (w_node w a))" by (simp add: store_inv_def)
  show "same_frame w w'" using w' sD(1,2) by (auto simp: same_frame_def)
  show "store_inv (n_store (w_node w' a))"
    using w' sD(2) assms(1) store_step_inv [OF step_migrate assms(1)] by auto
  show "held w' b nm k = held w b nm k" if "routedPartition nm k \<noteq> p"
  proof -
    have "\<forall>e \<in> set ?es. (e_mapName e, e_key e) \<noteq> (nm, k)"
      using that transfer_entries(3) [OF assms(1)] by auto
    from spread_lookup [OF s this] have "held w1 b nm k = held w b nm k" .
    with w' that sD(2) show ?thesis by (auto simp: dropMigrated_lookup [OF wf])
  qed
  show "kept_or_moved a table nm k v w w'" if "routedPartition nm k = p" "live (clock w a) (held w a nm k) = Some v"
    using w'
  proof (elim disjE conjE)
    assume "w' = w1"
    with sD(2) show ?thesis by (simp add: kept_or_moved_def)
  next
    let ?n = "dropMigratedLogged p ?es (w_node w a)"
    assume w': "w' = set_node a ?n w1" and ns: "self_id w a \<notin> set (holders table p)"
      and h: "\<forall>tid \<in> set (holders table p). handed_to ?es (clock w a) (view w a) w1 tid"
    have "entry_of nm k v \<in> set ?es" using that by (simp add: transfer_entries(2) [OF assms(1)])
    then have "\<exists>addr. AddrOf tid (view w a) = Some addr \<and> copied (clock w a) w' addr (entry_of nm k v)"
      if tid: "tid \<in> set (holders table p)" for tid
    proof -
      from h tid obtain addr where addr: "AddrOf tid (view w a) = Some addr" "copied (clock w a) w1 addr (entry_of nm k v)"
        using \<open>entry_of nm k v \<in> set ?es\<close> by (auto simp: handed_to_def)
      with assms(2) ns tid have "addr \<noteq> a" by (auto simp: own_address_def)
      with addr show ?thesis by (auto simp: w' copied_def pushed_value_def)
    qed
    moreover have "held w' a nm k = held w a nm k \<or> held w' a nm k = None"
      by (simp add: w' dropMigrated_lookup [OF wf])
    ultimately show ?thesis using ns that(1) by (auto simp: kept_or_moved_def)
  qed
qed

lemma migrate_loop_other:
  fixes w :: "'x world"
  assumes "store_inv (n_store (w_node w a))" "own_address w a"
    "migrate_loop send a table cancelled ps w = (ok, w')" "routedPartition nm k \<notin> set ps"
  shows "same_frame w w' \<and> (\<forall>b. held w' b nm k = held w b nm k)"
  using assms
proof (induction ps arbitrary: w)
  case (Cons p ps)
  let ?w = "migrate_partition send a table p w"
  note st = migrate_partition_step [where table = table and p = p, OF Cons.prems(1,2) refl]
  have "same_frame ?w w' \<and> (\<forall>b. held w' b nm k = held ?w b nm k)" if "\<not> cancelled p"
    using that Cons.prems st(2) own_address_frame [OF st(1)] by (intro Cons.IH) auto
  with Cons.prems st(3) [of nm k] same_frame_trans [OF st(1)] show ?case by (cases "cancelled p") auto
qed simp

lemma migrate_loop_safe:
  fixes w :: "'x world"
  assumes "store_inv (n_store (w_node w a))" "own_address w a"
    "migrate_loop send a table cancelled ps w = (ok, w')" "distinct ps" "live (clock w a) (held w a nm k) = Some v"
  shows "kept_or_moved a table nm k v w w'"
  using assms
proof (induction ps arbitrary: w)
  case (Cons p ps)
  let ?w = "migrate_partition send a table p w"
  note st = migrate_partition_step [where table = table and p = p, OF Cons.prems(1,2) refl]
  note f = same_frameD [OF st(1)]
  consider "cancelled p" | "\<not> cancelled p" "routedPartition nm k \<noteq> p" | "\<not> cancelled p" "routedPartition nm k = p" by blast
  then show ?case
  proof cases
    case 1
    with Cons.prems show ?thesis by (simp add: kept_or_moved_def)
  next
    case 2
    have "kept_or_moved a table nm k v ?w w'"
      using 2 Cons.prems st(2,3) f own_address_frame [OF st(1)] by (intro Cons.IH) auto
    with st(3) [OF 2(2)] f show ?thesis by (simp add: kept_or_moved_def)
  next
    case 3
    then have "same_frame ?w w' \<and> (\<forall>b. held w' b nm k = held ?w b nm k)"
      using Cons.prems st(2) own_address_frame [OF st(1)] by (intro migrate_loop_other [where ps = ps]) auto
    with st(4) [OF 3(2) Cons.prems(5)] show ?thesis
      by (simp add: kept_or_moved_def copied_def pushed_value_def same_frame_def)
  qed
qed (simp add: kept_or_moved_def)

end

section \<open>A cluster of two\<close>

text \<open>The concrete cluster of the examples below: two nodes that know each other, the first with one entry.\<close>

definition demo_peer :: Member where
  "demo_peer = \<lparr>m_ID = [2], m_Addr = [20]\<rparr>"

definition demo_peer_view :: Membership where
  "demo_peer_view = rejoin demo_self (mem_New demo_peer 1)"

definition demo_blank :: "unit Node" where
  "demo_blank = init_node \<lparr>c_ID = [1], c_Addr = [10], c_Backups = 1, c_MaxEntries = 0, c_DataDir = []\<rparr> 1 [] Missing Missing [] []"

definition demo_pair :: "unit world" where
  "demo_pair =
     \<lparr>w_node = (\<lambda>a. if a = [20] then demo_blank\<lparr>n_mem := demo_peer_view\<rparr> else demo_blank\<lparr>n_mem := demo_view, n_store := demo_store\<rparr>),
      w_up = \<lambda>_ _. True, w_ext = ()\<rparr>"

lemma demo_peer_members: "mem_members demo_peer_view = [([2], demo_peer), ([1], demo_self)]" "mem_self demo_peer_view = demo_peer"
  by (simp_all add: demo_peer_view_def mem_New_def rejoin_def demo_self_def demo_peer_def Let_def)

lemma demo_tables: "mem_table demo_view = NewTable [[1], [2]] 1" "mem_table demo_peer_view = NewTable [[1], [2]] 1"
proof -
  have r: "mem_reach demo_peer_view" unfolding demo_peer_view_def by (rule mr_step [OF mr_new ms_rejoin])
  have b: "mem_backups demo_view = 1" "mem_backups demo_peer_view = 1"
    by (simp_all add: demo_view_def demo_peer_view_def mem_New_def rejoin_def demo_self_def demo_peer_def Let_def)
  have "mem_table demo_view = NewTable (map fst (mem_members demo_view)) 1"
    using mem_reach_inv [OF demo_view_reach] b by (simp only: mem_inv_def)
  then show "mem_table demo_view = NewTable [[1], [2]] 1" by (simp only: demo_view_members list.map fst_conv)
  have "mem_table demo_peer_view = NewTable (map fst (mem_members demo_peer_view)) 1"
    using mem_reach_inv [OF r] b by (simp only: mem_inv_def)
  also have "\<dots> = NewTable [[1], [2]] 1"
    by (rule NewTable_cong) (simp add: demo_peer_members)
  finally show "mem_table demo_peer_view = NewTable [[1], [2]] 1" .
qed

lemma demo_ranking: "ranking [[1], [2]] (For [2]) = [[1], [2]]"
proof -
  have "hrwWeight [2] (For [2]) < hrwWeight [1] (For [2])" by code_simp
  then show ?thesis by (auto simp: ranking_def sort_by_def id_less_def)
qed

lemma demo_addrs: "AddrOf i demo_view = (if i = [1] then Some [10] else if i = [2] then Some [20] else None)"
  "AddrOf i demo_peer_view = (if i = [1] then Some [10] else if i = [2] then Some [20] else None)"
  by (simp_all add: AddrOf_def demo_view_members demo_peer_members demo_self_def demo_peer_def)

lemma demo_pair_sel:
  "view demo_pair a = (if a = [20] then demo_peer_view else demo_view)" "clock demo_pair a = 1"
  "n_store (w_node demo_pair a) = (if a = [20] then newStore else demo_store)" "w_up demo_pair = (\<lambda>_ _. True)"
  "n_wal (w_node demo_pair a) = None" "n_loaders (w_node demo_pair a) = newLoaderRegistry"
  by (simp_all add: demo_pair_def demo_blank_def init_node_def Let_def)

section \<open>Migration is safe\<close>

text \<open>
  C3: Migration loses nothing, also when calls and replies get lost and the pass is cancelled half-way.
  A live entry of the migrating node is still there after the pass, unless the node is no holder of
  its partition in the new table and every holder has a copy with the same value and the remaining
  time to live (or the entry has less than a millisecond to live, which is not pushed).
\<close>

theorem migration_safe:
  fixes w :: "'x world"
  assumes "Migrate (lossy fate) a cancelled table w = (ok, w')" "store_inv (n_store (w_node w a))" "own_address w a"
    "live (clock w a) (held w a nm k) = Some v"
  shows "held w' a nm k = held w a nm k \<or>
    held w' a nm k = None \<and> self_id w a \<notin> set (holders table (routedPartition nm k)) \<and>
    (\<forall>tid \<in> set (holders table (routedPartition nm k)). \<exists>addr. AddrOf tid (view w a) = Some addr \<and>
       (lapsing (clock w a) (entry_of nm k v) \<or>
        held w' addr nm k = Some (pushed_value w' addr (v_data v) (remainingTTLms (v_expireAt v) (clock w a)))))"
  using lossy_net.migrate_loop_safe [OF assms(2,3) assms(1) [unfolded Migrate_def] distinct_upt assms(4)]
  unfolding kept_or_moved_def copied_def by simp

theorem migration_safe_witness:
  "\<exists>fate :: bytes \<Rightarrow> bytes \<Rightarrow> request \<Rightarrow> unit world \<Rightarrow> fate. \<exists>w'.
     snd (Migrate (lossy fate) [10] (\<lambda>_. False) (NewTable [[2]] 1) demo_pair) = w' \<and>
     (held w' [10] [1] [2] = Some \<lparr>v_data = [3], v_expireAt = 0\<rparr> \<or>
      held w' [10] [1] [2] = None \<and> held w' [20] [1] [2] = Some \<lparr>v_data = [3], v_expireAt = 0\<rparr>)"
proof -
  let ?fate = "\<lambda>_ _ _ (_ :: unit world). Arrives" and ?p = "routedPartition [1] [2]"
  let ?w' = "snd (Migrate (lossy ?fate) [10] (\<lambda>_. False) (NewTable [[2]] 1) demo_pair)"
  have h: "held demo_pair [10] [1] [2] = Some \<lparr>v_data = [3], v_expireAt = 0\<rparr>"
    by (simp add: demo_pair_sel demo_lookup)
  have o: "[2] \<in> set (holders (NewTable [[2]] 1) ?p)"
    by (simp add: holders_def OwnerOf_ranking routedPartition_def ranking_def sort_by_def)
  have l: "live (clock demo_pair [10]) (held demo_pair [10] [1] [2]) = Some \<lparr>v_data = [3], v_expireAt = 0\<rparr>"
    by (simp add: h live_def expired_def)
  have "store_inv (n_store (w_node demo_pair [10]))" "own_address demo_pair [10]"
    by (simp_all add: demo_pair_sel demo_inv own_address_def demo_addrs demo_view_members demo_self_def split: if_splits)
  from migration_safe [OF prod.collapse [symmetric] this l, of ?fate "\<lambda>_. False" "NewTable [[2]] 1"] o h
  show ?thesis
    by (intro exI [of _ ?fate] exI [of _ ?w'])
       (auto simp: demo_pair_sel demo_addrs lapsing_def remainingTTLms_def pushed_value_def expireFromTTL_def split: if_splits)
qed

section \<open>Replication of a write\<close>

context network
begin

lemma replicate_put_step:
  fixes w :: "'x world"
  assumes "w' = replicate_to send a tbl p (RepPut val ttlMs) name key i w"
  shows "same_frame w w'" "held w' b name key = held w b name key \<or> held w' b name key = Some (pushed_value w b val ttlMs)"
proof -
  consider "w' = w" | addr err where "sendPut send a addr name key val ttlMs True w = (err, w')"
    using assms by (auto simp: replicate_to_def split: prod.splits option.splits if_splits) (metis prod.collapse)
  then have "same_frame w w' \<and> (held w' b name key = held w b name key \<or> held w' b name key = Some (pushed_value w b val ttlMs))"
  proof cases
    case (2 addr)
    with put_effect(1) [OF 2] put_effect(2,4) [OF 2] show ?thesis by (cases "b = addr") auto
  qed simp
  then show "same_frame w w'" "held w' b name key = held w b name key \<or> held w' b name key = Some (pushed_value w b val ttlMs)"
    by auto
qed

end

context reliable
begin

text \<open>Over a working link a backup put is stored, whatever happens to the log of the node.\<close>

lemma put_reaches:
  assumes "sendPut send a b name key val ttlMs True w = (err, w')" "w_up w a b"
  shows "held w' b name key = Some (pushed_value w b val ttlMs)"
proof -
  have "local_req (PutReq name key val True ttlMs)" by (simp add: local_req_def)
  from reachable [OF this assms(2)] have "w_node w' b = snd (local_put name key val ttlMs (w_node w b))"
    using assms(1) by (auto simp: sendPut_def node_handle_def map_sum_def split: prod.splits sum.splits)
      (metis answer_snd snd_conv)+
  then show ?thesis by (simp add: store_put_lookup pushed_value_def)
qed

text \<open>So a replicated put is stored by every backup that can be reached.\<close>

lemma replicate_put:
  fixes w :: "'a world"
  assumes "w' = fold (replicate_to send a tbl p (RepPut val ttlMs) name key) js w"
  shows "same_frame w w' \<and> (\<forall>b. held w b name key = Some (pushed_value w b val ttlMs) \<longrightarrow> held w' b name key = Some (pushed_value w b val ttlMs)) \<and>
    (\<forall>i \<in> set js. \<forall>bid b. BackupAt tbl p (int i) = (bid, True) \<longrightarrow> bid \<noteq> self_id w a \<longrightarrow> AddrOf bid (view w a) = Some b \<longrightarrow>
       w_up w a b \<longrightarrow> held w' b name key = Some (pushed_value w b val ttlMs))"
  using assms
proof (induction js arbitrary: w)
  case (Cons i js)
  define w1 where "w1 = replicate_to send a tbl p (RepPut val ttlMs) name key i w"
  note st = replicate_put_step [OF w1_def]
  have pv: "pushed_value w1 b = pushed_value w b" for b
    using st(1) by (simp add: pushed_value_def same_frame_def fun_eq_iff)
  have first: "held w1 b name key = Some (pushed_value w b val ttlMs)"
    if i: "BackupAt tbl p (int i) = (bid, True)" "bid \<noteq> self_id w a" "AddrOf bid (view w a) = Some b" and up: "w_up w a b" for bid b
  proof -
    from i have "w1 = snd (sendPut send a b name key val ttlMs True w)" by (simp add: w1_def replicate_to_def)
    then show ?thesis using put_reaches [OF prod.collapse [symmetric] up] by simp
  qed
  from Cons.IH [of w1] Cons.prems have IH: "same_frame w1 w'"
    "\<And>b. held w1 b name key = Some (pushed_value w1 b val ttlMs) \<Longrightarrow> held w' b name key = Some (pushed_value w1 b val ttlMs)"
    "\<And>i bid b. i \<in> set js \<Longrightarrow> BackupAt tbl p (int i) = (bid, True) \<Longrightarrow> bid \<noteq> self_id w1 a \<Longrightarrow> AddrOf bid (view w1 a) = Some b \<Longrightarrow>
       w_up w1 a b \<Longrightarrow> held w' b name key = Some (pushed_value w1 b val ttlMs)"
    by (auto simp: w1_def)
  have keep: "held w' b name key = Some (pushed_value w b val ttlMs)" if "held w1 b name key = Some (pushed_value w b val ttlMs)" for b
    using IH(2) [of b] that by (simp add: pv)
  show ?case
  proof (intro conjI allI ballI impI)
    show "same_frame w w'" by (rule same_frame_trans [OF st(1) IH(1)])
    show "held w' b name key = Some (pushed_value w b val ttlMs)" if "held w b name key = Some (pushed_value w b val ttlMs)" for b
      using st(2) [of b] that by (intro keep) auto
    show "held w' b name key = Some (pushed_value w b val ttlMs)"
      if "j \<in> set (i # js)" "BackupAt tbl p (int j) = (bid, True)" "bid \<noteq> self_id w a" "AddrOf bid (view w a) = Some b" "w_up w a b" for j bid b
      using that IH(3) [of j bid b] keep [OF first, of bid b] same_frameD [OF st(1)] by (auto simp: pv)
  qed
qed simp

end

lemma emit_at_sel [simp]:
  "n_store (w_node (emit_at a t name key val w) b) = n_store (w_node w b)" "view (emit_at a t name key val w) b = view w b"
  "clock (emit_at a t name key val w) b = clock w b" "n_loaders (w_node (emit_at a t name key val w) b) = n_loaders (w_node w b)"
  "w_up (emit_at a t name key val w) = w_up w"
  by (simp_all add: emit_at_def)

lemma store_through_sel [simp]:
  "w_node (snd (store_through a name key val w)) = w_node w" "w_up (snd (store_through a name key val w)) = w_up w"
  by (simp_all add: store_through_def split: option.split prod.split)

lemma applyPut_replicates:
  assumes "applyPut net a name key val ttlMs False w = ((created, None), w')"
  shows "same_frame w w'"
    "i < NumBackups (mem_table (view w a)) (routedPartition name key) \<Longrightarrow>
     BackupAt (mem_table (view w a)) (routedPartition name key) (int i) = (bid, True) \<Longrightarrow> bid \<noteq> self_id w a \<Longrightarrow>
     AddrOf bid (view w a) = Some b \<Longrightarrow> w_up w a b \<Longrightarrow> held w' b name key = Some (pushed_value w b val ttlMs)"
proof -
  let ?p = "routedPartition name key" and ?tbl = "mem_table (view w a)"
  let ?n = "snd (local_put name key val ttlMs (w_node w a))"
  define w1 where "w1 = set_node a ?n w"
  define w2 where "w2 = fold (replicate_to net a ?tbl ?p (RepPut val ttlMs) name key) [0..<NumBackups ?tbl ?p] w1"
  have f1: "same_frame w w1" by (simp add: same_frame_def w1_def)
  then have pv: "pushed_value w1 b = pushed_value w b" for b by (simp add: pushed_value_def same_frame_def fun_eq_iff)
  note rp = cluster_net.replicate_put [OF w2_def]
  have w2': "replicate_write net a ?p (RepPut val ttlMs) name key w1 = w2"
    by (simp add: replicate_write_def w2_def w1_def Let_def)
  obtain w3 where w3: "w' = snd (store_through a name key val w3)" "w3 = w2 \<or> (\<exists>t. w3 = emit_at a t name key val w2)"
  proof (rule that [of "if IsReservedMap name then w2
        else emit_at a (if snd (fst (local_put name key val ttlMs (w_node w a))) then EventCreated else EventUpdated) name key val w2"])
    have "w' = snd (applyPut net a name key val ttlMs False w)" "snd (fst (applyPut net a name key val ttlMs False w)) = None"
      by (simp_all add: assms)
    then show "w' = snd (store_through a name key val (if IsReservedMap name then w2
        else emit_at a (if snd (fst (local_put name key val ttlMs (w_node w a))) then EventCreated else EventUpdated) name key val w2))"
      unfolding applyPut_def case_prod_beta Let_def w1_def [symmetric] w2' by (simp split: if_splits)
  qed auto
  have f3: "same_frame w2 w'" "held w' b name key = held w2 b name key" for b
    using w3 by (auto simp: same_frame_def)
  show "same_frame w w'" using f1 rp f3(1) by (blast intro: same_frame_trans)
  show "held w' b name key = Some (pushed_value w b val ttlMs)"
    if "i < NumBackups ?tbl ?p" "BackupAt ?tbl ?p (int i) = (bid, True)" "bid \<noteq> self_id w a" "AddrOf bid (view w a) = Some b" "w_up w a b"
  proof -
    have "held w2 b name key = Some (pushed_value w1 b val ttlMs)"
      using that by (intro rp [THEN conjunct2, THEN conjunct2, rule_format, of i bid]) (simp_all add: w1_def)
    then show ?thesis by (simp add: f3(2) pv)
  qed
qed

lemma net_down: "\<not> w_up w src dst \<Longrightarrow> net src dst req w = (Inl ErrNoRoute, w)"
  by (simp add: net_def numeral_2_eq_2 net_send.simps deliver_def)

lemma net_get:
  assumes "w_up w c b" "store_get (clock w b) (n_store (w_node w b)) (routedPartition name key) name key = Some v"
  shows "net c b (GetReq name key) w = (Inr (GetResp True v), w)"
  using assms by (simp add: net_def numeral_2_eq_2 net_send.simps deliver_def dispatch_def Handle_def getThrough_def)

lemma BackupAt_NumBackups: "BackupAt t p 0 = (bid, True) \<Longrightarrow> NumBackups t p > 0"
  by (auto simp: BackupAt_def NumBackups_def Let_def filter_empty_conv intro!: bexI [of _ 0] split: if_splits)

text \<open>The put as the backup holds it, and the read that finds it there.\<close>

lemma acked_put_read:
  fixes w :: "'x world"
  defines "tbl \<equiv> \<lambda>a. mem_table (view w a)"
  assumes "Map_Put net ow name key val w = (None, w1)" "OwnerOf (tbl ow) (For key) = self_id w ow"
    "BackupAt (tbl ow) (For key) 0 = (bid, True)" "bid \<noteq> self_id w ow" "AddrOf bid (view w ow) = Some b" "b \<noteq> ow" "w_up w ow b"
    "c \<noteq> ow" "tbl c = tbl ow" "self_id w c \<noteq> self_id w ow" "AddrOf (self_id w ow) (view w c) = Some ow"
    "if self_id w c = bid then c = b else AddrOf bid (view w c) = Some b \<and> up c b" "\<not> up c ow"
  shows "Map_Get net c name key ((set_node ow crashed w1)\<lparr>w_up := up\<rparr>) =
    ((val, True, None), (set_node ow crashed w1)\<lparr>w_up := up\<rparr>)"
proof -
  let ?w = "(set_node ow crashed w1)\<lparr>w_up := up\<rparr>" and ?p = "For key"
  from assms(2) have nr: "\<not> IsReservedMap name" by (auto simp: Map_Put_def putWithTTL_def)
  then have rp: "routedPartition name key = ?p" by (simp add: routedPartition_def IsReservedMap_def)
  from assms(2,3) nr obtain created where put: "applyPut net ow name key val 0 False w = ((created, None), w1)"
    by (auto simp: Map_Put_def putWithTTL_def route_def tbl_def Let_def split: prod.splits)
  note ap = applyPut_replicates [OF put]
  have "held w1 b name key = Some (pushed_value w b val 0)"
    using assms(3-8) BackupAt_NumBackups [OF assms(4)] by (intro ap(2) [where i = 0]) (simp_all add: rp tbl_def)
  then have got: "store_get (clock ?w b) (n_store (w_node ?w b)) ?p name key = Some val"
    using assms(7) by (simp add: store_get_live rp live_def expired_def pushed_value_def expireFromTTL_def)
  have vc: "view ?w c = view w c" using ap(1) assms(9) by (simp add: same_frame_def)
  have r: "route c key ?w = (?p, ow, False)"
    using assms(3,10,11,12) vc by (simp add: route_def Let_def tbl_def)
  have s: "sendGet net c ow name key ?w = (Inl ErrNoRoute, ?w)"
    using assms(14) by (simp add: sendGet_def net_down)
  obtain js where js: "[0..<NumBackups (mem_table (view ?w c)) ?p] = 0 # js"
    using BackupAt_NumBackups [OF assms(4)] assms(10) vc by (auto simp: tbl_def upt_conv_Cons)
  have b0: "BackupAt (mem_table (view ?w c)) ?p (int 0) = (bid, True)" using assms(4,10) vc by (simp add: tbl_def)
  have "tryBackups c ?p (get_backup net c ?p name key) ([], False, None) ?w = ((val, True, None), ?w)"
  proof (cases "self_id w c = bid")
    case True
    with assms(13) got vc show ?thesis
      unfolding tryBackups_def Let_def js try_loop.simps b0 by (simp add: get_backup_def)
  next
    case False
    have "sendGet net c b name key ?w = (Inr (val, True), ?w)"
      using assms(13) False got net_get [of ?w c b name key val] by (simp add: sendGet_def rp)
    with False assms(13) vc show ?thesis
      unfolding tryBackups_def Let_def js try_loop.simps b0 by (simp add: get_backup_def)
  qed
  then show ?thesis by (simp add: Map_Get_def r s)
qed

text \<open>
  C4: An acknowledged put survives the loss of its owner. When \<open>Put\<close> on the owner has returned without
  an error and the link to the first backup worked, then after the owner has become unreachable, in
  whatever state it is, \<open>Get\<close> on any other node that routes by the same table returns the value that was
  put: it finds the owner gone and reads the first backup, or its own copy if it is that backup.
\<close>

theorem failover_read:
  fixes w :: "'x world"
  defines "tbl \<equiv> \<lambda>a. mem_table (view w a)"
  assumes "Map_Put net ow name key val w = (None, w1)" "OwnerOf (tbl ow) (For key) = self_id w ow"
    "BackupAt (tbl ow) (For key) 0 = (bid, True)" "bid \<noteq> self_id w ow" "AddrOf bid (view w ow) = Some b" "b \<noteq> ow" "w_up w ow b"
    "c \<noteq> ow" "tbl c = tbl ow" "self_id w c \<noteq> self_id w ow" "AddrOf (self_id w ow) (view w c) = Some ow"
    "if self_id w c = bid then c = b else AddrOf bid (view w c) = Some b \<and> up c b" "\<not> up c ow"
  shows "fst (Map_Get net c name key ((set_node ow crashed w1)\<lparr>w_up := up\<rparr>)) = (val, True, None)"
proof -
  have "Map_Get net c name key ((set_node ow crashed w1)\<lparr>w_up := up\<rparr>) =
    ((val, True, None), (set_node ow crashed w1)\<lparr>w_up := up\<rparr>)"
    using assms(2-) unfolding tbl_def by (rule acked_put_read)
  then show ?thesis by simp
qed

lemma demo_put_acked: "Map_Put net [10] [1] [2] [7] demo_pair = (None, snd (Map_Put net [10] [1] [2] [7] demo_pair))"
proof -
  let ?w = "set_node [10] (snd (local_put [1] [2] [7] 0 (w_node demo_pair [10]))) demo_pair" and ?p = "routedPartition [1] [2]"
  have "same_frame ?w (replicate_write net [10] ?p (RepPut [7] 0) [1] [2] ?w)"
    using cluster_net.replicate_put [OF refl] unfolding replicate_write_def Let_def by blast
  then have "n_loaders (w_node (replicate_write net [10] ?p (RepPut [7] 0) [1] [2] ?w) [10]) = newLoaderRegistry"
    by (simp add: same_frame_def demo_pair_sel)
  then have "snd (fst (applyPut net [10] [1] [2] [7] 0 False demo_pair)) = None"
    unfolding applyPut_def case_prod_beta Let_def
    by (simp add: store_through_def loaders_store_def newLoaderRegistry_def)
       (simp add: local_put_def logged_def Let_def case_prod_beta demo_pair_sel)
  then have "fst (Map_Put net [10] [1] [2] [7] demo_pair) = None"
    by (simp add: Map_Put_def putWithTTL_def route_def Let_def case_prod_beta demo_pair_sel demo_tables demo_view_members
        demo_self_def OwnerOf_ranking demo_ranking IsReservedMap_def queueMap_def queueSegMap_def str_def)
  then show ?thesis by (metis prod.collapse)
qed

theorem failover_read_witness:
  "fst (Map_Get net [20] [1] [2] ((set_node [10] demo_blank (snd (Map_Put net [10] [1] [2] [7] demo_pair)))\<lparr>w_up := \<lambda>_ _. False\<rparr>)) =
    ([7], True, None)"
  by (rule failover_read [of "[10]" "[1]" "[2]" "[7]" demo_pair _ "[2]" "[20]", OF demo_put_acked])
    (simp_all add: demo_pair_sel demo_tables demo_addrs demo_view_members demo_peer_members demo_self_def demo_peer_def
    OwnerOf_ranking BackupAt_ranking demo_ranking)

end
