(* ===== verification/AntiEntropy.thy ===== *)
theory AntiEntropy
  imports Replication
begin

text \<open>
  What an anti-entropy pass achieves: the owner probes the backups of a partition with a digest, pushes
  its entries to those that answer differently or not at all, and has them drop the rest. Over working
  links a backup that differed ends with exactly the entries of the owner.
\<close>

section \<open>The key set of a reconcile request\<close>

lemma kept_update:
  "kept (AList.update name (AList.update key () (case map_of keep name of None \<Rightarrow> [] | Some inner \<Rightarrow> inner)) keep) n k \<longleftrightarrow>
    (n, k) = (name, key) \<or> kept keep n k"
  by (auto simp: kept_def update_conv' split: option.splits)

lemma kept_keep_of: "kept (keep_of keys) n k \<longleftrightarrow> (n, k) \<in> set keys"
proof -
  let ?step = "\<lambda>(name, key) keep. AList.update name
      (AList.update key () (case map_of keep name of None \<Rightarrow> [] | Some inner \<Rightarrow> inner)) keep"
  have "kept (fold ?step keys keep) n k \<longleftrightarrow> (n, k) \<in> set keys \<or> kept keep n k" for keep
  proof (induction keys arbitrary: keep)
    case (Cons nk keys)
    obtain name key where nk: "nk = (name, key)" by (cases nk)
    show ?case by (simp only: nk fold_Cons comp_apply prod.case Cons.IH kept_update) auto
  qed simp
  then show ?thesis by (simp add: keep_of_def kept_def [of "[]"])
qed

lemma u32_partition: "p < Count \<Longrightarrow> unat (of_nat p :: u32) = p" "p < Count \<Longrightarrow> \<not> of_nat Count \<le> (of_nat p :: u32)"
  by (simp_all add: Count_def word_le_nat_alt unat_of_nat take_bit_nat_eq_self)

section \<open>Probing\<close>

definition peer_addr :: "'x world \<Rightarrow> bytes \<Rightarrow> bytes \<Rightarrow> bool" where
  "peer_addr w a x \<longleftrightarrow> (\<exists>bid. bid \<noteq> self_id w a \<and> AddrOf bid (view w a) = Some x)"

context network
begin

lemma digest_effect: "sendDigest send a addr p d w = (r, w') \<Longrightarrow> w' = w"
proof -
  assume "sendDigest send a addr p d w = (r, w')"
  then obtain r' where "send a addr (DigestReq (of_nat p) d) w = (r', w')"
    by (auto simp: sendDigest_def split: prod.splits sum.splits)
  from local_effect [OF _ this] show ?thesis by (auto simp: local_req_def node_handle_def)
qed

lemma probe_step:
  assumes "probe_backup send a table p d i (stale, w) = (stale', w')"
  shows "w' = w" "stale' = stale \<or> (\<exists>x. stale' = stale @ [x] \<and> peer_addr w a x)"
proof -
  obtain b ok where b: "BackupAt table p (int i) = (b, ok)" by fastforce
  have "w' = w \<and> (stale' = stale \<or> (\<exists>x. stale' = stale @ [x] \<and> peer_addr w a x))"
  proof (cases "\<not> ok \<or> b = self_id w a \<or> AddrOf b (view w a) = None")
    case True
    with assms b show ?thesis by (auto simp: probe_backup_def split: if_splits)
  next
    case False
    then obtain addr where addr: "AddrOf b (view w a) = Some addr" by auto
    obtain r w1 where r: "sendDigest send a addr p d w = (r, w1)" by fastforce
    from digest_effect [OF r] have "probe_backup send a table p d i (stale, w) = (if r = Inr True then stale else stale @ [addr], w)"
      using False b addr r by (auto simp: probe_backup_def split: sum.split bool.split)
    with assms False addr show ?thesis by (auto simp: peer_addr_def split: if_splits)
  qed
  then show "w' = w" "stale' = stale \<or> (\<exists>x. stale' = stale @ [x] \<and> peer_addr w a x)"
    by auto
qed

text \<open>Probing changes nothing, and only addresses of other members are stale.\<close>

lemma probe_world:
  "fold (probe_backup send a table p d) js (stale, w) = (stale', w') \<Longrightarrow>
    w' = w \<and> set stale \<subseteq> set stale' \<and>
    (\<forall>x \<in> set stale'. x \<in> set stale \<or> peer_addr w a x)"
proof (induction js arbitrary: stale w)
  case (Cons i js)
  obtain s1 w1 where 1: "probe_backup send a table p d i (stale, w) = (s1, w1)" by fastforce
  with Cons.prems have "fold (probe_backup send a table p d) js (s1, w1) = (stale', w')" by simp
  from Cons.IH [OF this] probe_step(1) [OF 1]
  have IH: "w' = w" "set s1 \<subseteq> set stale'" "\<And>x. x \<in> set stale' \<Longrightarrow> x \<in> set s1 \<or> peer_addr w a x" by auto
  from probe_step(2) [OF 1] have "set stale \<subseteq> set s1" "\<And>x. x \<in> set s1 \<Longrightarrow> x \<in> set stale \<or> peer_addr w a x" by auto
  with IH show ?case by blast
qed simp

end

context reliable
begin

lemma probe_finds:
  assumes "fold (probe_backup send a table p d) js (stale, w) = (stale', w')" "p < Count" "i \<in> set js"
    "BackupAt table p (int i) = (bid, True)" "bid \<noteq> self_id w a" "AddrOf bid (view w a) = Some b" "w_up w a b"
    "partitionDigest (clock w b) (n_store (w_node w b)) p \<noteq> d"
  shows "b \<in> set stale'"
  using assms(1,3)
proof (induction js arbitrary: stale)
  case (Cons j js)
  obtain s1 w1 where 1: "probe_backup send a table p d j (stale, w) = (s1, w1)" by fastforce
  have "w1 = w" by (rule probe_step(1) [OF 1])
  with Cons.prems 1 have rest: "fold (probe_backup send a table p d) js (s1, w) = (stale', w')" by simp
  show ?case
  proof (cases "j = i")
    case True
    have "send a b (DigestReq (of_nat p) d) w = (Inr (DigestResp False), w)"
      using assms(2,7,8) by (subst reachable) (simp_all add: local_req_def node_handle_def u32_partition)
    then have "sendDigest send a b p d w = (Inr False, w)" by (simp add: sendDigest_def)
    with 1 True assms(4-6) have "s1 = stale @ [b]" by (simp add: probe_backup_def)
    with probe_world [OF rest] show ?thesis by auto
  next
    case False
    with Cons.IH [OF rest] Cons.prems show ?thesis by simp
  qed
qed simp

end

section \<open>Pushing\<close>

context reliable
begin

lemma sync_pushes:
  assumes "fold (\<lambda>addr (sent, w).
      case sendPut send a addr (e_mapName e) (e_key e) (e_value e) (remainingTTLms (e_expireAt e) now) True w of
        (None, w') \<Rightarrow> (True, w') | (Some _, w') \<Rightarrow> (sent, w')) stale (sent, w) = (sent', w')"
    "e \<in> set es" "distinct_keys es" "a \<notin> set stale"
  shows "spread a es now w w' \<and> (\<forall>x \<in> set stale. w_up w a x \<longrightarrow> copied now w' x e)"
  using assms(1,4)
proof (induction stale arbitrary: sent w)
  case (Cons x stale)
  obtain err w1 where x: "sendPut send a x (e_mapName e) (e_key e) (e_value e) (remainingTTLms (e_expireAt e) now) True w = (err, w1)"
    by fastforce
  from Cons.prems have "x \<noteq> a" "a \<notin> set stale" by auto
  note s1 = put_spread [OF x assms(2) \<open>x \<noteq> a\<close>]
  note f1 = spreadD(1) [OF s1]
  have c1: "copied now w1 x e" if "w_up w a x"
    using put_reaches [OF x that] f1 by (simp add: copied_def pushed_value_def same_frame_def)
  obtain sent1 where "fold (\<lambda>addr (sent, w).
      case sendPut send a addr (e_mapName e) (e_key e) (e_value e) (remainingTTLms (e_expireAt e) now) True w of
        (None, w') \<Rightarrow> (True, w') | (Some _, w') \<Rightarrow> (sent, w')) stale (sent1, w1) = (sent', w')"
    using Cons.prems(1) x by (cases err) auto
  note IH = Cons.IH [OF this \<open>a \<notin> set stale\<close>]
  note s2 = IH [THEN conjunct1]
  have "copied now w' x e" if "w_up w a x" by (rule copied_stable [OF s2 assms(3,2) c1 [OF that]])
  with IH [THEN conjunct2] have "\<forall>y \<in> set (x # stale). w_up w a y \<longrightarrow> copied now w' y e"
    by (simp add: same_frameD(3) [OF f1])
  with spread_trans [OF s1 s2] show ?case by (rule conjI)
qed simp

lemma sync_entries:
  assumes "fold (sync_entry send a p now stale) xs (keyset, pushed, w) = (keyset', pushed', w')" "set xs \<subseteq> set (to_transfer w a p)"
    "store_inv (n_store (w_node w a))" "now = clock w a" "a \<notin> set stale"
  shows "spread a (to_transfer w a p) now w w' \<and>
    keyset' = keyset @ map (\<lambda>e. (e_mapName e, e_key e)) (filter (\<lambda>e. \<not> lapsing now e) xs) \<and>
    (\<forall>e \<in> set xs. \<forall>x \<in> set stale. \<not> lapsing now e \<longrightarrow> w_up w a x \<longrightarrow> copied now w' x e)"
  using assms
proof (induction xs arbitrary: keyset pushed w)
  case (Cons e xs)
  let ?es = "to_transfer w a p"
  from Cons.prems(2) have e: "e \<in> set ?es" and xs: "set xs \<subseteq> set ?es" by auto
  note d = transfer_entries(1) [OF Cons.prems(3)]
  have look: "store_lookup (clock w a) (n_store (w_node w a)) p (e_mapName e) (e_key e) = Some (e_value e, e_expireAt e)"
    using e transfer_entries(2) [OF Cons.prems(3)] by (simp add: store_lookup_live)
  obtain keyset1 pushed1 w1 where 1: "sync_entry send a p now stale e (keyset, pushed, w) = (keyset1, pushed1, w1)"
    by (metis prod_cases3)
  have st: "spread a ?es now w w1 \<and> keyset1 = keyset @ (if lapsing now e then [] else [(e_mapName e, e_key e)]) \<and>
      (\<forall>x \<in> set stale. \<not> lapsing now e \<longrightarrow> w_up w a x \<longrightarrow> copied now w1 x e)"
  proof (cases "lapsing now e")
    case True
    with 1 look show ?thesis by (simp add: sync_entry_def lapsing_def Let_def)
  next
    case False
    obtain sent w2 where f: "fold (\<lambda>addr (sent, w).
        case sendPut send a addr (e_mapName e) (e_key e) (e_value e) (remainingTTLms (e_expireAt e) now) True w of
          (None, w') \<Rightarrow> (True, w') | (Some _, w') \<Rightarrow> (sent, w')) stale (False, w) = (sent, w2)" by fastforce
    with False 1 look have "w1 = w2" "keyset1 = keyset @ [(e_mapName e, e_key e)]"
      by (auto simp: sync_entry_def lapsing_def Let_def split: if_splits)
    with sync_pushes [OF f e d Cons.prems(5)] False show ?thesis by simp
  qed
  note s1 = st [THEN conjunct1]
  note same = spreadD(2) [OF s1]
  from Cons.prems(1) 1 have "fold (sync_entry send a p now stale) xs (keyset1, pushed1, w1) = (keyset', pushed', w')" by simp
  from Cons.IH [OF this] Cons.prems(3-5) xs
  have IH: "spread a ?es now w1 w' \<and> keyset' = keyset1 @ map (\<lambda>e. (e_mapName e, e_key e)) (filter (\<lambda>e. \<not> lapsing now e) xs) \<and>
      (\<forall>e \<in> set xs. \<forall>x \<in> set stale. \<not> lapsing now e \<longrightarrow> w_up w1 a x \<longrightarrow> copied now w' x e)"
    by (simp add: same)
  note s2 = IH [THEN conjunct1]
  have "copied now w' x e" if "x \<in> set stale" "\<not> lapsing now e" "w_up w a x" for x
    using st that by (intro copied_stable [OF s2 d e]) simp
  with IH st have "keyset' = keyset @ map (\<lambda>e. (e_mapName e, e_key e)) (filter (\<lambda>e. \<not> lapsing now e) (e # xs)) \<and>
      (\<forall>y \<in> set (e # xs). \<forall>x \<in> set stale. \<not> lapsing now y \<longrightarrow> w_up w a x \<longrightarrow> copied now w' x y)"
    by (simp add: same_frameD(3) [OF spreadD(1) [OF s1]])
  with spread_trans [OF s1 s2] show ?case by (rule conjI)
qed simp

end

section \<open>Dropping the rest\<close>

text \<open>Between the worlds nodes other than \<open>a\<close> dropped entries of partition \<open>p\<close> that the key set does not list.\<close>

definition pruned :: "bytes \<Rightarrow> nat \<Rightarrow> key_ref list \<Rightarrow> 'x world \<Rightarrow> 'x world \<Rightarrow> bool" where
  "pruned a p keys w w' \<longleftrightarrow> same_frame w w' \<and> w_node w' a = w_node w a \<and> (\<forall>b. store_inv (n_store (w_node w' b))) \<and>
     (\<forall>b q nm k. shard_lookup (n_store (w_node w' b) q) nm k = shard_lookup (n_store (w_node w b) q) nm k \<or>
        q = p \<and> (nm, k) \<notin> set keys \<and> shard_lookup (n_store (w_node w' b) q) nm k = None)"

lemma pruned_trans:
  assumes "pruned a p keys w w'" "pruned a p keys w' w''"
  shows "pruned a p keys w w''"
proof -
  have "shard_lookup (n_store (w_node w'' b) q) nm k = shard_lookup (n_store (w_node w b) q) nm k \<or>
        q = p \<and> (nm, k) \<notin> set keys \<and> shard_lookup (n_store (w_node w'' b) q) nm k = None" for b q nm k
    using assms unfolding pruned_def by metis
  with assms show ?thesis by (simp add: pruned_def same_frame_def)
qed

context network
begin

lemma reconcile_effect:
  assumes "sendReconcile send a addr p keys w = (r, w')" "p < Count"
  shows "w' = w \<or> w' = set_node addr (snd (pruneToKeysetLogged p (keep_of keys) (w_node w addr))) w"
proof -
  obtain r' where "send a addr (ReconcileReq (of_nat p) keys) w = (r', w')"
    using assms(1) by (auto simp: sendReconcile_def split: prod.splits sum.splits)
  from local_effect [OF _ this] show ?thesis
    using assms(2) by (auto simp: local_req_def node_handle_def u32_partition case_prod_beta split: if_splits)
qed

lemma reconcile_pruned:
  assumes "w' = snd (sendReconcile send a addr p keys w)" "p < Count" "addr \<noteq> a" "\<forall>b. store_inv (n_store (w_node w b))"
  shows "pruned a p keys w w'"
proof -
  let ?n = "snd (pruneToKeysetLogged p (keep_of keys) (w_node w addr))"
  have wf: "wf_store (n_store (w_node w b))" for b using assms(4) by (simp add: store_inv_def)
  have "store_inv (n_store ?n)" using store_step_inv [OF step_prune] assms(4) by simp
  with reconcile_effect [OF prod.collapse [symmetric] assms(2), of a addr keys w] assms(3,4) show ?thesis
    unfolding assms(1) pruned_def by (auto simp: same_frame_def pruneToKeyset_lookup [OF wf] kept_keep_of split: if_splits)
qed

lemma reconciles_pruned:
  assumes "w' = fold (\<lambda>addr w. snd (sendReconcile send a addr p keys w)) stale w" "p < Count" "a \<notin> set stale"
    "\<forall>b. store_inv (n_store (w_node w b))"
  shows "pruned a p keys w w'"
  using assms
proof (induction stale arbitrary: w)
  case (Cons x stale)
  let ?w = "snd (sendReconcile send a x p keys w)"
  from Cons.prems have 1: "pruned a p keys w ?w" by (intro reconcile_pruned) auto
  with Cons.IH [of ?w] Cons.prems have "pruned a p keys ?w w'" by (auto simp: pruned_def)
  with 1 show ?case by (rule pruned_trans)
qed (simp add: pruned_def)

end

context reliable
begin

lemma reconcile_reaches:
  assumes "w' = fold (\<lambda>addr w. snd (sendReconcile send a addr p keys w)) stale w" "p < Count" "a \<notin> set stale"
    "\<forall>b. store_inv (n_store (w_node w b))" "b \<in> set stale" "w_up w a b" "\<not> node_owns (w_node w b) p" "(nm, k) \<notin> set keys"
  shows "shard_lookup (n_store (w_node w' b) p) nm k = None"
  using assms
proof (induction stale arbitrary: w)
  case (Cons x stale)
  let ?w = "snd (sendReconcile send a x p keys w)"
  from Cons.prems have 1: "pruned a p keys w ?w" by (intro reconcile_pruned) auto
  from Cons.prems have w': "w' = fold (\<lambda>addr w. snd (sendReconcile send a addr p keys w)) stale ?w" by simp
  with 1 Cons.prems have 2: "pruned a p keys ?w w'" by (intro reconciles_pruned) (auto simp: pruned_def)
  show ?case
  proof (cases "x = b")
    case True
    have wf: "wf_store (n_store (w_node w b))" using Cons.prems(4) by (simp add: store_inv_def)
    have "send a b (ReconcileReq (of_nat p) keys) w =
        (Inr (ReconcileResp (of_nat (fst (pruneToKeysetLogged p (keep_of keys) (w_node w b))))),
         set_node b (snd (pruneToKeysetLogged p (keep_of keys) (w_node w b))) w)"
      using Cons.prems(2,6,7) by (subst reachable) (simp_all add: local_req_def node_handle_def u32_partition case_prod_beta)
    then have "shard_lookup (n_store (w_node ?w b) p) nm k = None"
      using Cons.prems(8) by (simp add: True sendReconcile_def pruneToKeyset_lookup [OF wf] kept_keep_of)
    with 2 show ?thesis unfolding pruned_def by metis
  next
    case False
    with Cons.prems 1 show ?thesis
      by (intro Cons.IH [OF w']) (auto simp: pruned_def same_frame_def node_owns_def)
  qed
qed simp

lemma sync_partition_reaches:
  assumes "sync_partition send a table (clock w a) p (pushed, w) = (pushed', w')" "p < Count" "OwnerOf table p = self_id w a"
    "own_address w a" "\<forall>b. store_inv (n_store (w_node w b))"
    "i < NumBackups table p" "BackupAt table p (int i) = (bid, True)" "bid \<noteq> self_id w a" "AddrOf bid (view w a) = Some b"
    "w_up w a b" "\<not> node_owns (w_node w b) p"
    "partitionDigest (clock w b) (n_store (w_node w b)) p \<noteq> partitionDigest (clock w a) (n_store (w_node w a)) p"
  shows "w_node w' a = w_node w a" "routedPartition nm k = p \<Longrightarrow> held w' b nm k =
    (case live (clock w a) (held w a nm k) of
       None \<Rightarrow> None
     | Some v \<Rightarrow> if lapsing (clock w a) (entry_of nm k v) then None
                else Some (pushed_value w b (v_data v) (remainingTTLms (v_expireAt v) (clock w a))))"
proof -
  let ?d = "partitionDigest (clock w a) (n_store (w_node w a)) p" and ?es = "to_transfer w a p" and ?now = "clock w a"
  let ?keys = "map (\<lambda>e. (e_mapName e, e_key e)) (filter (\<lambda>e. \<not> lapsing ?now e) ?es)"
  obtain stale w1 where st: "fold (probe_backup send a table p ?d) [0..<NumBackups table p] ([], w) = (stale, w1)" by fastforce
  note pw = probe_world [OF st]
  then have w1: "w1 = w" and na: "a \<notin> set stale" using assms(4) by (auto simp: peer_addr_def own_address_def)
  have b: "b \<in> set stale" using assms(6) by (intro probe_finds [OF st assms(2) _ assms(7-10) assms(12)]) simp
  obtain keys pushed1 w2 where f: "fold (sync_entry send a p ?now stale) ?es ([], pushed, w) = (keys, pushed1, w2)"
    by (metis prod_cases3)
  have inv: "store_inv (n_store (w_node w a))" using assms(5) by simp
  note se = sync_entries [OF f subset_refl inv refl na]
  then have keys: "keys = ?keys" and s: "spread a ?es ?now w w2" by simp_all
  have w': "w' = fold (\<lambda>addr w. snd (sendReconcile send a addr p keys w)) stale w2"
    using assms(1) b unfolding sync_partition_def prod.case Let_def st [unfolded w1] f by (simp add: assms(3) split: if_splits)
  have inv2: "\<forall>b. store_inv (n_store (w_node w2 b))" using spreadD(3) [OF s] assms(5) by simp
  note pr = reconciles_pruned [OF w' assms(2) na inv2]
  show "w_node w' a = w_node w a" using pr spreadD(2) [OF s] by (simp add: pruned_def)
  have owns2: "\<not> node_owns (w_node w2 b) p" "w_up w2 a b"
    using assms(10,11) spreadD(1) [OF s] by (simp_all add: node_owns_def same_frame_def)
  show "held w' b nm k =
    (case live ?now (held w a nm k) of
       None \<Rightarrow> None
     | Some v \<Rightarrow> if lapsing ?now (entry_of nm k v) then None
                else Some (pushed_value w b (v_data v) (remainingTTLms (v_expireAt v) ?now)))" if rp: "routedPartition nm k = p"
  proof (cases "(nm, k) \<in> set keys")
    case True
    then obtain e where e: "e \<in> set ?es" "\<not> lapsing ?now e" "e_mapName e = nm" "e_key e = k" by (auto simp: keys)
    with se b assms(10) have "copied ?now w2 b e" by blast
    then have "held w2 b nm k = Some (pushed_value w b (e_value e) (remainingTTLms (e_expireAt e) ?now))"
      using e spreadD(1) [OF s] by (simp add: copied_def pushed_value_def same_frame_def)
    moreover have "held w' b nm k = held w2 b nm k" using pr True unfolding pruned_def by metis
    moreover have "live ?now (held w a nm k) = Some \<lparr>v_data = e_value e, v_expireAt = e_expireAt e\<rparr>"
      using e transfer_entries(2) [OF inv, of e ?now p] rp by simp
    ultimately show ?thesis using e by (simp add: lapsing_def)
  next
    case False
    have "held w' b nm k = None"
      using reconcile_reaches [OF w' assms(2) na inv2 b owns2(2,1) False] rp by simp
    moreover have "lapsing ?now (entry_of nm k v)" if "live ?now (held w a nm k) = Some v" for v
    proof -
      from that have "entry_of nm k v \<in> set ?es" using transfer_entries(2) [OF inv, of "entry_of nm k v" ?now p] rp by simp
      with False show ?thesis unfolding keys by force
    qed
    ultimately show ?thesis by (simp split: option.split)
  qed
qed

end

section \<open>Convergence\<close>

text \<open>
  C7: Anti-entropy repairs a backup. When the owner synchronises a partition over working links, a backup
  whose digest differs from the owner's and that does not take itself for the owner afterwards holds, of
  that partition, exactly the owner's live entries, with the same values and the remaining time to live:
  what it had missed is there, what it had too much is gone. Entries with less than a millisecond to live
  are dropped. The owner itself does not change.
\<close>

theorem sync_converges:
  fixes w :: "'x world"
  assumes "sync_partition net a table (clock w a) p (pushed, w) = (pushed', w')" "p < Count" "OwnerOf table p = self_id w a"
    "own_address w a" "\<forall>b. store_inv (n_store (w_node w b))"
    "i < NumBackups table p" "BackupAt table p (int i) = (bid, True)" "bid \<noteq> self_id w a" "AddrOf bid (view w a) = Some b"
    "w_up w a b" "\<not> node_owns (w_node w b) p"
    "partitionDigest (clock w b) (n_store (w_node w b)) p \<noteq> partitionDigest (clock w a) (n_store (w_node w a)) p"
  shows "w_node w' a = w_node w a \<and> (\<forall>nm k. routedPartition nm k = p \<longrightarrow> held w' b nm k =
    (case live (clock w a) (held w a nm k) of
       None \<Rightarrow> None
     | Some v \<Rightarrow> if lapsing (clock w a) (entry_of nm k v) then None
                else Some (pushed_value w b (v_data v) (remainingTTLms (v_expireAt v) (clock w a)))))"
  using cluster_net.sync_partition_reaches [OF assms] by blast

theorem sync_converges_witness:
  "held (snd (sync_partition net [10] (NewTable [[1], [2]] 1) 1 (For [2]) (0, demo_pair))) [20] [1] [2] =
    Some \<lparr>v_data = [3], v_expireAt = 0\<rparr>"
proof -
  let ?t = "NewTable [[1], [2]] 1" and ?p = "For [2]"
  have rp: "routedPartition [1] [2] = ?p" by (simp add: routedPartition_def queueSegMap_def str_def)
  have clk: "clock demo_pair [10] = 1" by (simp add: demo_pair_sel)
  have own: "OwnerOf ?t ?p = self_id demo_pair [10]" "NumBackups ?t ?p > 0" "BackupAt ?t ?p (int 0) = ([2], True)"
    by (simp_all add: demo_pair_sel OwnerOf_ranking BackupAt_ranking NumBackups_eq demo_ranking demo_view_members demo_self_def)
  have "\<not> node_owns (w_node demo_pair [20]) ?p"
    by (simp add: node_owns_def demo_pair_sel demo_tables OwnerOf_ranking demo_ranking demo_peer_members demo_peer_def)
  moreover have "partitionDigest (clock demo_pair [20]) (n_store (w_node demo_pair [20])) ?p \<noteq>
      partitionDigest (clock demo_pair [10]) (n_store (w_node demo_pair [10])) ?p"
    unfolding demo_pair_sel by code_simp
  ultimately have "w_node (snd (sync_partition net [10] ?t (clock demo_pair [10]) ?p (0, demo_pair))) [10] = w_node demo_pair [10] \<and>
      (\<forall>nm k. routedPartition nm k = ?p \<longrightarrow> held (snd (sync_partition net [10] ?t (clock demo_pair [10]) ?p (0, demo_pair))) [20] nm k =
        (case live (clock demo_pair [10]) (held demo_pair [10] nm k) of None \<Rightarrow> None
         | Some v \<Rightarrow> if lapsing (clock demo_pair [10]) (entry_of nm k v) then None
             else Some (pushed_value demo_pair [20] (v_data v) (remainingTTLms (v_expireAt v) (clock demo_pair [10])))))"
    using own demo_inv
    by (intro sync_converges [OF prod.collapse [symmetric], where i = 0 and bid = "[2]"])
       (auto simp: demo_pair_sel own_address_def demo_addrs demo_view_members demo_self_def store_inv_def newStore_inv split: if_splits)
  then have "held (snd (sync_partition net [10] ?t 1 ?p (0, demo_pair))) [20] [1] [2] =
      (case live 1 (held demo_pair [10] [1] [2]) of None \<Rightarrow> None
         | Some v \<Rightarrow> if lapsing 1 (entry_of [1] [2] v) then None
             else Some (pushed_value demo_pair [20] (v_data v) (remainingTTLms (v_expireAt v) 1)))"
    unfolding clk using rp by blast
  then show ?thesis
    by (simp add: demo_pair_sel demo_lookup live_def expired_def lapsing_def remainingTTLms_def pushed_value_def expireFromTTL_def)
qed

end
