(* ===== verification/Gather.thy ===== *)
theory Gather
  imports Replication
begin

text \<open>
  The whole-map queries \<open>Size\<close> and \<open>Aggregate\<close> of \<open>imap/map.go\<close> on a cluster whose members can be
  reached and agree on the partition table: every live entry is counted and aggregated once, at the
  owner of its partition, however many backups hold copies of it.
\<close>

section \<open>The values of a map\<close>

text \<open>A node reaches every member, and each of them knows who it is and routes by the same table.\<close>

definition healthy :: "'x world \<Rightarrow> bytes \<Rightarrow> bool" where
  "healthy w a \<longleftrightarrow> mem_inv (view w a) \<and> m_Addr (mem_self (view w a)) = a \<and>
     (\<forall>m \<in> set (Members (view w a)). w_up w a (m_Addr m) \<and> self_id w (m_Addr m) = m_ID m \<and>
        mem_table (view w (m_Addr m)) = mem_table (view w a))"

definition values_at :: "'x world \<Rightarrow> bytes \<Rightarrow> bytes \<Rightarrow> nat \<Rightarrow> bytes list" where
  "values_at w name addr p =
     map (\<lambda>(k, v). v_data v) (filter (\<lambda>(k, v). \<not> expired v (clock w addr)) (bucket (n_store (w_node w addr) p) name))"

text \<open>The live values of a map in the grid: those that the owner of each partition has.\<close>

definition grid_values :: "'x world \<Rightarrow> bytes \<Rightarrow> bytes \<Rightarrow> bytes list" where
  "grid_values w a name =
     concat (map (\<lambda>p. case AddrOf (OwnerOf (mem_table (view w a)) p) (view w a) of
                          None \<Rightarrow> [] | Some addr \<Rightarrow> values_at w name addr p) [0..<Count])"

definition member_values :: "'x world \<Rightarrow> bytes \<Rightarrow> bytes \<Rightarrow> bytes list" where
  "member_values w name addr = collectOwnedValues (clock w addr) name (node_owns (w_node w addr)) (n_store (w_node w addr))"

lemma countMap_length: "countMap now name owned s = length (collectOwnedValues now name owned s)"
  by (simp add: countMap_def collectOwnedValues_def length_concat comp_def)

lemma mset_concat_add: "mset (concat (map (\<lambda>x. f x @ g x) xs)) = mset (concat (map f xs)) + mset (concat (map g xs))"
  by (induction xs) simp_all

lemma mset_concat_swap:
  "mset (concat (map (\<lambda>x. concat (map (h x) ys)) xs)) = mset (concat (map (\<lambda>y. concat (map (\<lambda>x. h x y) xs)) ys))"
proof (induction xs)
  case (Cons x xs)
  then show ?case by (simp add: mset_concat_add)
qed (induction ys; simp)

lemma concat_unique:
  assumes "distinct (map g xs)"
  shows "concat (map (\<lambda>x. if k = g x then V x else []) xs) =
    (case map_of (map (\<lambda>x. (g x, x)) xs) k of None \<Rightarrow> [] | Some x \<Rightarrow> V x)"
  using assms
proof (induction xs)
  case (Cons x xs)
  then have "k = g x \<Longrightarrow> map_of (map (\<lambda>x. (g x, x)) xs) k = None" by (auto simp: map_of_eq_None_iff)
  with Cons show ?case by auto
qed simp

lemma option_eqI: "(\<And>x. a = Some x \<longleftrightarrow> b = Some x) \<Longrightarrow> a = b"
  by (cases a; cases b) auto

lemma Members_lookup:
  assumes "mem_inv m"
  shows "distinct (map m_ID (Members m))" "map_of (map (\<lambda>x. (m_ID x, x)) (Members m)) = map_of (mem_members m)"
    "x \<in> set (Members m) \<longleftrightarrow> map_of (mem_members m) (m_ID x) = Some x"
proof -
  from assms have d: "distinct (map fst (mem_members m))" by (simp add: mem_inv_def wf_map_def)
  have ids: "\<forall>p \<in> set (mem_members m). fst p = m_ID (snd p)"
    using assms d by (auto simp: mem_inv_def)
  have "map m_ID (map snd (mem_members m)) = map fst (mem_members m)" using ids by simp
  then have ds: "distinct (map m_ID (map snd (mem_members m)))" using d by (simp only:)
  have ms: "mset (Members m) = mset (map snd (mem_members m))" by (simp add: Members_def)
  then have "mset (map m_ID (Members m)) = mset (map m_ID (map snd (mem_members m)))" by (simp only: mset_map)
  with ds show dm: "distinct (map m_ID (Members m))" by (metis mset_eq_imp_distinct_iff)
  show mem: "x \<in> set (Members m) \<longleftrightarrow> map_of (mem_members m) (m_ID x) = Some x" for x
  proof -
    have "x \<in> set (Members m) \<longleftrightarrow> x \<in> snd ` set (mem_members m)" by (simp add: Members_def)
    also have "\<dots> \<longleftrightarrow> (m_ID x, x) \<in> set (mem_members m)" using ids by force
    finally show ?thesis using d by simp
  qed
  show "map_of (map (\<lambda>x. (m_ID x, x)) (Members m)) = map_of (mem_members m)"
  proof
    fix i
    have "map_of (map (\<lambda>x. (m_ID x, x)) (Members m)) i = Some x \<longleftrightarrow> x \<in> set (Members m) \<and> m_ID x = i" for x
      using dm by (subst map_of_eq_Some_iff) (auto simp: comp_def)
    then have "map_of (map (\<lambda>x. (m_ID x, x)) (Members m)) i = Some x \<longleftrightarrow> map_of (mem_members m) i = Some x" for x
      using mem [of x] assms by (auto simp: mem_inv_def)
    then show "map_of (map (\<lambda>x. (m_ID x, x)) (Members m)) i = map_of (mem_members m) i"
      by (rule option_eqI)
  qed
qed

lemma member_values_grid:
  assumes "healthy w a"
  shows "mset (concat (map (\<lambda>m. member_values w name (m_Addr m)) (Members (view w a)))) = mset (grid_values w a name)"
proof -
  let ?ms = "Members (view w a)" and ?o = "\<lambda>p. OwnerOf (mem_table (view w a)) p"
  from assms have inv: "mem_inv (view w a)" by (simp add: healthy_def)
  have filt: "concat (map f (filter P xs)) = concat (map (\<lambda>p. if P p then f p else []) xs)" for f :: "nat \<Rightarrow> bytes list" and P xs
    by (induction xs) simp_all
  have "member_values w name (m_Addr m) = concat (map (\<lambda>p. if ?o p = m_ID m then values_at w name (m_Addr m) p else []) [0..<Count])"
    if "m \<in> set ?ms" for m
    using assms that by (simp add: member_values_def collectOwnedValues_def filt values_at_def node_owns_def healthy_def cong: if_cong)
  then have "concat (map (\<lambda>m. member_values w name (m_Addr m)) ?ms) =
      concat (map (\<lambda>m. concat (map (\<lambda>p. if ?o p = m_ID m then values_at w name (m_Addr m) p else []) [0..<Count])) ?ms)"
    by (intro arg_cong [where f = concat] map_cong refl)
  also have "mset \<dots> = mset (concat (map (\<lambda>p. concat (map (\<lambda>m. if ?o p = m_ID m then values_at w name (m_Addr m) p else []) ?ms)) [0..<Count]))"
    by (rule mset_concat_swap)
  also have "(\<lambda>p. concat (map (\<lambda>m. if ?o p = m_ID m then values_at w name (m_Addr m) p else []) ?ms)) =
      (\<lambda>p. case AddrOf (?o p) (view w a) of None \<Rightarrow> [] | Some addr \<Rightarrow> values_at w name addr p)"
    unfolding concat_unique [OF Members_lookup(1) [OF inv]] Members_lookup(2) [OF inv] AddrOf_def
    by (auto simp: fun_eq_iff split: option.split)
  finally show ?thesis by (simp add: grid_values_def)
qed

text \<open>What a member answers, asked locally or over the network.\<close>

lemma self_member: "healthy w a \<Longrightarrow> m \<in> set (Members (view w a)) \<Longrightarrow> m_ID m = self_id w a \<Longrightarrow> m_Addr m = a"
  by (auto simp: healthy_def Members_lookup(3) mem_inv_def)

lemma owns_node: "owns w a = node_owns (w_node w a)"
  by (simp add: owns_def node_owns_def fun_eq_iff)

lemma size_member_healthy:
  assumes "healthy w a" "m \<in> set (Members (view w a))"
  shows "size_member net a name m ((tot, err), w) = ((tot + of_nat (length (member_values w name (m_Addr m))), err), w)"
proof (cases "m_ID m = self_id w a")
  case True
  then show ?thesis
    by (simp add: size_member_def localMapSize_def member_values_def countMap_length owns_node self_member [OF assms True])
next
  case False
  have "w_up w a (m_Addr m)" using assms by (simp add: healthy_def)
  then have "sendSize net a (m_Addr m) name w = (Inr (of_nat (length (member_values w name (m_Addr m)))), w)"
    by (simp add: sendSize_def cluster_net.reachable local_req_def node_handle_def member_values_def countMap_length)
  with False show ?thesis by (simp add: size_member_def)
qed

lemma aggregate_member_healthy:
  assumes "healthy w a" "m \<in> set (Members (view w a))" "lookupAggregator (n_aggs (w_node w (m_Addr m))) aggName = Some agg"
  shows "aggregate_loop net a name aggName (m # ms) partials err w =
    aggregate_loop net a name aggName ms (partials @ [agg_Reduce agg (member_values w name (m_Addr m))]) err w"
proof (cases "m_ID m = self_id w a")
  case True
  with assms(3) show ?thesis
    by (simp add: localAggregate_def member_values_def owns_node self_member [OF assms(1,2) True])
next
  case False
  have "w_up w a (m_Addr m)" using assms by (simp add: healthy_def)
  with assms(3) have "sendAggregate net a (m_Addr m) name aggName w = (Inr (agg_Reduce agg (member_values w name (m_Addr m))), w)"
    by (simp add: sendAggregate_def cluster_net.reachable local_req_def node_handle_def member_values_def)
  with False show ?thesis by simp
qed

section \<open>Size and Aggregate\<close>

text \<open>
  C8: On a healthy cluster \<open>Size\<close> returns the number of live entries of the map in the whole grid, counted
  modulo 2^64: each partition is counted at its owner and nowhere else, so copies on backups and stale
  copies on former owners do not count. It reports no error and changes nothing.
\<close>

theorem size_counts_once:
  fixes w :: "'x world"
  assumes "healthy w a"
  shows "Map_Size net a name w = ((of_nat (length (grid_values w a name)), None), w)"
proof -
  have "fold (size_member net a name) ms ((tot, err), w) =
      ((tot + of_nat (length (concat (map (\<lambda>m. member_values w name (m_Addr m)) ms))), err), w)"
    if "set ms \<subseteq> set (Members (view w a))" for ms tot err
    using that by (induction ms arbitrary: tot) (simp_all add: size_member_healthy [OF assms] add.assoc)
  then show ?thesis
    unfolding Map_Size_def using arg_cong [OF member_values_grid [OF assms], of size name] by simp
qed

lemma demo_pair_healthy: "healthy demo_pair [10]"
proof -
  have "mem_inv demo_view" by (rule mem_reach_inv [OF demo_view_reach])
  then show ?thesis
    by (auto simp: healthy_def demo_pair_sel Members_lookup(3) demo_view_members demo_tables demo_self_def demo_peer_members demo_peer_def
        split: if_splits)
qed

theorem size_counts_once_witness:
  "healthy demo_pair [10] \<and> Map_Size net [10] [1] demo_pair = ((of_nat (length (grid_values demo_pair [10] [1])), None), demo_pair)"
  using size_counts_once [OF demo_pair_healthy] demo_pair_healthy by simp

text \<open>
  C9: On a healthy cluster whose members have registered the same built-in aggregator, \<open>Aggregate\<close> returns
  the reduction of all live values of the map in the grid, as if they were in one place, without error.
\<close>

theorem aggregate_grid:
  fixes w :: "'x world"
  assumes "healthy w a" "(aggName, agg) \<in> set aggregators"
    "\<forall>m \<in> set (Members (view w a)). lookupAggregator (n_aggs (w_node w (m_Addr m))) aggName = Some agg"
  shows "Map_Aggregate net a name aggName w = (Inr (agg_Reduce agg (grid_values w a name), None), w)"
proof -
  let ?parts = "\<lambda>ms. map (\<lambda>m. agg_Reduce agg (member_values w name (m_Addr m))) ms"
  have loop: "aggregate_loop net a name aggName ms ps err w = (Inr (ps @ ?parts ms, err), w)"
    if "set ms \<subseteq> set (Members (view w a))" for ms ps err
    using that
  proof (induction ms arbitrary: ps)
    case (Cons m ms)
    then have "aggregate_loop net a name aggName (m # ms) ps err w =
        aggregate_loop net a name aggName ms (ps @ [agg_Reduce agg (member_values w name (m_Addr m))]) err w"
      using assms(3) by (intro aggregate_member_healthy [OF assms(1)]) auto
    with Cons show ?case by simp
  qed simp
  have "agg_Combine agg (map (agg_Reduce agg) (map (\<lambda>m. member_values w name (m_Addr m)) (Members (view w a)))) =
      agg_Reduce agg (grid_values w a name)"
    using builtin_mergeable [OF assms(2)] member_values_grid [OF assms(1)] by (rule mergeable.merge_any_grouping)
  moreover have "lookupAggregator (n_aggs (w_node w a)) aggName = Some agg"
  proof -
    from assms(1) have "mem_self (view w a) \<in> set (Members (view w a))" "m_Addr (mem_self (view w a)) = a"
      by (auto simp: healthy_def Members_lookup(3) mem_inv_def)
    with assms(3) show ?thesis by force
  qed
  ultimately show ?thesis by (simp add: Map_Aggregate_def loop comp_def)
qed

definition demo_aggs :: "unit world" where
  "demo_aggs = demo_pair\<lparr>w_node := \<lambda>a. (w_node demo_pair a)\<lparr>n_aggs := aggregators\<rparr>\<rparr>"

theorem aggregate_grid_witness:
  "Map_Aggregate net [10] [1] (str ''count'') demo_aggs =
    (Inr (agg_Reduce countAgg (grid_values demo_aggs [10] [1]), None), demo_aggs)"
proof (rule aggregate_grid)
  show "healthy demo_aggs [10]" using demo_pair_healthy by (simp add: healthy_def demo_aggs_def)
  show "(str ''count'', countAgg) \<in> set aggregators" by (simp add: aggregators_def)
  show "\<forall>m \<in> set (Members (view demo_aggs [10])). lookupAggregator (n_aggs (w_node demo_aggs (m_Addr m))) (str ''count'') = Some countAgg"
    by (simp add: demo_aggs_def lookupAggregator_def aggregators_def)
qed

end
