(* ===== verification/GoText.thy ===== *)
theory GoText
  imports Prelude
begin

text \<open>
  The part of Go's standard library on text that the front ends use: decimal numbers (\<open>strconv\<close>),
  trimming and splitting (\<open>strings\<close>), host and port (\<open>net\<close>) and durations (\<open>time.ParseDuration\<close>).

  The fraction of a duration is computed here in exact arithmetic, in Go in \<open>float64\<close>.
\<close>

section \<open>Decimal numbers\<close>

definition is_digit :: "byte \<Rightarrow> bool" where
  "is_digit c \<longleftrightarrow> 48 \<le> c \<and> c \<le> 57"

fun FormatUint :: "nat \<Rightarrow> bytes" where
  "FormatUint n = (if n < 10 then [48 + of_nat n] else FormatUint (n div 10) @ [48 + of_nat (n mod 10)])"

declare FormatUint.simps [simp del]

definition FormatInt :: "int \<Rightarrow> bytes" where
  "FormatInt i = (if i < 0 then 45 # FormatUint (nat (- i)) else FormatUint (nat i))"

definition FormatBool :: "bool \<Rightarrow> bytes" where
  "FormatBool b = (if b then str ''true'' else str ''false'')"

definition digit_value :: "byte \<Rightarrow> int" where
  "digit_value c = uint (c - 48)"

definition digits_value :: "bytes \<Rightarrow> int" where
  "digits_value ds = foldl (\<lambda>v c. v * 10 + digit_value c) 0 ds"

datatype atoi_error = ErrSyntax | ErrRange

text \<open>\<open>Atoi\<close> returns a number also with an error: 0 on a syntax error, the nearest bound on overflow.\<close>

definition Atoi :: "bytes \<Rightarrow> int \<times> atoi_error option" where
  "Atoi s =
     (let (neg, ds) = (case s of
            [] \<Rightarrow> (False, [])
          | c # r \<Rightarrow> if c = 45 then (True, r) else if c = 43 then (False, r) else (False, s))
      in if ds = [] \<or> \<not> list_all is_digit ds then (0, Some ErrSyntax)
         else let v = digits_value ds
              in if neg then (if v > 2 ^ 63 then (- (2 ^ 63), Some ErrRange) else (- v, None))
                 else if v \<ge> 2 ^ 63 then (2 ^ 63 - 1, Some ErrRange) else (v, None))"

text \<open>The conversion of an \<open>int\<close> to an \<open>int32\<close>.\<close>

definition wrap32 :: "int \<Rightarrow> int" where
  "wrap32 x = (x + 2 ^ 31) mod 2 ^ 32 - 2 ^ 31"

lemma digit_of_nat: "n < 10 \<Longrightarrow> is_digit (48 + of_nat n) \<and> digit_value (48 + of_nat n) = int n"
proof -
  assume n: "n < 10"
  then have "unat (48 + of_nat n :: byte) = 48 + n" by (simp add: unat_word_ariths unat_of_nat)
  with n show ?thesis by (simp add: is_digit_def digit_value_def word_le_nat_alt unat_of_nat uint_nat)
qed

lemma FormatUint_read:
  "FormatUint n \<noteq> [] \<and> list_all is_digit (FormatUint n) \<and> digits_value (FormatUint n) = int n"
proof (induction n rule: FormatUint.induct)
  case (1 n)
  show ?case
  proof (cases "n < 10")
    case True
    with digit_of_nat [OF True] show ?thesis by (subst (1 2 3) FormatUint.simps) (simp add: digits_value_def)
  next
    case False
    have "n mod 10 < 10" and d: "int (n div 10) * 10 + int (n mod 10) = int n" by simp_all presburger
    from digit_of_nat [OF this(1)] 1 [OF False] False show ?thesis
      by (subst (1 2 3) FormatUint.simps) (simp add: digits_value_def d)
  qed
qed

lemma not_digit [simp]: "\<not> is_digit 45" "\<not> is_digit 43" "\<not> is_digit 58" "\<not> is_digit 91" "\<not> is_digit 93"
  by (simp_all add: is_digit_def)

lemma FormatUint_hd: "\<exists>c r. FormatUint n = c # r \<and> is_digit c"
  using FormatUint_read [of n] by (cases "FormatUint n") auto

lemma Atoi_FormatInt: "int64_range i \<Longrightarrow> Atoi (FormatInt i) = (i, None)"
proof -
  assume i: "int64_range i"
  obtain c r where c: "FormatUint (nat i) = c # r" "is_digit c" using FormatUint_hd by blast
  then have "c \<noteq> 45" "c \<noteq> 43" by auto
  with c i FormatUint_read [of "nat i"] FormatUint_read [of "nat (- i)"] show ?thesis
    by (auto simp: Atoi_def FormatInt_def int64_range_def)
qed

lemma wrap32_id [simp]: "- (2 ^ 31) \<le> x \<Longrightarrow> x < 2 ^ 31 \<Longrightarrow> wrap32 x = x"
  by (simp add: wrap32_def)

section \<open>Trimming and splitting\<close>

text \<open>The white space of \<open>unicode.IsSpace\<close> in UTF-8.\<close>

definition spaces :: "bytes list" where
  "spaces = [[9], [10], [11], [12], [13], [32], [0xC2, 0x85], [0xC2, 0xA0], [0xE1, 0x9A, 0x80]] @
     map (\<lambda>c. [0xE2, 0x80, c]) [0x80, 0x81, 0x82, 0x83, 0x84, 0x85, 0x86, 0x87, 0x88, 0x89, 0x8A, 0xA8, 0xA9, 0xAF] @
     [[0xE2, 0x81, 0x9F], [0xE3, 0x80, 0x80]]"

function trim_left :: "bytes list \<Rightarrow> bytes \<Rightarrow> bytes" where
  "trim_left ps s =
     (case find (\<lambda>p. p \<noteq> [] \<and> take (length p) s = p) ps of
        None \<Rightarrow> s | Some p \<Rightarrow> trim_left ps (drop (length p) s))"
  by pat_completeness auto
termination
proof (relation "measure (\<lambda>(ps, s). length s)")
  fix ps s p
  assume "find (\<lambda>p. p \<noteq> [] \<and> take (length p) s = p) ps = Some p"
  then have "p \<noteq> []" "take (length p) s = p" by (auto simp: find_Some_iff)
  then have "s \<noteq> []" by auto
  with \<open>p \<noteq> []\<close> show "((ps, drop (length p) s), (ps, s)) \<in> measure (\<lambda>(ps, s). length s)" by simp
qed simp

declare trim_left.simps [simp del]

definition TrimSpace :: "bytes \<Rightarrow> bytes" where
  "TrimSpace s = rev (trim_left (map rev spaces) (rev (trim_left spaces s)))"

fun Split :: "byte \<Rightarrow> bytes \<Rightarrow> bytes list" where
  "Split sep [] = [[]]"
| "Split sep (c # s) =
     (if c = sep then [] # Split sep s
      else case Split sep s of [] \<Rightarrow> [[c]] | p # ps \<Rightarrow> (c # p) # ps)"

definition CutPrefix :: "bytes \<Rightarrow> bytes \<Rightarrow> bytes \<times> bool" where
  "CutPrefix s p = (if take (length p) s = p then (drop (length p) s, True) else (s, False))"

section \<open>Host and port\<close>

definition JoinHostPort :: "bytes \<Rightarrow> bytes \<Rightarrow> bytes" where
  "JoinHostPort host port = (if 58 \<in> set host then [91] @ host @ [93, 58] @ port else host @ [58] @ port)"

definition IndexByte :: "bytes \<Rightarrow> byte \<Rightarrow> nat option" where
  "IndexByte s c = (if c \<in> set s then Some (length (takeWhile (\<lambda>x. x \<noteq> c) s)) else None)"

definition LastIndexByte :: "bytes \<Rightarrow> byte \<Rightarrow> nat option" where
  "LastIndexByte s c = map_option (\<lambda>i. length s - 1 - i) (IndexByte (rev s) c)"

datatype addr_error = MissingPort | TooManyColons | MissingBracket | UnexpectedOpen | UnexpectedClose

text \<open>The checks that follow the separation: no bracket from position \<open>j\<close> (opening) and \<open>k\<close> (closing) on.\<close>

definition split_checked :: "bytes \<Rightarrow> bytes \<Rightarrow> nat \<Rightarrow> nat \<Rightarrow> nat \<Rightarrow> addr_error + bytes \<times> bytes" where
  "split_checked hostport host i j k =
     (if 91 \<in> set (drop j hostport) then Inl UnexpectedOpen
      else if 93 \<in> set (drop k hostport) then Inl UnexpectedClose
      else Inr (host, drop (i + 1) hostport))"

definition SplitHostPort :: "bytes \<Rightarrow> addr_error + bytes \<times> bytes" where
  "SplitHostPort hostport =
     (case LastIndexByte hostport 58 of
        None \<Rightarrow> Inl MissingPort
      | Some i \<Rightarrow>
          if take 1 hostport = [91] then
            (case IndexByte hostport 93 of
               None \<Rightarrow> Inl MissingBracket
             | Some e \<Rightarrow>
                 if e + 1 = length hostport then Inl MissingPort
                 else if e + 1 = i then split_checked hostport (take (e - 1) (drop 1 hostport)) i 1 (e + 1)
                 else if hostport ! (e + 1) = 58 then Inl TooManyColons else Inl MissingPort)
          else let host = take i hostport
               in if 58 \<in> set host then Inl TooManyColons else split_checked hostport host i 0 0)"

lemma IndexByte_append: "c \<notin> set xs \<Longrightarrow> IndexByte (xs @ c # ys) c = Some (length xs)"
proof -
  assume "c \<notin> set xs"
  then have "takeWhile (\<lambda>x. x \<noteq> c) xs = xs" by (auto simp: takeWhile_eq_all_conv)
  then show ?thesis by (simp add: IndexByte_def takeWhile_tail)
qed

lemma LastIndexByte_append: "c \<notin> set ys \<Longrightarrow> LastIndexByte (xs @ c # ys) c = Some (length xs)"
  by (simp add: LastIndexByte_def IndexByte_append)

text \<open>
  Joining and splitting are inverse: whatever host, a name, an IPv4 or an IPv6 address, the pair can
  be read back, as long as neither part has a bracket and the port has no colon.
\<close>

lemma SplitHostPort_Join:
  assumes "91 \<notin> set host" "93 \<notin> set host" "58 \<notin> set port" "91 \<notin> set port" "93 \<notin> set port"
  shows "SplitHostPort (JoinHostPort host port) = Inr (host, port)"
proof (cases "58 \<in> set host")
  case True
  have "LastIndexByte ((91 # host @ [93]) @ 58 # port) 58 = Some (length host + 2)"
    using assms(3) by (subst LastIndexByte_append) simp_all
  moreover have "IndexByte ((91 # host) @ 93 # 58 # port) 93 = Some (length host + 1)"
    using assms(2) by (subst IndexByte_append) simp_all
  ultimately show ?thesis
    using True assms by (simp add: SplitHostPort_def JoinHostPort_def split_checked_def)
next
  case False
  have "LastIndexByte (host @ 58 # port) 58 = Some (length host)" by (rule LastIndexByte_append [OF assms(3)])
  moreover have "take 1 (host @ 58 # port) \<noteq> [91]" using assms(1) by (cases host) auto
  ultimately show ?thesis
    using False assms by (simp add: SplitHostPort_def JoinHostPort_def split_checked_def)
qed

section \<open>Durations\<close>

datatype duration_error = InvalidDuration | MissingUnit | UnknownUnit

definition unitMap :: "(bytes \<times> int) list" where
  "unitMap =
     [(str ''ns'', 1), (str ''us'', 1000), ([0xC2, 0xB5, 115], 1000), ([0xCE, 0xBC, 115], 1000), (str ''ms'', 1000000),
      (str ''s'', 1000000000), (str ''m'', 60000000000), (str ''h'', 3600000000000)]"

fun leadingInt :: "int \<Rightarrow> bytes \<Rightarrow> (int \<times> bytes) option" where
  "leadingInt x [] = Some (x, [])"
| "leadingInt x (c # s) =
     (if \<not> is_digit c then Some (x, c # s)
      else if x > 2 ^ 63 div 10 then None
      else let y = x * 10 + digit_value c in if y > 2 ^ 63 then None else leadingInt y s)"

fun leadingFraction :: "int \<Rightarrow> int \<Rightarrow> bool \<Rightarrow> bytes \<Rightarrow> int \<times> int \<times> bytes" where
  "leadingFraction x scale overflow [] = (x, scale, [])"
| "leadingFraction x scale overflow (c # s) =
     (if \<not> is_digit c then (x, scale, c # s)
      else if overflow \<or> x > (2 ^ 63 - 1) div 10 then leadingFraction x scale True s
      else let y = x * 10 + digit_value c
           in if y > 2 ^ 63 then leadingFraction x scale True s else leadingFraction y (scale * 10) False s)"

definition unit_char :: "byte \<Rightarrow> bool" where
  "unit_char c \<longleftrightarrow> c \<noteq> 46 \<and> \<not> is_digit c"

text \<open>The optional fraction: its digits, their scale, whether there were any, and the rest.\<close>

definition fraction_part :: "bytes \<Rightarrow> int \<times> int \<times> bool \<times> bytes" where
  "fraction_part s =
     (if s \<noteq> [] \<and> hd s = 46
      then (case leadingFraction 0 1 False (tl s) of (f, scale, r) \<Rightarrow> (f, scale, length r \<noteq> length (tl s), r))
      else (0, 1, False, s))"

text \<open>One number with its unit: its value in nanoseconds and the rest of the input.\<close>

definition duration_part :: "bytes \<Rightarrow> duration_error + int \<times> bytes" where
  "duration_part s =
     (if s = [] \<or> \<not> (hd s = 46 \<or> is_digit (hd s)) then Inl InvalidDuration
      else case leadingInt 0 s of
        None \<Rightarrow> Inl InvalidDuration
      | Some (v, s1) \<Rightarrow>
          let pre = (length s1 \<noteq> length s);
              (f, scale, post, s2) = fraction_part s1;
              u = takeWhile unit_char s2
          in if \<not> pre \<and> \<not> post then Inl InvalidDuration
             else if u = [] then Inl MissingUnit
             else (case map_of unitMap u of
                    None \<Rightarrow> Inl UnknownUnit
                  | Some unit \<Rightarrow>
                      if v > 2 ^ 63 div unit then Inl InvalidDuration
                      else let v' = v * unit + (if f > 0 then f * unit div scale else 0)
                           in if f > 0 \<and> v' > 2 ^ 63 then Inl InvalidDuration
                              else Inr (v', dropWhile unit_char s2)))"

lemma leadingInt_shorter: "leadingInt x s = Some (v, r) \<Longrightarrow> length r \<le> length s"
  by (induction s arbitrary: x) (auto simp: Let_def intro: le_SucI split: if_splits)

lemma leadingFraction_shorter: "leadingFraction x sc ov s = (f, sc', r) \<Longrightarrow> length r \<le> length s"
  by (induction s arbitrary: x sc ov) (auto simp: Let_def intro: le_SucI split: if_splits)

lemma fraction_part_shorter: "fraction_part s = (f, sc, post, r) \<Longrightarrow> length r \<le> length s"
  by (auto simp: fraction_part_def split: if_splits prod.splits dest!: leadingFraction_shorter)

lemma duration_part_shorter:
  assumes "duration_part s = Inr (v, r)"
  shows "length r < length s"
proof -
  obtain x s1 where 1: "leadingInt 0 s = Some (x, s1)"
    using assms by (auto simp: duration_part_def split: if_splits option.splits)
  obtain f sc post s2 where 2: "fraction_part s1 = (f, sc, post, s2)" by (metis prod_cases4)
  have "length s1 \<le> length s" by (rule leadingInt_shorter [OF 1])
  moreover have "length s2 \<le> length s1" by (rule fraction_part_shorter [OF 2])
  moreover have r: "r = dropWhile unit_char s2" and u: "takeWhile unit_char s2 \<noteq> []"
    using assms by (auto simp: duration_part_def 1 2 Let_def split: if_splits option.splits)
  moreover have "length r < length s2"
    using u arg_cong [OF takeWhile_dropWhile_id [of unit_char s2], of length] unfolding r by (simp del: takeWhile_dropWhile_id flip: length_greater_0_conv)
  ultimately show ?thesis by simp
qed

function duration_loop :: "int \<Rightarrow> bytes \<Rightarrow> duration_error + int" where
  "duration_loop d s =
     (if s = [] then Inr d
      else case duration_part s of
        Inl e \<Rightarrow> Inl e
      | Inr (v, r) \<Rightarrow>
          let d' = (d + v) mod 2 ^ 64 in if d' > 2 ^ 63 then Inl InvalidDuration else duration_loop d' r)"
  by pat_completeness auto
termination
  by (relation "measure (\<lambda>(d, s). length s)") (auto dest: duration_part_shorter)

declare duration_loop.simps [simp del]

definition ParseDuration :: "bytes \<Rightarrow> duration_error + int" where
  "ParseDuration s0 =
     (let (neg, s) = (case s0 of [] \<Rightarrow> (False, []) | c # r \<Rightarrow> if c = 45 \<or> c = 43 then (c = 45, r) else (False, s0))
      in if s = [48] then Inr 0
         else if s = [] then Inl InvalidDuration
         else case duration_loop 0 s of
                Inl e \<Rightarrow> Inl e
              | Inr d \<Rightarrow>
                  if neg then Inr (wrap64 (- d))
                  else if d > 2 ^ 63 - 1 then Inl InvalidDuration else Inr d)"

end
