(* ===== verification/Command.thy ===== *)
theory Command
  imports Medusa GoText
begin

text \<open>
  Peer discovery (\<open>discovery/discovery.go\<close>) and the node command (\<open>cmd/medusa-node/main.go\<close>): how the
  environment becomes a configuration, and what start and stop of the process do to the node.

  What is outside the program is an argument: the environment (\<open>getenv\<close>, empty for an unset variable),
  the host name, the resolver, the files of certificates and what \<open>crypto/tls\<close> and \<open>crypto/x509\<close> make
  of them. Logging, the HTTP server's timeouts and signals are left out.
\<close>

section \<open>Discovery\<close>

datatype Discoverer = Static "bytes list" | DNS bytes bytes

definition NewDNS :: "bytes \<Rightarrow> bytes \<Rightarrow> Discoverer" where
  "NewDNS host port = DNS host port"

definition Discover :: "(bytes \<Rightarrow> 'e + bytes list) \<Rightarrow> Discoverer \<Rightarrow> 'e + bytes list" where
  "Discover lookup d =
     (case d of
        Static s \<Rightarrow> Inr s
      | DNS host port \<Rightarrow>
          (case lookup host of
             Inl e \<Rightarrow> Inl e
           | Inr ips \<Rightarrow> Inr (sort (map (\<lambda>ip. JoinHostPort ip port) ips))))"

section \<open>The environment\<close>

definition env :: "(bytes \<Rightarrow> bytes) \<Rightarrow> bytes \<Rightarrow> bytes \<Rightarrow> bytes" where
  "env getenv key def = (if getenv key \<noteq> [] then getenv key else def)"

definition envInt :: "(bytes \<Rightarrow> bytes) \<Rightarrow> bytes \<Rightarrow> int \<Rightarrow> int" where
  "envInt getenv key def =
     (if getenv key \<noteq> [] then (case Atoi (TrimSpace (getenv key)) of (n, None) \<Rightarrow> n | (n, Some _) \<Rightarrow> def) else def)"

definition hostname :: "'e + bytes \<Rightarrow> bytes" where
  "hostname h = (case h of Inl _ \<Rightarrow> str ''medusa-node'' | Inr n \<Rightarrow> if n = [] then str ''medusa-node'' else n)"

definition splitSeeds :: "bytes \<Rightarrow> bytes list" where
  "splitSeeds s = (if TrimSpace s = [] then [] else filter (\<lambda>p. p \<noteq> []) (map TrimSpace (Split 44 s)))"

definition portOf :: "bytes \<Rightarrow> bytes \<Rightarrow> bytes" where
  "portOf addr def = (case SplitHostPort addr of Inl _ \<Rightarrow> def | Inr (_, p) \<Rightarrow> if p \<noteq> [] then p else def)"

definition discovererFromEnv :: "bytes \<Rightarrow> bytes \<Rightarrow> bytes list \<Rightarrow> Discoverer \<times> bytes" where
  "discovererFromEnv spec addr seeds =
     (case CutPrefix (TrimSpace spec) (str ''dns:'') of (host, ok) \<Rightarrow>
        if ok \<and> host \<noteq> [] then
          (let port = portOf addr (str ''7700'');
               (host', port') = (case SplitHostPort host of
                   Inl _ \<Rightarrow> (host, port) | Inr (h, p) \<Rightarrow> (h, if p \<noteq> [] then p else port))
           in (NewDNS host' port', str ''dns:'' @ JoinHostPort host' port'))
        else (Static seeds, str ''static''))"

section \<open>TLS\<close>

datatype ClientAuth = NoClientCert | RequireAndVerifyClientCert

record ('c, 'p) tls_config =
  tc_Certificates :: "'c list"
  tc_MinVersion :: nat
  tc_RootCAs :: "'p option"
  tc_ClientCAs :: "'p option"
  tc_ClientAuth :: ClientAuth

datatype 'e tls_error = LoadKeyPair 'e | ReadCA 'e | NoCertificates bytes

text \<open>\<open>loadPair\<close>, \<open>readFile\<close> and \<open>pemPool\<close> are what the key pair, a file and a bundle of certificates hold.\<close>

definition tlsConfigFromEnv ::
  "(bytes \<Rightarrow> bytes) \<Rightarrow> (bytes \<Rightarrow> bytes \<Rightarrow> 'e + 'c) \<Rightarrow> (bytes \<Rightarrow> 'e + bytes) \<Rightarrow> (bytes \<Rightarrow> 'p option) \<Rightarrow>
    'e tls_error + ('c, 'p) tls_config option" where
  "tlsConfigFromEnv getenv loadPair readFile pemPool =
     (let certFile = getenv (str ''MEDUSA_TLS_CERT''); keyFile = getenv (str ''MEDUSA_TLS_KEY'')
      in if certFile = [] \<or> keyFile = [] then Inr None
         else case loadPair certFile keyFile of
                Inl e \<Rightarrow> Inl (LoadKeyPair e)
              | Inr cert \<Rightarrow>
                  let cfg = \<lparr>tc_Certificates = [cert], tc_MinVersion = 0x0303, tc_RootCAs = None, tc_ClientCAs = None,
                             tc_ClientAuth = NoClientCert\<rparr>;
                      caFile = getenv (str ''MEDUSA_TLS_CA'')
                  in if caFile = [] then Inr (Some cfg)
                     else case readFile caFile of
                            Inl e \<Rightarrow> Inl (ReadCA e)
                          | Inr pem \<Rightarrow>
                              (case pemPool pem of
                                 None \<Rightarrow> Inl (NoCertificates caFile)
                               | Some cas \<Rightarrow>
                                   Inr (Some (cfg\<lparr>tc_RootCAs := Some cas, tc_ClientCAs := Some cas,
                                                  tc_ClientAuth := RequireAndVerifyClientCert\<rparr>))))"

section \<open>Start and stop\<close>

record settings =
  s_config :: Config
  s_bindAddr :: bytes
  s_httpAddr :: bytes
  s_discovery :: Discoverer
  s_token :: bytes

definition settingsFromEnv :: "(bytes \<Rightarrow> bytes) \<Rightarrow> 'e + bytes \<Rightarrow> settings" where
  "settingsFromEnv getenv host =
     (let addr = env getenv (str ''MEDUSA_ADDR'') (str '':7700'');
          seeds = splitSeeds (getenv (str ''MEDUSA_SEEDS''))
      in \<lparr>s_config = \<lparr>c_ID = env getenv (str ''MEDUSA_ID'') (hostname host), c_Addr = addr,
                      c_Backups = envInt getenv (str ''MEDUSA_BACKUPS'') 0,
                      c_MaxEntries = envInt getenv (str ''MEDUSA_MAX_ENTRIES'') 0,
                      c_DataDir = getenv (str ''MEDUSA_DATA_DIR'')\<rparr>,
          s_bindAddr = env getenv (str ''MEDUSA_BIND_ADDR'') addr,
          s_httpAddr = env getenv (str ''MEDUSA_HTTP_ADDR'') (str '':8080''),
          s_discovery = fst (discovererFromEnv (getenv (str ''MEDUSA_DISCOVERY'')) addr seeds),
          s_token = getenv (str ''MEDUSA_AUTH_TOKEN'')\<rparr>)"

datatype ('t, 'n) process = Exit int | Running settings "'t option" 'n

definition main_start ::
  "(bytes \<Rightarrow> bytes) \<Rightarrow> 'e + bytes \<Rightarrow> (bytes \<Rightarrow> bytes \<Rightarrow> 'e + 'c) \<Rightarrow> (bytes \<Rightarrow> 'e + bytes) \<Rightarrow> (bytes \<Rightarrow> 'p option) \<Rightarrow>
    int \<Rightarrow> io list \<Rightarrow> os_file \<Rightarrow> os_file \<Rightarrow> (bytes, processor) gomap \<Rightarrow> (bytes, aggregator) gomap \<Rightarrow> error option \<Rightarrow>
    (('c, 'p) tls_config, 'x Node) process" where
  "main_start getenv host loadPair readFile pemPool now ios snapFile walFile procs aggs listen =
     (let s = settingsFromEnv getenv host
      in case tlsConfigFromEnv getenv loadPair readFile pemPool of
           Inl _ \<Rightarrow> Exit 1
         | Inr tls \<Rightarrow>
             (case node_New (s_config s) now ios snapFile walFile procs aggs listen of
                (Some _, _) \<Rightarrow> Exit 1
              | (None, n) \<Rightarrow> Running s tls n))"

text \<open>On a signal the HTTP server stops and the node leaves, within the time box \<open>cancelled\<close>.\<close>

definition main_stop :: "'x send \<Rightarrow> bytes \<Rightarrow> (nat \<Rightarrow> bool) \<Rightarrow> 'x world \<Rightarrow> 'x world" where
  "main_stop send a cancelled w = node_Leave send a cancelled w"

section \<open>What the configuration guarantees\<close>



text \<open>
  Discovery by DNS dials what the resolver returned: for every resolved address there is one target,
  in sorted order, and splitting a target gives the address and the configured port back, for IPv6
  addresses too. A failed lookup is reported, never an empty list.
\<close>

theorem discover_targets:
  assumes "\<forall>ip \<in> set ips. 91 \<notin> set ip \<and> 93 \<notin> set ip" "58 \<notin> set port" "91 \<notin> set port" "93 \<notin> set port" "lookup host = Inr ips"
  shows "\<exists>targets. Discover lookup (DNS host port) = Inr targets \<and> sorted targets \<and> length targets = length ips \<and>
    mset (map SplitHostPort targets) = mset (map (\<lambda>ip. Inr (ip, port)) ips)"
proof -
  let ?ts = "map (\<lambda>ip. JoinHostPort ip port) ips"
  have inv: "SplitHostPort (JoinHostPort ip port) = Inr (ip, port)" if "ip \<in> set ips" for ip
    using assms that by (intro SplitHostPort_Join) auto
  have "mset (map SplitHostPort (sort ?ts)) = mset (map SplitHostPort ?ts)" by (simp only: mset_map mset_sort)
  also have "map SplitHostPort ?ts = map (\<lambda>ip. Inr (ip, port)) ips" by (simp add: inv)
  finally have "mset (map SplitHostPort (sort ?ts)) = mset (map (\<lambda>ip. Inr (ip, port)) ips)" .
  with assms(5) show ?thesis by (intro exI [of _ "sort ?ts"]) (simp add: Discover_def)
qed

theorem discover_targets_witness:
  "\<exists>targets. Discover (\<lambda>_. Inr [str ''::1'', str ''10.0.0.7''] :: unit + bytes list) (DNS (str ''medusa'') (str ''7700'')) = Inr targets \<and>
     sorted targets \<and> mset (map SplitHostPort targets) = mset (map (\<lambda>ip. Inr (ip, str ''7700'')) [str ''::1'', str ''10.0.0.7''])"
  using discover_targets [of "[str ''::1'', str ''10.0.0.7'']" "str ''7700''" "\<lambda>_. Inr [str ''::1'', str ''10.0.0.7''] :: unit + bytes list" "str ''medusa''"]
  by (simp add: str_def) blast

text \<open>A node never runs with fewer than one backup, and a list of seeds has no empty entry.\<close>

lemma backups_floor: "1 \<le> mem_backups (n_mem (init_node cfg now ios sf lf procs aggs :: 'x Node))"
  by (simp add: init_node_def Let_def mem_New_def)

lemma seeds_nonempty: "s \<in> set (splitSeeds spec) \<Longrightarrow> s \<noteq> []"
  by (auto simp: splitSeeds_def split: if_splits)

end
