(* ===== verification/Metrics.thy ===== *)
theory Metrics
  imports GoText
begin

text \<open>
  The metrics page, \<open>metrics/metrics.go\<close>: the process-wide counters and their rendering in the Prometheus
  text format. No other operation reads the counters; what increments them is left out of the model.
\<close>

record counters =
  PutOps :: int
  GetOps :: int
  RemoveOps :: int
  ExecuteOps :: int
  AggregateOps :: int
  Swept :: int
  Evicted :: int
  Migrations :: int
  Reconciled :: int
  Pruned :: int
  EvictedEntries :: int
  EventsEmitted :: int
  EventsDropped :: int

definition prom_head :: "bytes \<Rightarrow> bytes \<Rightarrow> bytes \<Rightarrow> bytes" where
  "prom_head name help kind =
     str ''# HELP '' @ name @ [32] @ help @ [10] @ str ''# TYPE '' @ name @ [32] @ kind @ [10]"

definition prom_line :: "bytes \<Rightarrow> int \<Rightarrow> bytes" where
  "prom_line name v = name @ [32] @ FormatInt v @ [10]"

definition prom_counter :: "bytes \<Rightarrow> bytes \<Rightarrow> (bytes \<times> int) list \<Rightarrow> bytes" where
  "prom_counter name help labelled =
     prom_head name help (str ''counter'') @
     concat (map (\<lambda>(l, v). prom_line (name @ str ''{op='' @ [34] @ l @ [34] @ str ''}'') v) labelled)"

definition prom_single :: "bytes \<Rightarrow> bytes \<Rightarrow> int \<Rightarrow> bytes" where
  "prom_single name help v = prom_head name help (str ''counter'') @ prom_line name v"

definition prom_gauge :: "bytes \<Rightarrow> bytes \<Rightarrow> int \<Rightarrow> bytes" where
  "prom_gauge name help v = prom_head name help (str ''gauge'') @ prom_line name v"

definition WriteProm :: "counters \<Rightarrow> int \<Rightarrow> int \<Rightarrow> bytes" where
  "WriteProm c members localEntries =
     prom_counter (str ''medusa_map_ops_total'') (str ''Map operations by type.'')
       [(str ''put'', PutOps c), (str ''get'', GetOps c), (str ''remove'', RemoveOps c), (str ''execute'', ExecuteOps c),
        (str ''aggregate'', AggregateOps c)] @
     prom_single (str ''medusa_entries_swept_total'') (str ''Entries reclaimed by TTL expiry.'') (Swept c) @
     prom_single (str ''medusa_members_evicted_total'') (str ''Peers removed by failure detection.'') (Evicted c) @
     prom_single (str ''medusa_migrations_total'') (str ''Partition-migration passes run.'') (Migrations c) @
     prom_single (str ''medusa_entries_reconciled_total'') (str ''Entries re-pushed to backups by anti-entropy.'') (Reconciled c) @
     prom_single (str ''medusa_entries_pruned_total'')
       (str ''Zombie keys dropped from backups by anti-entropy (missed deletes).'') (Pruned c) @
     prom_single (str ''medusa_entries_evicted_total'') (str ''Entries removed to enforce the max-size cap.'') (EvictedEntries c) @
     prom_single (str ''medusa_events_emitted_total'') (str ''Entry events delivered to listeners.'') (EventsEmitted c) @
     prom_single (str ''medusa_events_dropped_total'')
       (str ''Entry events dropped because the listener queue was full.'') (EventsDropped c) @
     prom_gauge (str ''medusa_cluster_members'') (str ''Current number of cluster members.'') members @
     prom_gauge (str ''medusa_map_entries'') (str ''Live entries stored on this node.'') localEntries"

section \<open>Reading a sample back\<close>

text \<open>
  The value of a sample line can be read back: the text between the last space and the newline is the
  number that was rendered.
\<close>

lemma FormatInt_no_space: "32 \<notin> set (FormatInt i)"
proof -
  have "list_all is_digit (FormatUint n)" for n using FormatUint_read by blast
  then have "c \<in> set (FormatUint n) \<Longrightarrow> 48 \<le> c" for c n by (auto simp: list_all_iff is_digit_def)
  then have "32 \<notin> set (FormatUint n)" for n by force
  then show ?thesis by (simp add: FormatInt_def)
qed

lemma prom_line_value:
  assumes "int64_range v"
  shows "Atoi (rev (takeWhile (\<lambda>c. c \<noteq> 32) (tl (rev (prom_line name v))))) = (v, None)"
proof -
  have "takeWhile (\<lambda>c. c \<noteq> 32) (rev (FormatInt v) @ 32 # rev name) = rev (FormatInt v)"
    using FormatInt_no_space [of v] by (subst takeWhile_append2) auto
  then show ?thesis by (simp add: prom_line_def Atoi_FormatInt [OF assms])
qed

end
