(* ===== verification/Mux.thy ===== *)
theory Mux
  imports GoText
begin

text \<open>
  The part of \<open>net/http\<close> the HTTP API is built on: requests and responses, the body limit of
  \<open>http.MaxBytesReader\<close>, and the request routing of \<open>http.ServeMux\<close>.

  A request carries the two forms of its path that \<open>net/url\<close> gives, \<open>URL.Path\<close> (decoded) and
  \<open>URL.EscapedPath()\<close>: the middleware of the API compares the first and the mux routes by the second.
  Texts of errors are kept as values. Routing is by method and segment pattern; a \<open>GET\<close> pattern also
  serves \<open>HEAD\<close>; a path that is not clean is redirected; a path that only matches under other methods
  is answered with 405 and their list, any other with 404.
\<close>

section \<open>Requests and responses\<close>

datatype body_error = BodyTooLarge | BodyRead bytes

record http_request =
  rq_Method :: bytes
  rq_Path :: bytes
  rq_EscapedPath :: bytes
  rq_Query :: "(bytes \<times> bytes) list"
  rq_Authorization :: bytes
  rq_Body :: bytes
  rq_BodyErr :: "bytes option"

record 'b http_response =
  rs_Status :: int
  rs_Header :: "(bytes \<times> bytes) list"
  rs_Body :: 'b

definition Query_Get :: "http_request \<Rightarrow> bytes \<Rightarrow> bytes" where
  "Query_Get r k = (case map_of (rq_Query r) k of Some v \<Rightarrow> v | None \<Rightarrow> [])"

text \<open>\<open>io.ReadAll\<close> of a body under \<open>http.MaxBytesReader\<close>.\<close>

definition ReadAll_max :: "nat \<Rightarrow> http_request \<Rightarrow> body_error + bytes" where
  "ReadAll_max limit r =
     (if limit < length (rq_Body r) then Inl BodyTooLarge
      else case rq_BodyErr r of Some e \<Rightarrow> Inl (BodyRead e) | None \<Rightarrow> Inr (rq_Body r))"

section \<open>Paths\<close>

definition unhex :: "byte \<Rightarrow> byte option" where
  "unhex c =
     (if 48 \<le> c \<and> c \<le> 57 then Some (c - 48)
      else if 97 \<le> c \<and> c \<le> 102 then Some (c - 87)
      else if 65 \<le> c \<and> c \<le> 70 then Some (c - 55)
      else None)"

fun PathUnescape :: "bytes \<Rightarrow> bytes option" where
  "PathUnescape [] = Some []"
| "PathUnescape (c # s) =
     (if c = 37
      then case s of
             a # b # r \<Rightarrow>
               (case (unhex a, unhex b) of
                  (Some x, Some y) \<Rightarrow> map_option (\<lambda>t. (16 * x + y) # t) (PathUnescape r)
                | _ \<Rightarrow> None)
           | _ \<Rightarrow> None
      else map_option (\<lambda>t. c # t) (PathUnescape s))"

text \<open>A segment that cannot be decoded is taken as it is.\<close>

definition pathUnescape :: "bytes \<Rightarrow> bytes" where
  "pathUnescape s = (case PathUnescape s of Some t \<Rightarrow> t | None \<Rightarrow> s)"

definition clean_seg :: "bytes \<Rightarrow> bytes list \<Rightarrow> bytes list" where
  "clean_seg s stack =
     (if s = [] \<or> s = str ''.'' then stack else if s = str ''..'' then drop 1 stack else s # stack)"

definition rooted :: "bytes list \<Rightarrow> bytes" where
  "rooted segs = (if segs = [] then [47] else concat (map (\<lambda>s. 47 # s) segs))"

definition cleanPath :: "bytes \<Rightarrow> bytes" where
  "cleanPath p =
     (let np = rooted (rev (fold clean_seg (Split 47 p) []))
      in if p \<noteq> [] \<and> last p = 47 \<and> np \<noteq> [47] then np @ [47] else np)"

text \<open>The segments of a path, decoded; a trailing slash is the segment \<open>/\<close>.\<close>

definition segments :: "bytes \<Rightarrow> bytes list" where
  "segments e =
     (if e = [] then []
      else let parts = Split 47 (drop 1 e)
           in map pathUnescape (butlast parts) @ [if last parts = [] then [47] else pathUnescape (last parts)])"

section \<open>Patterns and routing\<close>

datatype segment_pattern = Lit bytes | Wild bytes

type_synonym pattern = "segment_pattern list"
type_synonym path_values = "(bytes \<times> bytes) list"

text \<open>A wildcard stands for any one segment except the one of a trailing slash.\<close>

fun matchPath :: "pattern \<Rightarrow> bytes list \<Rightarrow> path_values option" where
  "matchPath [] [] = Some []"
| "matchPath (Lit l # ps) (s # ss) = (if l = s then matchPath ps ss else None)"
| "matchPath (Wild n # ps) (s # ss) = (if s = [47] then None else map_option (\<lambda>vs. (n, s) # vs) (matchPath ps ss))"
| "matchPath _ _ = None"

definition PathValue :: "path_values \<Rightarrow> bytes \<Rightarrow> bytes" where
  "PathValue vs n = (case map_of vs n of Some s \<Rightarrow> s | None \<Rightarrow> [])"

type_synonym ('b, 's) http_handler = "http_request \<Rightarrow> path_values \<Rightarrow> 's \<Rightarrow> 'b http_response \<times> 's"
type_synonym ('b, 's) mux = "(bytes \<times> pattern \<times> ('b, 's) http_handler) list"

fun find_route :: "('b, 's) mux \<Rightarrow> bytes \<Rightarrow> bytes list \<Rightarrow> (path_values \<times> ('b, 's) http_handler) option" where
  "find_route [] m segs = None"
| "find_route ((m', p, h) # mx) m segs =
     (case if m' = m then matchPath p segs else None of
        Some vs \<Rightarrow> Some (vs, h)
      | None \<Rightarrow> find_route mx m segs)"

definition matchMethodAndPath :: "('b, 's) mux \<Rightarrow> bytes \<Rightarrow> bytes list \<Rightarrow> (path_values \<times> ('b, 's) http_handler) option" where
  "matchMethodAndPath mx m segs =
     (case find_route mx m segs of
        Some r \<Rightarrow> Some r
      | None \<Rightarrow> if m = str ''HEAD'' then find_route mx (str ''GET'') segs else None)"

definition methods_sorted :: "bytes list" where
  "methods_sorted = [str ''DELETE'', str ''GET'', str ''HEAD'', str ''POST'', str ''PUT'']"

definition matchingMethods :: "('b, 's) mux \<Rightarrow> bytes list \<Rightarrow> bytes list" where
  "matchingMethods mx segs = filter (\<lambda>m. matchMethodAndPath mx m segs \<noteq> None) methods_sorted"

datatype mux_error = BadRequest | Redirect bytes | MethodNotAllowed "bytes list" | NotFound

text \<open>The decision of the mux: the handler with its path values, or the answer of its own.\<close>

definition findHandler :: "('b, 's) mux \<Rightarrow> http_request \<Rightarrow> mux_error + path_values \<times> ('b, 's) http_handler" where
  "findHandler mx r =
     (let e = rq_EscapedPath r; segs = segments e
      in if e = str ''*'' then Inl BadRequest
         else if rq_Method r \<noteq> str ''CONNECT'' \<and> cleanPath e \<noteq> e then Inl (Redirect (cleanPath e))
         else case matchMethodAndPath mx (rq_Method r) segs of
                Some h \<Rightarrow> Inr h
              | None \<Rightarrow>
                  if matchingMethods mx segs \<noteq> [] then Inl (MethodNotAllowed (matchingMethods mx segs)) else Inl NotFound)"

definition mux_status :: "mux_error \<Rightarrow> int" where
  "mux_status e = (case e of BadRequest \<Rightarrow> 400 | Redirect _ \<Rightarrow> 301 | MethodNotAllowed _ \<Rightarrow> 405 | NotFound \<Rightarrow> 404)"

section \<open>Decoding the path as a whole and by segments\<close>

text \<open>
  The middleware reads the decoded path and the mux the escaped one. They agree on a path of a single
  segment: when the decoded path is a slash and a segment without a slash, the mux sees that segment.
\<close>

lemma PathUnescape_percent:
  assumes "PathUnescape (37 # s) = Some t"
  obtains a b r x y u where "s = a # b # r" "unhex a = Some x" "unhex b = Some y" "PathUnescape r = Some u" "t = (16 * x + y) # u"
  using assms by (auto split: list.splits option.splits)

lemma unhex_slash [simp]: "unhex 47 = None"
  by (simp add: unhex_def)

lemma PathUnescape_keeps_slash: "PathUnescape s = Some t \<Longrightarrow> 47 \<in> set s \<Longrightarrow> 47 \<in> set t"
proof (induction "length s" arbitrary: s t rule: less_induct)
  case less
  obtain c s' where s: "s = c # s'" using less.prems(2) by (cases s) auto
  show ?case
  proof (cases "c = 37")
    case True
    with s less.prems(1) obtain a b r x y u where
      d: "s' = a # b # r" "unhex a = Some x" "unhex b = Some y" "PathUnescape r = Some u" "t = (16 * x + y) # u"
      by (metis PathUnescape_percent)
    from d(2,3) have "a \<noteq> 47" "b \<noteq> 47" by auto
    with less.prems(2) s True d(1) have "47 \<in> set r" by simp
    then have "47 \<in> set u" using less.hyps [of r u] d(1,4) s by simp
    with d(5) show ?thesis by simp
  next
    case False
    with s less.prems(1) obtain u where "PathUnescape s' = Some u" "t = c # u" by auto
    with less s show ?thesis by auto
  qed
qed

lemma Split_none: "c \<notin> set s \<Longrightarrow> Split c s = [s]"
  by (induction s) auto

lemma rooted_hd: "\<exists>s. rooted xs = 47 # s"
  by (cases xs) (simp_all add: rooted_def)

lemma cleanPath_hd: "\<exists>s. cleanPath p = 47 # s"
  using rooted_hd [of "rev (fold clean_seg (Split 47 p) [])"] by (auto simp: cleanPath_def Let_def)

lemma segments_single:
  assumes "PathUnescape e = Some (47 # t)" "cleanPath e = e" "t \<noteq> []" "47 \<notin> set t"
  shows "segments e = [t]"
proof -
  obtain s where e: "e = 47 # s" using cleanPath_hd [of e] assms(2) by auto
  with assms(1) have s: "PathUnescape s = Some t" by auto
  with assms have "47 \<notin> set s" "s \<noteq> []" by (auto dest: PathUnescape_keeps_slash)
  with e s show ?thesis by (simp add: segments_def Split_none pathUnescape_def)
qed

text \<open>A segment without special bytes is read back as it was written.\<close>

definition plain_seg :: "bytes \<Rightarrow> bool" where
  "plain_seg s \<longleftrightarrow> s \<noteq> [] \<and> 47 \<notin> set s \<and> 37 \<notin> set s \<and> s \<noteq> str ''.'' \<and> s \<noteq> str ''..''"

lemma PathUnescape_plain: "37 \<notin> set s \<Longrightarrow> PathUnescape s = Some s"
  by (induction s) auto

lemma Split_append: "47 \<notin> set s \<Longrightarrow> Split 47 (s @ 47 # r) = s # Split 47 r"
  by (induction s) auto

lemma rooted_Cons: "rooted (s # segs) = 47 # tl (rooted (s # segs))"
  by (simp add: rooted_def)

lemma tl_rooted: "tl (rooted (s # s' # segs)) = s @ 47 # tl (rooted (s' # segs))"
  by (simp add: rooted_def)

lemma Split_rooted: "list_all plain_seg segs \<Longrightarrow> segs \<noteq> [] \<Longrightarrow> Split 47 (tl (rooted segs)) = segs"
proof (induction segs)
  case (Cons s segs)
  then have s: "47 \<notin> set s" by (simp add: plain_seg_def)
  show ?case
  proof (cases segs)
    case Nil
    with s show ?thesis by (simp add: rooted_def Split_none)
  next
    case (Cons s' segs')
    with Cons.IH Cons.prems have "Split 47 (tl (rooted (s' # segs'))) = s' # segs'" by simp
    with s show ?thesis unfolding Cons tl_rooted Split_append [OF s] by simp
  qed
qed simp

lemma clean_segs: "list_all plain_seg segs \<Longrightarrow> fold clean_seg segs st = rev segs @ st"
  by (induction segs arbitrary: st) (auto simp: clean_seg_def plain_seg_def)

lemma last_rooted: "list_all plain_seg segs \<Longrightarrow> segs \<noteq> [] \<Longrightarrow> last (rooted segs) \<noteq> 47"
proof (induction segs)
  case (Cons s segs)
  show ?case
  proof (cases segs)
    case Nil
    with Cons.prems show ?thesis by (auto simp: rooted_def plain_seg_def dest: last_in_set)
  next
    case (Cons s' segs')
    with Cons.IH Cons.prems show ?thesis by (simp add: rooted_def)
  qed
qed simp

lemma pathUnescape_plain: "plain_seg x \<Longrightarrow> pathUnescape x = x"
  by (simp add: plain_seg_def pathUnescape_def PathUnescape_plain)

lemma Split_rooted_all:
  assumes "list_all plain_seg segs" "segs \<noteq> []"
  shows "Split 47 (rooted segs) = [] # segs"
proof -
  obtain s where s: "rooted segs = 47 # s" using rooted_hd by blast
  with Split_rooted [OF assms] show ?thesis by simp
qed

lemma clean_rooted:
  assumes "list_all plain_seg segs" "segs \<noteq> []"
  shows "cleanPath (rooted segs) = rooted segs"
proof -
  have "rev (fold clean_seg (Split 47 (rooted segs)) []) = segs"
    using clean_segs [OF assms(1), of "[]"] by (simp add: Split_rooted_all [OF assms] clean_seg_def)
  then show ?thesis using last_rooted [OF assms] by (simp only: cleanPath_def Let_def simp_thms if_False)
qed

lemma map_pathUnescape: "list_all plain_seg xs \<Longrightarrow> map pathUnescape xs = xs"
  by (induction xs) (simp_all add: pathUnescape_plain)

lemma segments_rooted:
  assumes "list_all plain_seg segs" "segs \<noteq> []"
  shows "segments (rooted segs) = segs"
proof -
  have l: "plain_seg (last segs)" using assms by (auto simp: list_all_iff)
  have b: "list_all plain_seg (butlast segs)" using assms(1) by (auto simp: list_all_iff dest: in_set_butlastD)
  have "drop 1 (rooted segs) = tl (rooted segs)" by (simp add: drop_Suc)
  moreover have "rooted segs \<noteq> []" using rooted_hd [of segs] by auto
  moreover have "last segs \<noteq> []" using l by (simp add: plain_seg_def)
  ultimately show ?thesis
    by (simp add: segments_def Let_def Split_rooted [OF assms] pathUnescape_plain [OF l] map_pathUnescape [OF b] assms(2))
qed

end
