(* ===== verification/Http.thy ===== *)
theory Http
  imports Medusa MapApi Metrics Mux
begin

text \<open>
  The HTTP API of a node, \<open>httpapi/httpapi.go\<close>: one definition per handler, the routes \<open>New\<close> registers,
  and the bearer-token middleware. A handler takes the request, the values of the wildcards of its
  pattern and the world, and gives the response and the world after the calls it made on the node.

  Bodies are values: a text, the text of an error, the bytes of a value, or one of the two JSON
  documents, whose encoding by \<open>encoding/json\<close> is not spelled out.
\<close>

section \<open>Responses\<close>

definition maxBodyBytes :: nat where
  "maxBodyBytes = 16 * 2 ^ 20"

record stats =
  st_Members :: nat
  st_LocalEntries :: nat
  st_Backups :: nat

datatype http_body =
    Text bytes
  | ErrText error
  | BodyText body_error
  | TTLText duration_error
  | Octets bytes
  | StatsJSON stats
  | MembersJSON "(bytes \<times> bytes) list"
  | MuxText mux_error
  | Empty

type_synonym reply_h = "http_body http_response"
type_synonym 'x http = "(http_body, 'x world) http_handler"

definition respond :: "int \<Rightarrow> (bytes \<times> bytes) list \<Rightarrow> http_body \<Rightarrow> reply_h" where
  "respond status hs b = \<lparr>rs_Status = status, rs_Header = hs, rs_Body = b\<rparr>"

definition content_type :: "bytes" where
  "content_type = str ''Content-Type''"

text \<open>\<open>writeText\<close>, after the headers \<open>hs\<close> that the handler has set.\<close>

definition writeText :: "(bytes \<times> bytes) list \<Rightarrow> int \<Rightarrow> http_body \<Rightarrow> reply_h" where
  "writeText hs status msg = respond status (hs @ [(content_type, str ''text/plain; charset=utf-8'')]) msg"

definition octets :: "bytes \<Rightarrow> reply_h" where
  "octets v = respond 200 [(content_type, str ''application/octet-stream'')] (Octets v)"

definition noContent :: reply_h where
  "noContent = respond 204 [] Empty"

definition renderAggregate :: "bytes \<Rightarrow> bytes" where
  "renderAggregate res =
     (if length res = 0 then [] else if length res = 8 then FormatInt (int64_of (Uint64 res)) else res)"

definition reservedMapBlocked :: "path_values \<Rightarrow> reply_h option" where
  "reservedMapBlocked vs =
     (if IsReservedMap (PathValue vs (str ''map'')) then Some (writeText [] 404 (Text (str ''not found''))) else None)"

section \<open>Handlers\<close>

definition healthz :: "'x http" where
  "healthz r vs w = (writeText [] 200 (Text (str ''ok'')), w)"

definition readyz :: "bytes \<Rightarrow> 'x http" where
  "readyz a r vs w =
     (if Members (view w a) = [] then (writeText [] 503 (Text (str ''no members'')), w)
      else (writeText [] 200 (Text (str ''ready'')), w))"

definition metrics :: "counters \<Rightarrow> bytes \<Rightarrow> 'x http" where
  "metrics c a r vs w =
     (respond 200 [(content_type, str ''text/plain; version=0.0.4; charset=utf-8'')]
        (Text (WriteProm c (int (length (Members (view w a)))) (int (LocalEntryCount a w)))), w)"

definition stats_handler :: "bytes \<Rightarrow> 'x http" where
  "stats_handler a r vs w =
     (respond 200 [(content_type, str ''application/json'')]
        (StatsJSON \<lparr>st_Members = length (Members (view w a)), st_LocalEntries = LocalEntryCount a w,
                    st_Backups = node_BackupCount a w\<rparr>), w)"

definition members_handler :: "bytes \<Rightarrow> 'x http" where
  "members_handler a r vs w =
     (respond 200 [(content_type, str ''application/json'')]
        (MembersJSON (map (\<lambda>m. (m_ID m, m_Addr m)) (Members (view w a)))), w)"

definition is_unknown_aggregator :: "error \<Rightarrow> bool" where
  "is_unknown_aggregator e = (case e of ErrUnknownAggregator _ \<Rightarrow> True | ErrUnknownAggregatorPeer _ \<Rightarrow> True | _ \<Rightarrow> False)"

definition map_aggregate :: "'x send \<Rightarrow> bytes \<Rightarrow> bytes \<Rightarrow> bytes \<Rightarrow> 'x world \<Rightarrow> reply_h \<times> 'x world" where
  "map_aggregate send a name agg w =
     (case Map_Aggregate send a name agg w of
        (res, w') \<Rightarrow>
          (let (out, err) = (case res of Inl e \<Rightarrow> ([], Some e) | Inr (out, err) \<Rightarrow> (out, err));
               body = renderAggregate out
           in case err of
                None \<Rightarrow> (writeText [] 200 (Text body), w')
              | Some e \<Rightarrow>
                  if is_unknown_aggregator e then (writeText [] 400 (ErrText e), w')
                  else (writeText [(str ''X-Medusa-Partial-Result'', body)] 502 (ErrText e), w')))"

definition map_size :: "'x send \<Rightarrow> bytes \<Rightarrow> bytes \<Rightarrow> 'x world \<Rightarrow> reply_h \<times> 'x world" where
  "map_size send a name w =
     (case Map_Size send a name w of
        ((n, Some e), w') \<Rightarrow> (writeText [(str ''X-Medusa-Partial-Count'', FormatUint (unat n))] 502 (ErrText e), w')
      | ((n, None), w') \<Rightarrow> (writeText [] 200 (Text (FormatUint (unat n))), w'))"

definition map_query :: "'x send \<Rightarrow> bytes \<Rightarrow> 'x http" where
  "map_query send a r vs w =
     (case reservedMapBlocked vs of
        Some resp \<Rightarrow> (resp, w)
      | None \<Rightarrow>
          (let name = PathValue vs (str ''map''); agg = Query_Get r (str ''agg'')
           in if agg \<noteq> [] then map_aggregate send a name agg w else map_size send a name w))"

definition map_get :: "'x send \<Rightarrow> bytes \<Rightarrow> 'x http" where
  "map_get send a r vs w =
     (case reservedMapBlocked vs of
        Some resp \<Rightarrow> (resp, w)
      | None \<Rightarrow>
          (case Map_Get send a (PathValue vs (str ''map'')) (PathValue vs (str ''key'')) w of
             ((v, ok, err), w') \<Rightarrow>
               (case err of
                  Some e \<Rightarrow> (writeText [] 502 (ErrText e), w')
                | None \<Rightarrow> if \<not> ok then (writeText [] 404 (Text (str ''not found'')), w') else (octets v, w'))))"

definition put_reply :: "error option \<times> 'x world \<Rightarrow> reply_h \<times> 'x world" where
  "put_reply res = (case res of (Some e, w') \<Rightarrow> (writeText [] 502 (ErrText e), w') | (None, w') \<Rightarrow> (noContent, w'))"

definition map_put :: "'x send \<Rightarrow> bytes \<Rightarrow> 'x http" where
  "map_put send a r vs w =
     (case reservedMapBlocked vs of
        Some resp \<Rightarrow> (resp, w)
      | None \<Rightarrow>
          (case ReadAll_max maxBodyBytes r of
             Inl e \<Rightarrow> (writeText [] 400 (BodyText e), w)
           | Inr body \<Rightarrow>
               (let name = PathValue vs (str ''map''); key = PathValue vs (str ''key''); ttlStr = Query_Get r (str ''ttl'')
                in if ttlStr \<noteq> [] then
                     (case ParseDuration ttlStr of
                        Inl e \<Rightarrow> (writeText [] 400 (TTLText e), w)
                      | Inr ttl \<Rightarrow> put_reply (Map_PutTTL send a name key body ttl w))
                   else put_reply (Map_Put send a name key body w))))"

definition map_execute :: "'x send \<Rightarrow> bytes \<Rightarrow> 'x http" where
  "map_execute send a r vs w =
     (case reservedMapBlocked vs of
        Some resp \<Rightarrow> (resp, w)
      | None \<Rightarrow>
          (let p = Query_Get r (str ''proc'')
           in if p = [] then (writeText [] 400 (Text (str ''missing ?proc='')), w)
              else (case ReadAll_max maxBodyBytes r of
                      Inl e \<Rightarrow> (writeText [] 400 (BodyText e), w)
                    | Inr arg \<Rightarrow>
                        (case Map_Execute send a (PathValue vs (str ''map'')) (PathValue vs (str ''key'')) p arg w of
                           (Inl e, w') \<Rightarrow> (writeText [] 502 (ErrText e), w')
                         | (Inr out, w') \<Rightarrow> (octets out, w')))))"

definition map_evict :: "'x send \<Rightarrow> bytes \<Rightarrow> 'x http" where
  "map_evict send a r vs w =
     (case reservedMapBlocked vs of
        Some resp \<Rightarrow> (resp, w)
      | None \<Rightarrow>
          (case Map_Evict send a (PathValue vs (str ''map'')) (PathValue vs (str ''key'')) w of
             (Inl e, w') \<Rightarrow> (writeText [] 502 (ErrText e), w')
           | (Inr existed, w') \<Rightarrow> (writeText [] 200 (Text (FormatBool existed)), w')))"

definition map_clear :: "'x send \<Rightarrow> bytes \<Rightarrow> 'x http" where
  "map_clear send a r vs w =
     (case reservedMapBlocked vs of
        Some resp \<Rightarrow> (resp, w)
      | None \<Rightarrow>
          (case Map_Clear send a (PathValue vs (str ''map'')) w of
             (Some e, w') \<Rightarrow> (writeText [] 502 (ErrText e), w')
           | (None, w') \<Rightarrow> (noContent, w')))"

definition map_remove :: "'x send \<Rightarrow> bytes \<Rightarrow> 'x http" where
  "map_remove send a r vs w =
     (case reservedMapBlocked vs of
        Some resp \<Rightarrow> (resp, w)
      | None \<Rightarrow>
          (case Map_Remove send a (PathValue vs (str ''map'')) (PathValue vs (str ''key'')) w of
             (Inl e, w') \<Rightarrow> (writeText [] 502 (ErrText e), w')
           | (Inr existed, w') \<Rightarrow>
               if \<not> existed then (writeText [] 404 (Text (str ''not found'')), w') else (noContent, w')))"

definition queue_number :: "(error + int) \<times> 'x world \<Rightarrow> reply_h \<times> 'x world" where
  "queue_number res =
     (case res of
        (Inl e, w') \<Rightarrow> (writeText [] 502 (ErrText e), w')
      | (Inr n, w') \<Rightarrow> (writeText [] 200 (Text (FormatInt n)), w'))"

definition queue_item :: "(error + bytes option) \<times> 'x world \<Rightarrow> reply_h \<times> 'x world" where
  "queue_item res =
     (case res of
        (Inl e, w') \<Rightarrow> (writeText [] 502 (ErrText e), w')
      | (Inr None, w') \<Rightarrow> (noContent, w')
      | (Inr (Some v), w') \<Rightarrow> (octets v, w'))"

definition queue_offer :: "'x send \<Rightarrow> bytes \<Rightarrow> 'x http" where
  "queue_offer send a r vs w =
     (case ReadAll_max maxBodyBytes r of
        Inl e \<Rightarrow> (writeText [] 400 (BodyText e), w)
      | Inr body \<Rightarrow> queue_number (Queue_Offer send a (PathValue vs (str ''queue'')) body w))"

definition queue_poll :: "'x send \<Rightarrow> bytes \<Rightarrow> 'x http" where
  "queue_poll send a r vs w = queue_item (Queue_Poll send a (PathValue vs (str ''queue'')) w)"

definition queue_peek :: "'x send \<Rightarrow> bytes \<Rightarrow> 'x http" where
  "queue_peek send a r vs w = queue_item (Queue_Peek send a (PathValue vs (str ''queue'')) w)"

definition queue_size :: "'x send \<Rightarrow> bytes \<Rightarrow> 'x http" where
  "queue_size send a r vs w = queue_number (Queue_Size send a (PathValue vs (str ''queue'')) w)"

section \<open>Routes and the token\<close>

definition maps_path :: "pattern \<Rightarrow> pattern" where
  "maps_path p = Lit (str ''v1'') # Lit (str ''maps'') # Wild (str ''map'') # p"

definition queues_path :: "pattern \<Rightarrow> pattern" where
  "queues_path p = Lit (str ''v1'') # Lit (str ''queues'') # Wild (str ''queue'') # p"

definition routes :: "'x send \<Rightarrow> bytes \<Rightarrow> counters \<Rightarrow> (http_body, 'x world) mux" where
  "routes send a c =
     [(str ''GET'', [Lit (str ''healthz'')], healthz),
      (str ''GET'', [Lit (str ''readyz'')], readyz a),
      (str ''GET'', [Lit (str ''metrics'')], metrics c a),
      (str ''GET'', [Lit (str ''stats'')], stats_handler a),
      (str ''GET'', [Lit (str ''members'')], members_handler a),
      (str ''GET'', maps_path [], map_query send a),
      (str ''GET'', maps_path [Wild (str ''key'')], map_get send a),
      (str ''PUT'', maps_path [Wild (str ''key'')], map_put send a),
      (str ''POST'', maps_path [Wild (str ''key''), Lit (str ''execute'')], map_execute send a),
      (str ''POST'', maps_path [Wild (str ''key''), Lit (str ''evict'')], map_evict send a),
      (str ''DELETE'', maps_path [], map_clear send a),
      (str ''DELETE'', maps_path [Wild (str ''key'')], map_remove send a),
      (str ''POST'', queues_path [Lit (str ''offer'')], queue_offer send a),
      (str ''POST'', queues_path [Lit (str ''poll'')], queue_poll send a),
      (str ''GET'', queues_path [Lit (str ''peek'')], queue_peek send a),
      (str ''GET'', queues_path [], queue_size send a)]"

definition ServeHTTP :: "(http_body, 'x world) mux \<Rightarrow> http_request \<Rightarrow> 'x world \<Rightarrow> reply_h \<times> 'x world" where
  "ServeHTTP mx r w =
     (case findHandler mx r of
        Inl e \<Rightarrow> (respond (mux_status e) [] (MuxText e), w)
      | Inr (vs, h) \<Rightarrow> h r vs w)"

definition unauthorized :: reply_h where
  "unauthorized = writeText [(str ''WWW-Authenticate'', str ''Bearer'')] 401 (Text (str ''unauthorized''))"

text \<open>\<open>subtle.ConstantTimeCompare\<close> is equality of the bytes.\<close>

definition requireToken ::
  "bytes \<Rightarrow> (http_request \<Rightarrow> 'x world \<Rightarrow> reply_h \<times> 'x world) \<Rightarrow> http_request \<Rightarrow> 'x world \<Rightarrow> reply_h \<times> 'x world" where
  "requireToken token h r w =
     (if rq_Path r = str ''/healthz'' \<or> rq_Path r = str ''/readyz'' then h r w
      else let prefix = str ''Bearer ''; got = rq_Authorization r
           in if length got < length prefix \<or> take (length prefix) got \<noteq> prefix \<or> drop (length prefix) got \<noteq> token
              then (unauthorized, w)
              else h r w)"

record http_config =
  cfg_token :: bytes

type_synonym http_option = "http_config \<Rightarrow> http_config"

definition WithToken :: "bytes \<Rightarrow> http_option" where
  "WithToken token cfg = cfg\<lparr>cfg_token := token\<rparr>"

definition New :: "'x send \<Rightarrow> bytes \<Rightarrow> counters \<Rightarrow> http_option list \<Rightarrow> http_request \<Rightarrow> 'x world \<Rightarrow> reply_h \<times> 'x world" where
  "New send a c opts =
     (let cfg = fold (\<lambda>opt. opt) opts \<lparr>cfg_token = []\<rparr>; mx = routes send a c
      in if cfg_token cfg = [] then ServeHTTP mx else requireToken (cfg_token cfg) (ServeHTTP mx))"

lemma New_token:
  "New send a c [WithToken token] r w =
     (if token = [] then ServeHTTP (routes send a c) r w else requireToken token (ServeHTTP (routes send a c)) r w)"
  by (simp add: New_def WithToken_def Let_def)

section \<open>Only the bearer of the token reaches the node\<close>

lemmas http_names = str_def maps_path_def queues_path_def

lemma findHandler_route:
  assumes "findHandler mx r = Inr (vs, h)"
  obtains m where "find_route mx m (segments (rq_EscapedPath r)) = Some (vs, h)"
  using assms
  by (auto simp: findHandler_def matchMethodAndPath_def Let_def split: if_splits option.splits)

lemma find_route_Some:
  "find_route mx m segs = Some (vs, h) \<Longrightarrow> \<exists>m' p. (m', p, h) \<in> set mx \<and> matchPath p segs = Some vs"
  by (induction mx m segs rule: find_route.induct) (auto split: option.splits if_splits)

text \<open>What a handler is, given the segments of the path: the only routes of a single segment are the five pages.\<close>

lemma handler_cases:
  assumes "findHandler (routes send a c) r = Inr (vs, h)"
  obtains m p where "(m, p, h) \<in> set (routes send a c)" "matchPath p (segments (rq_EscapedPath r)) = Some vs"
  using assms by (metis findHandler_route find_route_Some)

lemma probe_handler:
  assumes "findHandler (routes send a c) r = Inr (vs, h)" "segments (rq_EscapedPath r) = [t]" "t \<in> {str ''healthz'', str ''readyz''}"
  shows "h = healthz \<or> h = readyz a"
  using assms(1) by (rule handler_cases) (use assms(2,3) in \<open>auto simp: routes_def http_names\<close>)

lemma findHandler_clean:
  "findHandler (routes send a c) r = Inr (vs, h) \<Longrightarrow> cleanPath (rq_EscapedPath r) = rq_EscapedPath r \<or> rq_Method r = str ''CONNECT''"
  by (auto simp: findHandler_def Let_def split: if_splits)

lemma no_connect: "rq_Method r = str ''CONNECT'' \<Longrightarrow> findHandler (routes send a c) r \<noteq> Inr (vs, h)"
  by (auto simp: findHandler_def matchMethodAndPath_def routes_def str_def Let_def)

text \<open>A probe path is served by the probes, or by the mux itself: never by another handler.\<close>

lemma probe_keeps:
  assumes "PathUnescape (rq_EscapedPath r) = Some (rq_Path r)" "rq_Path r \<in> {str ''/healthz'', str ''/readyz''}"
  shows "snd (ServeHTTP (routes send a c) r w) = w"
proof (cases "findHandler (routes send a c) r")
  case (Inr vh)
  obtain vs h where vh: "vh = (vs, h)" by (cases vh)
  obtain t where t: "rq_Path r = 47 # t" "t \<in> {str ''healthz'', str ''readyz''}"
    using assms(2) by (auto simp: str_def)
  have "cleanPath (rq_EscapedPath r) = rq_EscapedPath r"
    using findHandler_clean no_connect Inr vh by metis
  then have "segments (rq_EscapedPath r) = [t]"
    using assms(1) t by (intro segments_single) (auto simp: str_def)
  then have "h = healthz \<or> h = readyz a" using probe_handler Inr vh t(2) by metis
  then show ?thesis using Inr vh by (auto simp: ServeHTTP_def healthz_def readyz_def)
qed (simp add: ServeHTTP_def)

lemma bearer_check:
  "length got < length pre \<or> take (length pre) got \<noteq> pre \<or> drop (length pre) got \<noteq> tok \<longleftrightarrow> got \<noteq> pre @ tok"
  by (metis append_eq_conv_conj append_take_drop_id length_append not_add_less1)

lemma requireToken_bearer:
  "requireToken token h r w =
     (if rq_Path r \<in> {str ''/healthz'', str ''/readyz''} then h r w
      else if rq_Authorization r \<noteq> str ''Bearer '' @ token then (unauthorized, w) else h r w)"
  unfolding requireToken_def Let_def bearer_check by simp

text \<open>
  C6: With a token configured, a request that does not carry exactly \<open>Bearer <token>\<close> has no effect on
  the cluster, whatever its method, its path, however escaped, its query and its body, and over any
  network; and unless its path is one of the two probes the answer is 401. The middleware compares the
  decoded path and the mux routes by the escaped one: an escaped probe path cannot reach another handler.
\<close>

theorem http_auth:
  assumes "token \<noteq> []" "rq_Authorization r \<noteq> str ''Bearer '' @ token" "PathUnescape (rq_EscapedPath r) = Some (rq_Path r)"
  shows "snd (New send a c [WithToken token] r w) = w \<and>
    (rq_Path r \<notin> {str ''/healthz'', str ''/readyz''} \<longrightarrow> fst (New send a c [WithToken token] r w) = unauthorized)"
  using assms(1,2) probe_keeps [OF assms(3)] by (auto simp: New_token requireToken_bearer)

definition demo_request :: "bytes \<Rightarrow> bytes list \<Rightarrow> (bytes \<times> bytes) list \<Rightarrow> bytes \<Rightarrow> http_request" where
  "demo_request m segs q body =
     \<lparr>rq_Method = m, rq_Path = rooted segs, rq_EscapedPath = rooted segs, rq_Query = q, rq_Authorization = [],
      rq_Body = body, rq_BodyErr = None\<rparr>"

lemma demo_request_sel [simp]:
  "rq_Method (demo_request m segs q body) = m" "rq_Path (demo_request m segs q body) = rooted segs"
  "rq_EscapedPath (demo_request m segs q body) = rooted segs" "rq_Query (demo_request m segs q body) = q"
  "rq_Authorization (demo_request m segs q body) = []" "rq_Body (demo_request m segs q body) = body"
  "rq_BodyErr (demo_request m segs q body) = None"
  by (simp_all add: demo_request_def)

theorem http_auth_witness:
  "\<forall>send c w. snd (New send [10] c [WithToken [7]] (demo_request (str ''DELETE'') [str ''v1'', str ''maps'', [109]] [] []) w) = w \<and>
     fst (New send [10] c [WithToken [7]] (demo_request (str ''DELETE'') [str ''v1'', str ''maps'', [109]] [] []) w) = unauthorized"
proof (intro allI)
  fix send :: "'x send" and c :: counters and w
  have "rooted [str ''v1'', str ''maps'', [109]] \<notin> {str ''/healthz'', str ''/readyz''}"
    by (simp add: rooted_def str_def)
  then show "snd (New send [10] c [WithToken [7]] (demo_request (str ''DELETE'') [str ''v1'', str ''maps'', [109]] [] []) w) = w \<and>
     fst (New send [10] c [WithToken [7]] (demo_request (str ''DELETE'') [str ''v1'', str ''maps'', [109]] [] []) w) = unauthorized"
    using http_auth [of "[7]" "demo_request (str ''DELETE'') [str ''v1'', str ''maps'', [109]] [] []" send "[10]" c w]
    by (simp add: PathUnescape_plain rooted_def str_def)
qed

section \<open>Reserved maps\<close>

lemma maps_path_value:
  "matchPath (maps_path p) (str ''v1'' # str ''maps'' # m # rest) = Some vs \<Longrightarrow> PathValue vs (str ''map'') = m"
  by (auto simp: maps_path_def PathValue_def split: if_splits)

lemma queues_path_other: "matchPath (queues_path p) (str ''v1'' # str ''maps'' # rest) = None"
  by (simp add: queues_path_def str_def)

lemma page_other: "matchPath [Lit l] (x # y # rest) = None"
  by simp

lemma maps_handler_cases:
  assumes "(m, p, h) \<in> set (routes send a c)" "matchPath p (str ''v1'' # str ''maps'' # rest) = Some vs"
  obtains p' where "p = maps_path p'"
    "h \<in> {map_query send a, map_get send a, map_put send a, map_execute send a, map_evict send a, map_clear send a, map_remove send a}"
  using assms by (auto simp: routes_def queues_path_other page_other simp del: matchPath.simps)

lemma reserved_blocked:
  assumes "h \<in> {map_query send a, map_get send a, map_put send a, map_execute send a, map_evict send a, map_clear send a, map_remove send a}"
    "IsReservedMap (PathValue vs (str ''map''))"
  shows "h r vs w = (writeText [] 404 (Text (str ''not found'')), w)"
  using assms
  by (auto simp: reservedMapBlocked_def map_query_def map_get_def map_put_def map_execute_def map_evict_def map_clear_def
      map_remove_def)

text \<open>
  C12: The maps that hold the queues cannot be read, written or wiped through the map routes: a request
  whose path names a reserved map, with any method and any form of escaping, leaves the cluster as it
  is, and it is answered 404, or by the token check or the mux.
\<close>

theorem http_reserved:
  assumes "IsReservedMap m" "segments (rq_EscapedPath r) = str ''v1'' # str ''maps'' # m # rest"
  shows "snd (New send a c [WithToken token] r w) = w \<and> rs_Status (fst (New send a c [WithToken token] r w)) \<in> {301, 400, 401, 404, 405}"
proof -
  have "snd (ServeHTTP (routes send a c) r w) = w \<and> rs_Status (fst (ServeHTTP (routes send a c) r w)) \<in> {301, 400, 401, 404, 405}"
  proof (cases "findHandler (routes send a c) r")
    case (Inl e)
    then show ?thesis by (cases e) (simp_all add: ServeHTTP_def respond_def mux_status_def)
  next
    case (Inr vh)
    obtain vs h where vh: "vh = (vs, h)" by (cases vh)
    from Inr vh obtain m' p where p: "(m', p, h) \<in> set (routes send a c)" "matchPath p (segments (rq_EscapedPath r)) = Some vs"
      by (auto elim: handler_cases)
    from p(2) have p2: "matchPath p (str ''v1'' # str ''maps'' # m # rest) = Some vs" unfolding assms(2) .
    have "h r vs w = (writeText [] 404 (Text (str ''not found'')), w)"
    proof (rule maps_handler_cases [OF p(1) p2])
      fix p'
      assume pp: "p = maps_path p'"
      with p2 have "PathValue vs (str ''map'') = m" by (simp add: maps_path_value)
      with assms(1) show "h r vs w = (writeText [] 404 (Text (str ''not found'')), w)"
        if "h \<in> {map_query send a, map_get send a, map_put send a, map_execute send a, map_evict send a, map_clear send a, map_remove send a}"
        using reserved_blocked [OF that, of vs r w] by simp
    qed
    then show ?thesis using Inr vh by (simp add: ServeHTTP_def writeText_def respond_def)
  qed
  then show ?thesis by (auto simp: New_token requireToken_bearer unauthorized_def writeText_def respond_def)
qed

lemma demo_queue_request:
  "segments (rq_EscapedPath (demo_request m [str ''v1'', str ''maps'', queueMap, k] q b)) =
     [str ''v1'', str ''maps'', queueMap, k]" if "plain_seg k"
  using that by (simp add: segments_rooted plain_seg_def str_def queueMap_def)

theorem http_reserved_witness:
  "\<forall>send c w. snd (New send [10] c [WithToken []] (demo_request (str ''DELETE'') [str ''v1'', str ''maps'', queueMap, [107]] [] []) w) = w"
proof (intro allI)
  fix send :: "'x send" and c :: counters and w
  have "plain_seg [107]" by (simp add: plain_seg_def str_def)
  from http_reserved [OF reserved(1) demo_queue_request [OF this]]
  show "snd (New send [10] c [WithToken []] (demo_request (str ''DELETE'') [str ''v1'', str ''maps'', queueMap, [107]] [] []) w) = w"
    by blast
qed

section \<open>Readiness\<close>

lemma Members_self: "mem_reach m \<Longrightarrow> Members m \<noteq> []"
proof
  assume m: "mem_reach m" "Members m = []"
  then have "length (mem_members m) = 0" by (metis Members_def length_map length_sort_by list.size(3))
  with mem_reach_inv [OF m(1)] show False by (simp add: mem_inv_def)
qed

lemma serve_page:
  assumes "rq_EscapedPath r = rooted segs" "list_all plain_seg segs" "segs \<noteq> []" "rooted segs \<noteq> str ''*''"
    "find_route (routes send a c) (rq_Method r) segs = Some (vs, h)"
  shows "ServeHTTP (routes send a c) r w = h r vs w"
  using assms by (simp add: ServeHTTP_def findHandler_def Let_def clean_rooted segments_rooted matchMethodAndPath_def)

text \<open>
  C38: The readiness probe cannot fail. The view of a node contains the node itself from its creation on,
  before it has joined anything, so \<open>GET /readyz\<close> is answered 200 at every moment, with or without a
  token, and the 503 branch is dead: the probe says no more than the liveness probe.
\<close>

theorem readyz_always:
  assumes "mem_reach (view w a)" "rq_Method r = str ''GET''" "rq_EscapedPath r = str ''/readyz''" "rq_Path r = str ''/readyz''"
  shows "New send a c [WithToken token] r w = (writeText [] 200 (Text (str ''ready'')), w)"
proof -
  have "ServeHTTP (routes send a c) r w = readyz a r [] w"
    using assms(2,3) by (intro serve_page [of r "[str ''readyz'']"]) (simp_all add: rooted_def plain_seg_def str_def routes_def)
  also have "\<dots> = (writeText [] 200 (Text (str ''ready'')), w)" by (simp add: readyz_def Members_self [OF assms(1)])
  finally show ?thesis using assms(4) by (simp add: New_token requireToken_bearer)
qed

theorem readyz_always_witness:
  "\<forall>send c w. New send [10] c [WithToken [7]] (demo_request (str ''GET'') [str ''readyz''] [] []) (set_mem [10] demo_view w) =
     (writeText [] 200 (Text (str ''ready'')), set_mem [10] demo_view w)"
proof (intro allI)
  fix send :: "'x send" and c :: counters and w :: "'x world"
  have p: "rooted [str ''readyz''] = str ''/readyz''" by (simp add: rooted_def str_def)
  show "New send [10] c [WithToken [7]] (demo_request (str ''GET'') [str ''readyz''] [] []) (set_mem [10] demo_view w) =
     (writeText [] 200 (Text (str ''ready'')), set_mem [10] demo_view w)"
    by (rule readyz_always) (simp_all add: p demo_view_reach)
qed

section \<open>Short times to live\<close>

text \<open>
  C37: A positive time to live below one millisecond is no expiry at all. \<open>PutTTL\<close> documents that only a
  non-positive duration means that the entry never expires, but it truncates the duration to whole
  milliseconds first, and zero milliseconds is the encoding of a put without expiry: the entry is stored
  for ever. \<open>PUT /v1/maps/{map}/{key}?ttl=500us\<close> shows it.
\<close>

theorem short_ttl_forever:
  assumes "0 < ttl" "ttl < millisecond"
  shows "Map_PutTTL send a name key val ttl w = Map_Put send a name key val w"
  using assms by (simp add: Map_PutTTL_def Map_Put_def go_div_def)

theorem short_ttl_forever_witness:
  "ParseDuration (str ''500us'') = Inr 500000 \<and>
    (\<forall>send w. Map_PutTTL send [10] [1] [2] [3] 500000 w = Map_Put send [10] [1] [2] [3] w)"
proof
  show "ParseDuration (str ''500us'') = Inr 500000" by code_simp
  show "\<forall>send w. Map_PutTTL send [10] [1] [2] [3] 500000 w = Map_Put send [10] [1] [2] [3] w"
    by (intro allI short_ttl_forever) (simp_all add: millisecond_def)
qed

section \<open>Requests for an entry\<close>

text \<open>The path of an entry, and what an authorised request for it runs.\<close>

definition entry_path :: "bytes \<Rightarrow> bytes \<Rightarrow> bytes" where
  "entry_path name key = rooted [str ''v1'', str ''maps'', name, key]"

definition entry_values :: "bytes \<Rightarrow> bytes \<Rightarrow> path_values" where
  "entry_values name key = [(str ''map'', name), (str ''key'', key)]"

lemma entry_values_get [simp]:
  "PathValue (entry_values name key) (str ''map'') = name" "PathValue (entry_values name key) (str ''key'') = key"
  by (simp_all add: entry_values_def PathValue_def str_def)

definition authorised :: "bytes \<Rightarrow> http_request \<Rightarrow> bool" where
  "authorised token r \<longleftrightarrow> token = [] \<or> rq_Authorization r = str ''Bearer '' @ token"

lemma plain_seg_slash: "plain_seg s \<Longrightarrow> s \<noteq> [47]"
  by (auto simp: plain_seg_def)

lemma entry_routes:
  assumes "plain_seg name" "plain_seg key"
  shows "find_route (routes send a c) (str ''PUT'') [str ''v1'', str ''maps'', name, key] = Some (entry_values name key, map_put send a)"
    and "find_route (routes send a c) (str ''GET'') [str ''v1'', str ''maps'', name, key] = Some (entry_values name key, map_get send a)"
  using plain_seg_slash [OF assms(1)] plain_seg_slash [OF assms(2)]
  by (simp_all add: routes_def maps_path_def queues_path_def str_def entry_values_def)

lemma serve_entry:
  assumes "plain_seg name" "plain_seg key" "authorised token r" "rq_EscapedPath r = entry_path name key"
    "find_route (routes send a c) (rq_Method r) [str ''v1'', str ''maps'', name, key] = Some (vs, h)"
    "rq_Path r \<notin> {str ''/healthz'', str ''/readyz''}"
  shows "New send a c [WithToken token] r w = h r vs w"
proof -
  have "ServeHTTP (routes send a c) r w = h r vs w"
    using assms by (intro serve_page [OF assms(4) [unfolded entry_path_def]]) (simp_all add: plain_seg_def str_def rooted_def)
  with assms(3,6) show ?thesis by (auto simp: New_token requireToken_bearer authorised_def)
qed

lemma http_put_ok:
  assumes "map_put send a r (entry_values name key) w = (resp, w')" "rs_Status resp = 204" "Query_Get r (str ''ttl'') = []"
  shows "Map_Put send a name key (rq_Body r) w = (None, w')"
proof -
  have "\<not> IsReservedMap name" "ReadAll_max maxBodyBytes r = Inr (rq_Body r)"
    using assms by (auto simp: map_put_def reservedMapBlocked_def ReadAll_max_def writeText_def respond_def Let_def
        split: if_splits option.splits sum.splits)
  with assms show ?thesis
    by (auto simp: map_put_def reservedMapBlocked_def put_reply_def noContent_def writeText_def respond_def
        split: option.splits prod.splits)
qed

lemma http_get_ok:
  assumes "Map_Get send a name key w = ((v, True, None), w')" "\<not> IsReservedMap name"
  shows "map_get send a r (entry_values name key) w = (octets v, w')"
  using assms by (simp add: map_get_def reservedMapBlocked_def)

end
