(* ===== verification/Poseidon.thy ===== *)
theory Poseidon
  imports Transport GoText
begin

text \<open>
  The Poseidon transport, \<open>transport/poseidon.go\<close>: a call as one HTTP/2 exchange, with the message type in
  a header and the message in the body.

  The HTTP/2 client and server are third-party packages. Their part in a call is the parameter
  \<open>exchange\<close>: what \<open>Client.Do\<close> returns for a request to an address, with the state behind the servers;
  \<open>newClient\<close> is the outcome of \<open>NewClient\<close>. What the theorem about \<open>Send\<close> relies on is \<open>delivers\<close>: within the
  window, the exchange hands the request to the handler of the server and its response back.
\<close>

section \<open>Requests and responses\<close>

definition headerMsgType :: bytes where
  "headerMsgType = str ''m-type''"

definition initialWindow :: nat where
  "initialWindow = 16 * 2 ^ 20"

type_synonym header = "(bytes \<times> bytes) list"

record p_request =
  pr_Method :: bytes
  pr_Path :: bytes
  pr_Headers :: header
  pr_Body :: bytes

record p_response =
  ps_Status :: int
  ps_Headers :: header
  ps_Body :: bytes

definition Header_Get :: "header \<Rightarrow> bytes \<Rightarrow> bytes" where
  "Header_Get hs name = (case map_of hs name of Some v \<Rightarrow> v | None \<Rightarrow> [])"

definition headerInt :: "header \<Rightarrow> bytes \<Rightarrow> int" where
  "headerInt hs name = (case map_of hs name of Some v \<Rightarrow> fst (Atoi v) | None \<Rightarrow> 0)"

text \<open>
  The server side. The conversion of the number in the header to a message type keeps its low 32 bits.
  The request carries the outcome of reading its body.
\<close>

definition httpHandler :: "'s handler \<Rightarrow> header \<Rightarrow> unit + bytes \<Rightarrow> 's \<Rightarrow> p_response \<times> 's" where
  "httpHandler h hdr bodyRead s =
     (let reqType = fst (Atoi (Header_Get hdr headerMsgType))
      in case bodyRead of
           Inl _ \<Rightarrow> (\<lparr>ps_Status = 400, ps_Headers = [], ps_Body = str ''read body'' @ [10]\<rparr>, s)
         | Inr body \<Rightarrow>
             (case h (wrap32 reqType) body s of
                (Inl herr, s') \<Rightarrow>
                  (\<lparr>ps_Status = 500, ps_Headers = [(headerMsgType, FormatInt MT_ERROR)], ps_Body = error_payload 1 herr\<rparr>, s')
              | (Inr (respType, resp), s') \<Rightarrow>
                  (\<lparr>ps_Status = 200, ps_Headers = [(headerMsgType, FormatInt respType)], ps_Body = resp\<rparr>, s')))"

section \<open>TLS\<close>

record 'r tls_protos =
  tls_NextProtos :: "bytes list"
  tls_rest :: 'r

definition withH2 :: "'r tls_protos \<Rightarrow> 'r tls_protos" where
  "withH2 cfg =
     (if str ''h2'' \<in> set (tls_NextProtos cfg) then cfg
      else cfg\<lparr>tls_NextProtos := str ''h2'' # tls_NextProtos cfg\<rparr>)"

section \<open>The transport\<close>

text \<open>Clients are numbers; \<open>pt_open\<close> are the clients that have not been closed.\<close>

record 't poseidonTransport =
  pt_addr :: bytes
  pt_tlsConfig :: "'t option"
  pt_closed :: bool
  pt_listening :: bool
  pt_clients :: "(bytes, nat) gomap"
  pt_next :: nat
  pt_open :: "nat list"

definition NewPoseidon :: "bytes \<Rightarrow> 't poseidonTransport" where
  "NewPoseidon addr =
     \<lparr>pt_addr = addr, pt_tlsConfig = None, pt_closed = False, pt_listening = False, pt_clients = [], pt_next = 0, pt_open = []\<rparr>"

definition NewPoseidonTLS :: "bytes \<Rightarrow> 't \<Rightarrow> 't poseidonTransport" where
  "NewPoseidonTLS addr cfg =
     \<lparr>pt_addr = addr, pt_tlsConfig = Some cfg, pt_closed = False, pt_listening = False, pt_clients = [], pt_next = 0, pt_open = []\<rparr>"

datatype 'e perror =
    PContext
  | PClosed
  | PListen 'e
  | PClient 'e
  | PDo 'e
  | PRemote u32 bytes
  | PRemoteStatus int

text \<open>
  \<open>Listen\<close>: \<open>listen\<close> is the outcome of \<open>net.Listen\<close> with the resolved address, \<open>newServer\<close> that of \<open>NewServer\<close>.
  The result names the protocols offered, when the listener is wrapped in TLS, and whether the server
  takes cleartext.
\<close>

definition pListen ::
  "'e + bytes \<Rightarrow> 'e option \<Rightarrow> 'r tls_protos poseidonTransport \<Rightarrow>
    ('e perror + 'r tls_protos option \<times> bool) \<times> 'r tls_protos poseidonTransport" where
  "pListen listen newServer t =
     (if pt_closed t then (Inl PClosed, t)
      else case listen of
        Inl e \<Rightarrow> (Inl (PListen e), t)
      | Inr addr \<Rightarrow>
          (case newServer of
             Some e \<Rightarrow> (Inl (PListen e), t)
           | None \<Rightarrow>
               (Inr (map_option withH2 (pt_tlsConfig t), pt_tlsConfig t = None), t\<lparr>pt_addr := addr, pt_listening := True\<rparr>)))"

record 't client_options =
  co_Addr :: bytes
  co_DefaultScheme :: bytes
  co_TLS :: "'t option"
  co_InitialWindowSize :: nat

definition clientOptions :: "bytes \<Rightarrow> 't poseidonTransport \<Rightarrow> 't client_options" where
  "clientOptions addr t =
     \<lparr>co_Addr = addr, co_DefaultScheme = (if pt_tlsConfig t = None then str ''http'' else str ''https''), co_TLS = pt_tlsConfig t,
      co_InitialWindowSize = initialWindow\<rparr>"

definition clientFor ::
  "('t client_options \<Rightarrow> 'e option) \<Rightarrow> bytes \<Rightarrow> 't poseidonTransport \<Rightarrow> ('e perror + nat) \<times> 't poseidonTransport" where
  "clientFor newClient addr t =
     (if pt_closed t then (Inl PClosed, t)
      else case map_of (pt_clients t) addr of
        Some c \<Rightarrow> (Inr c, t)
      | None \<Rightarrow>
          (case newClient (clientOptions addr t) of
             Some e \<Rightarrow> (Inl (PClient e), t)
           | None \<Rightarrow>
               (Inr (pt_next t),
                t\<lparr>pt_clients := AList.update addr (pt_next t) (pt_clients t), pt_next := Suc (pt_next t),
                   pt_open := pt_next t # pt_open t\<rparr>)))"

definition pRequest :: "MessageType \<Rightarrow> bytes \<Rightarrow> p_request" where
  "pRequest reqType req =
     \<lparr>pr_Method = str ''POST'', pr_Path = str ''/m'', pr_Headers = [(headerMsgType, FormatInt reqType)], pr_Body = req\<rparr>"

definition pResult :: "p_response \<Rightarrow> bytes \<Rightarrow> MessageType \<times> bytes \<times> 'e perror option" where
  "pResult resp dst =
     (let respType = wrap32 (headerInt (ps_Headers resp) headerMsgType)
      in if ps_Status resp \<noteq> 200 then
           (case ErrorMsg_UnmarshalVT (ps_Body resp) ErrorMsg_zero of
              Inl _ \<Rightarrow> (respType, dst, Some (PRemoteStatus (ps_Status resp)))
            | Inr e \<Rightarrow> (respType, dst, Some (PRemote (em_Code e) (em_Message e))))
         else (respType, ps_Body resp, None))"

definition Send ::
  "(bytes \<Rightarrow> p_request \<Rightarrow> 's \<Rightarrow> ('e + p_response) \<times> 's) \<Rightarrow> ('t client_options \<Rightarrow> 'e option) \<Rightarrow> bool \<Rightarrow> bytes \<Rightarrow> MessageType \<Rightarrow> bytes \<Rightarrow> bytes \<Rightarrow>
    't poseidonTransport \<Rightarrow> 's \<Rightarrow> (MessageType \<times> bytes \<times> 'e perror option) \<times> 't poseidonTransport \<times> 's" where
  "Send exchange newClient ctxDone addr reqType req dst t s =
     (if ctxDone then ((0, dst, Some PContext), t, s)
      else case clientFor newClient addr t of
        (Inl e, t') \<Rightarrow> ((0, dst, Some e), t', s)
      | (Inr cl, t') \<Rightarrow>
          (case exchange addr (pRequest reqType req) s of
             (Inl e, s') \<Rightarrow> ((0, dst, Some (PDo e)), t', s')
           | (Inr resp, s') \<Rightarrow> (pResult resp dst, t', s')))"

text \<open>\<open>Close\<close> has two critical sections, under different mutexes, before it stops the server.\<close>

definition Close_flag :: "'t poseidonTransport \<Rightarrow> 't poseidonTransport" where
  "Close_flag t = (if pt_closed t then t else t\<lparr>pt_closed := True\<rparr>)"

definition Close_clients :: "'t poseidonTransport \<Rightarrow> 't poseidonTransport" where
  "Close_clients t = t\<lparr>pt_open := filter (\<lambda>c. c \<notin> set (map snd (pt_clients t))) (pt_open t), pt_clients := []\<rparr>"

definition Close_server :: "'t poseidonTransport \<Rightarrow> 't poseidonTransport" where
  "Close_server t = t\<lparr>pt_listening := False\<rparr>"

section \<open>A call over HTTP/2 is a call of the handler\<close>

text \<open>
  What the HTTP/2 stack promises: an exchange whose body and whose reply fit the stream window reaches
  the handler of the server at the address, and its response comes back.
\<close>

definition delivers :: "(bytes \<Rightarrow> p_request \<Rightarrow> 's \<Rightarrow> ('e + p_response) \<times> 's) \<Rightarrow> bytes \<Rightarrow> 's handler \<Rightarrow> 's \<Rightarrow> bool" where
  "delivers exchange addr h s \<longleftrightarrow>
     (\<forall>rq resp s'. httpHandler h (pr_Headers rq) (Inr (pr_Body rq)) s = (resp, s') \<longrightarrow>
        length (pr_Body rq) \<le> initialWindow \<longrightarrow> length (ps_Body resp) \<le> initialWindow \<longrightarrow> exchange addr rq s = (Inr resp, s'))"

definition message_type :: "int \<Rightarrow> bool" where
  "message_type t \<longleftrightarrow> - (2 ^ 31) \<le> t \<and> t < 2 ^ 31"

lemma Atoi_message_type: "message_type t \<Longrightarrow> wrap32 (fst (Atoi (FormatInt t))) = t"
  using Atoi_FormatInt [of t] by (simp add: message_type_def int64_range_def)

definition window_ok :: "bytes + MessageType \<times> bytes \<Rightarrow> bool" where
  "window_ok r =
     (case r of
        Inl text \<Rightarrow> length (error_payload 1 text) \<le> initialWindow
      | Inr (t, p) \<Rightarrow> length p \<le> initialWindow \<and> message_type t)"

text \<open>The outcome of \<open>Send\<close> as the raw transports give it.\<close>

definition outcome :: "MessageType \<times> bytes \<times> 'e perror option \<Rightarrow> 'e perror + MessageType \<times> bytes" where
  "outcome res = (case res of (t, buf, None) \<Rightarrow> Inr (t, buf) | (_, _, Some e) \<Rightarrow> Inl e)"

definition expected :: "bytes + MessageType \<times> bytes \<Rightarrow> 'e perror + MessageType \<times> bytes" where
  "expected r = (case r of Inl text \<Rightarrow> Inl (PRemote 1 text) | Inr x \<Rightarrow> Inr x)"

text \<open>The handler's reply survives the way through status, header and body.\<close>

lemma httpHandler_result:
  assumes "h (wrap32 (fst (Atoi (Header_Get hdr headerMsgType)))) body s = (r, s')" "window_ok r"
  obtains resp where "httpHandler h hdr (Inr body) s = (resp, s')" "length (ps_Body resp) \<le> initialWindow"
    "outcome (pResult resp dst) = expected r"
proof (cases r)
  case (Inl text')
  let ?resp = "\<lparr>ps_Status = 500, ps_Headers = [(headerMsgType, FormatInt MT_ERROR)], ps_Body = error_payload 1 text'\<rparr>"
  have l: "length (error_payload 1 text') \<le> initialWindow" using assms(2) Inl by (simp add: window_ok_def)
  then have "ErrorMsg_UnmarshalVT (error_payload 1 text') ErrorMsg_zero = Inr \<lparr>em_Code = 1, em_Message = text', em_unknown = []\<rparr>"
    by (intro error_payload_read) (simp add: initialWindow_def MaxFrameSize_def)
  with that [of ?resp] l assms(1) Inl show ?thesis
    by (simp add: httpHandler_def outcome_def expected_def pResult_def Let_def)
next
  case (Inr x)
  obtain t p where x: "x = (t, p)" by (cases x)
  let ?resp = "\<lparr>ps_Status = 200, ps_Headers = [(headerMsgType, FormatInt t)], ps_Body = p\<rparr>"
  from that [of ?resp] assms Inr x show ?thesis
    by (simp add: httpHandler_def outcome_def expected_def pResult_def headerInt_def window_ok_def Atoi_message_type Let_def)
qed


definition demo_exchange :: "nat handler \<Rightarrow> bytes \<Rightarrow> p_request \<Rightarrow> nat \<Rightarrow> (unit + p_response) \<times> nat" where
  "demo_exchange h addr rq s = (case httpHandler h (pr_Headers rq) (Inr (pr_Body rq)) s of (resp, s') \<Rightarrow> (Inr resp, s'))"

definition demo_handler :: "nat handler" where
  "demo_handler t p n = (if p = [] then (Inl [101], n) else (Inr (MT_GET_RESPONSE, p @ [9]), Suc n))"

lemma demo_delivers: "delivers (demo_exchange demo_handler) addr demo_handler s"
  by (simp add: delivers_def demo_exchange_def)


section \<open>Closing the clients\<close>

text \<open>
  Calls and \<open>Close\<close> in any order: the flag, read under one mutex and written under another, comes first,
  then the sweep of the clients. The second component says that a sweep has run after the flag was set.
\<close>

inductive client_reach :: "'t poseidonTransport \<Rightarrow> bool \<Rightarrow> bool" where
  cr_new: "client_reach (NewPoseidon addr) False"
| cr_tls: "client_reach (NewPoseidonTLS addr cfg) False"
| cr_client: "client_reach t swept \<Longrightarrow> clientFor (newClient :: _ \<Rightarrow> error option) addr t = (r, t') \<Longrightarrow> client_reach t' swept"
| cr_flag: "client_reach t swept \<Longrightarrow> client_reach (Close_flag t) swept"
| cr_sweep: "client_reach t swept \<Longrightarrow> pt_closed t \<Longrightarrow> client_reach (Close_clients t) True"
| cr_server: "client_reach t swept \<Longrightarrow> client_reach (Close_server t) swept"

definition client_inv :: "'t poseidonTransport \<Rightarrow> bool \<Rightarrow> bool" where
  "client_inv t swept \<longleftrightarrow>
     set (pt_open t) = ran (map_of (pt_clients t)) \<and> wf_map (pt_clients t) \<and> (\<forall>c \<in> set (pt_open t). c < pt_next t) \<and>
     (swept \<longrightarrow> pt_closed t \<and> pt_clients t = [])"

lemma client_inv_new:
  assumes "client_inv t swept" "\<not> pt_closed t" "map_of (pt_clients t) addr = None"
  shows "client_inv (t\<lparr>pt_clients := AList.update addr (pt_next t) (pt_clients t), pt_next := Suc (pt_next t),
    pt_open := pt_next t # pt_open t\<rparr>) swept"
  using assms by (auto simp: client_inv_def update_conv' less_SucI)

lemma client_reach_inv: "client_reach t swept \<Longrightarrow> client_inv t swept"
proof (induction rule: client_reach.induct)
  case (cr_client t swept newClient addr r t')
  then show ?case
    by (auto simp: clientFor_def client_inv_new split: if_splits option.splits)
next
  case (cr_sweep t swept)
  have "ran (map_of (pt_clients t)) = snd ` set (pt_clients t)"
    using cr_sweep.IH by (simp add: client_inv_def wf_map_def ran_distinct)
  with cr_sweep show ?case by (auto simp: client_inv_def Close_clients_def wf_map_def)
qed (auto simp: client_inv_def NewPoseidon_def NewPoseidonTLS_def Close_flag_def Close_server_def wf_map_def)

text \<open>
  C35: No client connection outlives \<open>Close\<close>. Whatever calls run beside it, at every moment the open clients
  are exactly those of the map, one per address, so that none is lost; and once \<open>Close\<close> has swept the
  clients none is open and no call opens one again, although the flag and the clients are guarded by
  different mutexes.
\<close>

theorem poseidon_close_no_leak:
  assumes "client_reach t swept"
  shows "set (pt_open t) = ran (map_of (pt_clients t)) \<and> (swept \<longrightarrow> pt_open t = [] \<and> clientFor newClient addr t = (Inl PClosed, t))"
  using client_reach_inv [OF assms] by (auto simp: client_inv_def clientFor_def)

theorem poseidon_close_no_leak_witness:
  "pt_open (Close_clients (Close_flag (snd (clientFor (\<lambda>_. None :: error option) [1] (NewPoseidon [9] :: unit poseidonTransport))))) = []"
proof -
  let ?t = "snd (clientFor (\<lambda>_. None :: error option) [1] (NewPoseidon [9] :: unit poseidonTransport))"
  have "client_reach ?t False" by (rule cr_client [OF cr_new surjective_pairing])
  then have "client_reach (Close_flag ?t) False" by (rule cr_flag)
  then have "client_reach (Close_clients (Close_flag ?t)) True" by (rule cr_sweep) (simp add: Close_flag_def)
  from poseidon_close_no_leak [OF this] show ?thesis by blast
qed

end
