(* ===== verification/TcpServer.thy ===== *)
theory TcpServer
  imports Transport
begin

text \<open>
  The server side of \<open>transport/tcp.go\<close>: \<open>Listen\<close>, the accept loop, the goroutine that serves a
  connection, and \<open>Close\<close>, as an interleaving of their steps. What a serving goroutine does with the
  frames of its connection is \<open>serveConn\<close> of theory \<open>Transport\<close>; here it is one step of a goroutine that
  has registered itself. A step is what runs between two synchronisations: a critical section, or one of
  the operations on the wait group, the listener and the connections outside of it.

  The theorems are about shutdown: \<open>Close\<close> always returns, without any help of the peers, and no
  connection survives it; and one schedule in which it returns too early.
\<close>

section \<open>The goroutines\<close>

text \<open>
  Program counters. A goroutine of a connection has been started, has registered, has left its loop, has
  removed its registration (or never had one), or is done. The accept loop has not been started, is
  started by \<open>Listen\<close> but not yet counted, runs, or is done.
\<close>

datatype conn_pc = CSpawned | CServing | CLeaving | CUnreg | CDone
datatype accept_pc = ANone | AStart | ALoop | ADone
datatype close_pc = KIdle | KListener "nat list" | KConns "nat list" | KWait | KReturned

record tcpServer =
  ts_closed :: bool
  ts_ln :: bool \<comment> \<open>the listener is open\<close>
  ts_conns :: "conn_pc list"
  ts_open :: "nat list"
  ts_serving :: "nat list"
  ts_wg :: nat
  ts_accept :: accept_pc
  ts_close :: close_pc

definition NewTCP_server :: tcpServer where
  "NewTCP_server =
     \<lparr>ts_closed = False, ts_ln = False, ts_conns = [], ts_open = [], ts_serving = [], ts_wg = 0, ts_accept = ANone, ts_close = KIdle\<rparr>"

text \<open>
  \<open>Listen\<close>: its critical section opens the listener, which may fail; counting the accept loop and starting
  it come after.
\<close>

definition Listen_locked :: "bool \<Rightarrow> tcpServer \<Rightarrow> bool \<times> tcpServer" where
  "Listen_locked opens t =
     (if ts_closed t then (False, t)
      else if \<not> opens then (False, t)
      else (True, t\<lparr>ts_ln := True, ts_accept := AStart\<rparr>))"

definition Listen_go :: "tcpServer \<Rightarrow> tcpServer" where
  "Listen_go t = t\<lparr>ts_wg := ts_wg t + 1, ts_accept := ALoop\<rparr>"

definition acceptLoop_conn :: "tcpServer \<Rightarrow> tcpServer" where
  "acceptLoop_conn t =
     t\<lparr>ts_conns := ts_conns t @ [CSpawned], ts_open := length (ts_conns t) # ts_open t, ts_wg := ts_wg t + 1\<rparr>"

definition acceptLoop_exit :: "tcpServer \<Rightarrow> tcpServer" where
  "acceptLoop_exit t = t\<lparr>ts_accept := ADone, ts_wg := ts_wg t - 1\<rparr>"

definition set_pc :: "nat \<Rightarrow> conn_pc \<Rightarrow> tcpServer \<Rightarrow> tcpServer" where
  "set_pc i pc t = t\<lparr>ts_conns := (ts_conns t)[i := pc]\<rparr>"

definition serveConn_register :: "nat \<Rightarrow> tcpServer \<Rightarrow> tcpServer" where
  "serveConn_register i t =
     (if ts_closed t then set_pc i CUnreg t else set_pc i CServing (t\<lparr>ts_serving := i # ts_serving t\<rparr>))"

definition serveConn_leave :: "nat \<Rightarrow> tcpServer \<Rightarrow> tcpServer" where
  "serveConn_leave i t = set_pc i CLeaving t"

definition serveConn_unregister :: "nat \<Rightarrow> tcpServer \<Rightarrow> tcpServer" where
  "serveConn_unregister i t = set_pc i CUnreg (t\<lparr>ts_serving := removeAll i (ts_serving t)\<rparr>)"

definition serveConn_done :: "nat \<Rightarrow> tcpServer \<Rightarrow> tcpServer" where
  "serveConn_done i t = set_pc i CDone (t\<lparr>ts_open := removeAll i (ts_open t), ts_wg := ts_wg t - 1\<rparr>)"

text \<open>\<open>Close\<close>: mark, close the listener, close the connections that were registered, wait.\<close>

definition Close_mark :: "tcpServer \<Rightarrow> tcpServer" where
  "Close_mark t =
     (if ts_closed t then t else t\<lparr>ts_closed := True, ts_serving := [], ts_close := KListener (ts_serving t)\<rparr>)"

definition Close_listener :: "nat list \<Rightarrow> tcpServer \<Rightarrow> tcpServer" where
  "Close_listener serving t = t\<lparr>ts_ln := False, ts_close := KConns serving\<rparr>"

definition Close_conns :: "nat list \<Rightarrow> tcpServer \<Rightarrow> tcpServer" where
  "Close_conns serving t = t\<lparr>ts_open := filter (\<lambda>c. c \<notin> set serving) (ts_open t), ts_close := KWait\<rparr>"

definition Close_return :: "tcpServer \<Rightarrow> tcpServer" where
  "Close_return t = t\<lparr>ts_close := KReturned\<rparr>"

definition has_pc :: "tcpServer \<Rightarrow> nat \<Rightarrow> conn_pc \<Rightarrow> bool" where
  "has_pc t i pc \<longleftrightarrow> i < length (ts_conns t) \<and> ts_conns t ! i = pc"

text \<open>
  The schedules. \<open>Listen\<close> is called at most once, as the interface asks. A read fails once the connection
  is closed on this side, and it may fail at any time when the peer closes (\<open>st_peer\<close>).
\<close>

inductive server_step :: "tcpServer \<Rightarrow> tcpServer \<Rightarrow> bool" where
  st_listen: "ts_accept t = ANone \<Longrightarrow> Listen_locked opens t = (True, t') \<Longrightarrow> server_step t t'"
| st_start: "ts_accept t = AStart \<Longrightarrow> server_step t (Listen_go t)"
| st_accept: "ts_accept t = ALoop \<Longrightarrow> ts_ln t \<Longrightarrow> server_step t (acceptLoop_conn t)"
| st_exit: "ts_accept t = ALoop \<Longrightarrow> \<not> ts_ln t \<Longrightarrow> server_step t (acceptLoop_exit t)"
| st_register: "has_pc t i CSpawned \<Longrightarrow> server_step t (serveConn_register i t)"
| st_closed: "has_pc t i CServing \<Longrightarrow> i \<notin> set (ts_open t) \<Longrightarrow> server_step t (serveConn_leave i t)"
| st_peer: "has_pc t i CServing \<Longrightarrow> i \<in> set (ts_open t) \<Longrightarrow> server_step t (serveConn_leave i t)"
| st_unregister: "has_pc t i CLeaving \<Longrightarrow> server_step t (serveConn_unregister i t)"
| st_done: "has_pc t i CUnreg \<Longrightarrow> server_step t (serveConn_done i t)"
| st_close: "ts_close t = KIdle \<Longrightarrow> server_step t (Close_mark t)"
| st_close_ln: "ts_close t = KListener s \<Longrightarrow> server_step t (Close_listener s t)"
| st_close_conns: "ts_close t = KConns s \<Longrightarrow> server_step t (Close_conns s t)"
| st_return: "ts_close t = KWait \<Longrightarrow> ts_wg t = 0 \<Longrightarrow> server_step t (Close_return t)"

inductive server_reach :: "tcpServer \<Rightarrow> bool" where
  sr_new: "server_reach NewTCP_server"
| sr_step: "server_reach t \<Longrightarrow> server_step t t' \<Longrightarrow> server_reach t'"

section \<open>The invariant\<close>

definition running :: "conn_pc list \<Rightarrow> nat" where
  "running pcs = length (filter (\<lambda>pc. pc \<noteq> CDone) pcs)"

text \<open>Where a serving connection is found: registered, in the hands of \<open>Close\<close>, or closed.\<close>

definition tracked :: "tcpServer \<Rightarrow> nat \<Rightarrow> bool" where
  "tracked t i =
     (case ts_close t of
        KIdle \<Rightarrow> i \<in> set (ts_serving t)
      | KListener s \<Rightarrow> i \<in> set s
      | KConns s \<Rightarrow> i \<in> set s
      | _ \<Rightarrow> i \<notin> set (ts_open t))"

definition server_inv :: "tcpServer \<Rightarrow> bool" where
  "server_inv t \<longleftrightarrow>
     (ts_closed t \<longleftrightarrow> ts_close t \<noteq> KIdle) \<and>
     (ts_close t \<in> {KWait, KReturned} \<or> (\<exists>s. ts_close t = KConns s) \<longrightarrow> \<not> ts_ln t) \<and>
     (\<forall>i. has_pc t i CServing \<longrightarrow> tracked t i) \<and>
     ts_wg t = (if ts_accept t = ALoop then 1 else 0) + running (ts_conns t) \<and>
     (\<forall>i \<in> set (ts_open t). i < length (ts_conns t) \<and> ts_conns t ! i \<noteq> CDone) \<and>
     (ts_close t = KReturned \<longrightarrow> running (ts_conns t) = 0)"

lemma running_update:
  "i < length pcs \<Longrightarrow> pcs ! i \<noteq> CDone \<Longrightarrow> running (pcs[i := pc]) + (if pc = CDone then 1 else 0) = running pcs"
  by (induction pcs arbitrary: i) (auto simp: running_def split: nat.splits)

lemma running_snoc [simp]: "running (pcs @ [CSpawned]) = running pcs + 1"
  by (simp add: running_def)

lemma running_0: "running pcs = 0 \<longleftrightarrow> (\<forall>pc \<in> set pcs. pc = CDone)"
  by (auto simp: running_def filter_empty_conv)

lemma set_pc_sel [simp]:
  "ts_closed (set_pc i pc t) = ts_closed t" "ts_ln (set_pc i pc t) = ts_ln t" "ts_open (set_pc i pc t) = ts_open t"
  "ts_serving (set_pc i pc t) = ts_serving t" "ts_wg (set_pc i pc t) = ts_wg t" "ts_accept (set_pc i pc t) = ts_accept t"
  "ts_close (set_pc i pc t) = ts_close t" "ts_conns (set_pc i pc t) = (ts_conns t)[i := pc]"
  by (simp_all add: set_pc_def)

lemma has_pc_set [simp]:
  "has_pc (set_pc i pc t) j q \<longleftrightarrow> (if i = j then i < length (ts_conns t) \<and> pc = q else has_pc t j q)"
  by (auto simp: has_pc_def nth_list_update)

lemmas server_defs = Listen_locked_def Listen_go_def acceptLoop_conn_def acceptLoop_exit_def serveConn_register_def
  serveConn_leave_def serveConn_unregister_def serveConn_done_def Close_mark_def Close_listener_def Close_conns_def Close_return_def

text \<open>A step of the goroutine of a connection: its program counter moves and its connection stays accounted for.\<close>

lemma server_inv_conn:
  assumes "server_inv t" "has_pc t i old" "old \<noteq> CDone" "pc \<noteq> CDone" "pc = CServing \<longrightarrow> \<not> ts_closed t"
    "s = (if pc = CServing then i # ts_serving t else if old = CLeaving then removeAll i (ts_serving t) else ts_serving t)"
  shows "server_inv (set_pc i pc (t\<lparr>ts_serving := s\<rparr>))"
proof -
  have i: "i < length (ts_conns t)" "ts_conns t ! i = old" using assms(2) by (simp_all add: has_pc_def)
  have r: "running ((ts_conns t)[i := pc]) = running (ts_conns t)"
    using running_update [OF i(1), of pc] i(2) assms(3,4) by simp
  have tr: "tracked (set_pc i pc (t\<lparr>ts_serving := s\<rparr>)) j" if "has_pc (set_pc i pc (t\<lparr>ts_serving := s\<rparr>)) j CServing" for j
  proof (cases "i = j")
    case True
    with that assms(1,5,6) show ?thesis by (auto simp: tracked_def server_inv_def split: if_splits)
  next
    case False
    with that have "has_pc t j CServing" by (simp add: has_pc_def)
    with assms(1) have "tracked t j" by (simp add: server_inv_def)
    with False assms(6) show ?thesis by (auto simp: tracked_def split: close_pc.splits)
  qed
  have op: "j < length (ts_conns t) \<and> (ts_conns t)[i := pc] ! j \<noteq> CDone" if "j \<in> set (ts_open t)" for j
  proof -
    have "j < length (ts_conns t) \<and> ts_conns t ! j \<noteq> CDone" using that assms(1) unfolding server_inv_def by blast
    with assms(4) i(1) show ?thesis by (simp add: nth_list_update)
  qed
  show ?thesis
    unfolding server_inv_def using assms(1) tr op r by (simp add: server_inv_def)
qed

lemma server_inv_done:
  assumes "server_inv t" "has_pc t i CUnreg"
  shows "server_inv (serveConn_done i t)"
proof -
  have i: "i < length (ts_conns t)" "ts_conns t ! i = CUnreg" using assms(2) by (simp_all add: has_pc_def)
  have r: "running ((ts_conns t)[i := CDone]) + 1 = running (ts_conns t)"
    using running_update [OF i(1), of CDone] i(2) by simp
  have tr: "tracked (serveConn_done i t) j" if "has_pc (serveConn_done i t) j CServing" for j
  proof -
    from that have "has_pc t j CServing" using i(1)
      by (cases "i = j") (simp_all add: serveConn_done_def has_pc_def nth_list_update)
    with assms(1) have "tracked t j" by (simp add: server_inv_def)
    then show ?thesis by (auto simp: tracked_def serveConn_done_def split: close_pc.splits)
  qed
  have op: "j < length (ts_conns t) \<and> (ts_conns t)[i := CDone] ! j \<noteq> CDone" if "j \<in> set (ts_open t)" "j \<noteq> i" for j
  proof -
    have "j < length (ts_conns t) \<and> ts_conns t ! j \<noteq> CDone" using that assms(1) unfolding server_inv_def by blast
    with that i(1) show ?thesis by (simp add: nth_list_update)
  qed
  show ?thesis
    unfolding server_inv_def using assms(1) tr op r by (auto simp: server_inv_def serveConn_done_def)
qed

lemma acceptLoop_conn_sel [simp]:
  "ts_closed (acceptLoop_conn t) = ts_closed t" "ts_ln (acceptLoop_conn t) = ts_ln t" "ts_accept (acceptLoop_conn t) = ts_accept t"
  "ts_close (acceptLoop_conn t) = ts_close t" "ts_conns (acceptLoop_conn t) = ts_conns t @ [CSpawned]"
  "ts_open (acceptLoop_conn t) = length (ts_conns t) # ts_open t" "ts_serving (acceptLoop_conn t) = ts_serving t"
  "ts_wg (acceptLoop_conn t) = ts_wg t + 1"
  by (simp_all add: acceptLoop_conn_def)

lemma server_inv_accept:
  assumes "server_inv t" "ts_ln t"
  shows "server_inv (acceptLoop_conn t)"
proof -
  have k: "ts_close t = KIdle \<or> (\<exists>s. ts_close t = KListener s)" using assms by (cases "ts_close t") (auto simp: server_inv_def)
  have c: "ts_closed t \<longleftrightarrow> ts_close t \<noteq> KIdle" using assms(1) by (simp add: server_inv_def)
  have pc: "has_pc (acceptLoop_conn t) j CServing \<Longrightarrow> has_pc t j CServing" for j
    by (auto simp: has_pc_def nth_append split: if_splits)
  have tr: "\<forall>j. has_pc (acceptLoop_conn t) j CServing \<longrightarrow> tracked (acceptLoop_conn t) j"
  proof (intro allI impI)
    fix j assume "has_pc (acceptLoop_conn t) j CServing"
    with pc assms(1) have "tracked t j" by (simp add: server_inv_def)
    with k show "tracked (acceptLoop_conn t) j" by (auto simp: tracked_def)
  qed
  have op: "\<forall>j \<in> set (ts_open (acceptLoop_conn t)). j < length (ts_conns (acceptLoop_conn t)) \<and> ts_conns (acceptLoop_conn t) ! j \<noteq> CDone"
    using assms(1) by (simp add: server_inv_def nth_append less_SucI)
  have w: "ts_wg t = (if ts_accept t = ALoop then 1 else 0) + running (ts_conns t)" using assms(1) by (simp add: server_inv_def)
  show ?thesis unfolding server_inv_def
    by (intro conjI tr op) (use k c w in auto)
qed

lemma server_inv_serve:
  assumes "server_inv t"
  shows "has_pc t i CSpawned \<Longrightarrow> server_inv (serveConn_register i t)"
    and "has_pc t i CServing \<Longrightarrow> server_inv (serveConn_leave i t)"
    and "has_pc t i CLeaving \<Longrightarrow> server_inv (serveConn_unregister i t)"
proof -
  show "server_inv (serveConn_register i t)" if h: "has_pc t i CSpawned"
    using server_inv_conn [OF assms h, of CUnreg "ts_serving t"] server_inv_conn [OF assms h, of CServing "i # ts_serving t"]
    by (auto simp: serveConn_register_def)
  show "server_inv (serveConn_leave i t)" if h: "has_pc t i CServing"
    using server_inv_conn [OF assms h, of CLeaving "ts_serving t"] by (simp add: serveConn_leave_def)
  show "server_inv (serveConn_unregister i t)" if h: "has_pc t i CLeaving"
    using server_inv_conn [OF assms h, of CUnreg "removeAll i (ts_serving t)"] by (simp add: serveConn_unregister_def)
qed

lemma server_inv_close:
  assumes "server_inv t"
  shows "ts_close t = KIdle \<Longrightarrow> server_inv (Close_mark t)"
    and "ts_close t = KListener s \<Longrightarrow> server_inv (Close_listener s t)"
    and "ts_close t = KConns s \<Longrightarrow> server_inv (Close_conns s t)"
    and "ts_close t = KWait \<Longrightarrow> ts_wg t = 0 \<Longrightarrow> server_inv (Close_return t)"
  using assms by (auto simp: server_inv_def tracked_def has_pc_def server_defs)

text \<open>A step of the accept loop leaves the connections alone and keeps the count.\<close>

lemma server_inv_same:
  assumes "server_inv t" "ts_conns t' = ts_conns t" "ts_open t' = ts_open t" "ts_serving t' = ts_serving t" "ts_close t' = ts_close t"
    "ts_closed t' = ts_closed t" "ts_ln t' \<longrightarrow> ts_ln t \<or> ts_close t = KIdle"
    "ts_wg t' = (if ts_accept t' = ALoop then 1 else 0) + running (ts_conns t)"
  shows "server_inv t'"
proof -
  have "has_pc t' i pc = has_pc t i pc" for i pc using assms(2) by (simp add: has_pc_def)
  moreover have "tracked t' i = tracked t i" for i
    unfolding tracked_def using assms(3-5) by (cases "ts_close t") simp_all
  ultimately show ?thesis using assms unfolding server_inv_def by auto
qed

lemma server_inv_loop:
  assumes "server_inv t"
  shows "ts_accept t = ANone \<Longrightarrow> Listen_locked opens t = (True, t') \<Longrightarrow> server_inv t'"
    and "ts_accept t = AStart \<Longrightarrow> server_inv (Listen_go t)"
    and "ts_accept t = ALoop \<Longrightarrow> server_inv (acceptLoop_exit t)"
proof -
  have w: "ts_wg t = (if ts_accept t = ALoop then 1 else 0) + running (ts_conns t)" "ts_closed t \<longleftrightarrow> ts_close t \<noteq> KIdle"
    using assms by (simp_all add: server_inv_def)
  show "server_inv t'" if "ts_accept t = ANone" "Listen_locked opens t = (True, t')"
    using that w by (intro server_inv_same [OF assms]) (auto simp: Listen_locked_def split: if_splits)
  show "server_inv (Listen_go t)" if "ts_accept t = AStart"
    using that w by (intro server_inv_same [OF assms]) (simp_all add: Listen_go_def)
  show "server_inv (acceptLoop_exit t)" if "ts_accept t = ALoop"
    using that w by (intro server_inv_same [OF assms]) (simp_all add: acceptLoop_exit_def)
qed

lemma server_reach_inv: "server_reach t \<Longrightarrow> server_inv t"
proof (induction rule: server_reach.induct)
  case sr_new
  show ?case by (simp add: server_inv_def NewTCP_server_def has_pc_def running_def)
next
  case (sr_step t t')
  note keeps = server_inv_loop [OF sr_step.IH] server_inv_accept [OF sr_step.IH] server_inv_serve [OF sr_step.IH]
    server_inv_done [OF sr_step.IH] server_inv_close [OF sr_step.IH]
  from sr_step.hyps(2) show ?case by cases (simp_all only: keeps)
qed

section \<open>Shutdown\<close>

definition conn_work :: "conn_pc \<Rightarrow> nat" where
  "conn_work pc = (case pc of CSpawned \<Rightarrow> 4 | CServing \<Rightarrow> 3 | CLeaving \<Rightarrow> 2 | CUnreg \<Rightarrow> 1 | CDone \<Rightarrow> 0)"

definition accept_work :: "accept_pc \<Rightarrow> nat" where
  "accept_work pc = (case pc of AStart \<Rightarrow> 2 | ALoop \<Rightarrow> 1 | _ \<Rightarrow> 0)"

text \<open>The number of steps that are left once \<open>Close\<close> waits.\<close>

definition shutdown_work :: "tcpServer \<Rightarrow> nat" where
  "shutdown_work t =
     sum_list (map conn_work (ts_conns t)) + accept_work (ts_accept t) + (if ts_close t = KWait then 1 else 0)"

lemma conn_work_update:
  "i < length pcs \<Longrightarrow> conn_work pc < conn_work (pcs ! i) \<Longrightarrow>
    sum_list (map conn_work (pcs[i := pc])) < sum_list (map conn_work pcs)"
proof (induction pcs arbitrary: i)
  case (Cons p pcs)
  then show ?case by (cases i) auto
qed simp

lemma set_pc_work:
  "has_pc t i old \<Longrightarrow> conn_work pc < conn_work old \<Longrightarrow> shutdown_work (set_pc i pc t) < shutdown_work t"
  using conn_work_update [of i "ts_conns t" pc] by (auto simp: shutdown_work_def has_pc_def)

lemma shutdown_step:
  assumes "server_step t t'" "ts_close t = KWait" "ts_closed t" "\<not> ts_ln t"
  shows "shutdown_work t' < shutdown_work t \<and> ts_close t' \<in> {KWait, KReturned}"
  using assms(1)
proof cases
  case (st_register i)
  have "shutdown_work (set_pc i CUnreg t) < shutdown_work t" by (rule set_pc_work [OF st_register(2)]) (simp add: conn_work_def)
  with st_register assms show ?thesis by (simp add: serveConn_register_def)
next
  case (st_closed i)
  have "shutdown_work (set_pc i CLeaving t) < shutdown_work t" by (rule set_pc_work [OF st_closed(2)]) (simp add: conn_work_def)
  with st_closed assms show ?thesis by (simp add: serveConn_leave_def)
next
  case (st_peer i)
  have "shutdown_work (set_pc i CLeaving t) < shutdown_work t" by (rule set_pc_work [OF st_peer(2)]) (simp add: conn_work_def)
  with st_peer assms show ?thesis by (simp add: serveConn_leave_def)
next
  case (st_unregister i)
  have "shutdown_work (set_pc i CUnreg t) < shutdown_work t" by (rule set_pc_work [OF st_unregister(2)]) (simp add: conn_work_def)
  with st_unregister assms show ?thesis by (simp add: serveConn_unregister_def shutdown_work_def)
next
  case (st_done i)
  have "shutdown_work (set_pc i CDone t) < shutdown_work t" by (rule set_pc_work [OF st_done(2)]) (simp add: conn_work_def)
  with st_done assms show ?thesis by (simp add: serveConn_done_def shutdown_work_def)
qed (use assms in \<open>simp_all add: Listen_locked_def Listen_go_def acceptLoop_exit_def Close_return_def shutdown_work_def accept_work_def\<close>)

lemma shutdown_progress:
  assumes "server_inv t" "ts_close t = KWait"
  shows "\<exists>t'. server_step t t'"
proof (cases "ts_wg t = 0")
  case True
  then show ?thesis using assms(2) by (blast intro: st_return)
next
  case False
  show ?thesis
  proof (cases "ts_accept t = ALoop")
    case True
    then show ?thesis using assms by (auto simp: server_inv_def intro: st_exit)
  next
    case na: False
    with False assms(1) have "running (ts_conns t) \<noteq> 0" by (simp add: server_inv_def)
    then obtain i where i: "i < length (ts_conns t)" "ts_conns t ! i \<noteq> CDone" by (auto simp: running_0 in_set_conv_nth)
    then have "has_pc t i (ts_conns t ! i)" by (simp add: has_pc_def)
    with i(2) show ?thesis
      by (cases "ts_conns t ! i"; cases "i \<in> set (ts_open t)") (auto intro: st_register st_closed st_peer st_unregister st_done)
  qed
qed

text \<open>
  C10: \<open>Close\<close> of the TCP transport returns. Whatever the interleaving with \<open>Listen\<close>, the accept loop and
  the goroutines of the connections, from the moment \<open>Close\<close> waits for them every serving goroutine has
  its connection closed, so that no step depends on a peer; some step is possible, every step reduces the
  work that is left, and none takes back the wait. When \<open>Close\<close> has returned, every goroutine of a
  connection has ended and no inbound connection is open, and it stays so.
\<close>

theorem tcp_close_returns:
  assumes "server_reach t"
  shows "(ts_close t = KWait \<longrightarrow>
      (\<forall>i. has_pc t i CServing \<longrightarrow> i \<notin> set (ts_open t)) \<and> (\<exists>t'. server_step t t') \<and>
      (\<forall>t'. server_step t t' \<longrightarrow> shutdown_work t' < shutdown_work t \<and> ts_close t' \<in> {KWait, KReturned})) \<and>
    (ts_close t = KReturned \<longrightarrow> ts_open t = [] \<and> (\<forall>i pc. has_pc t i pc \<longrightarrow> pc = CDone))"
proof -
  note inv = server_reach_inv [OF assms]
  have step: "shutdown_work t' < shutdown_work t \<and> ts_close t' \<in> {KWait, KReturned}"
    if "ts_close t = KWait" "server_step t t'" for t'
  proof (rule shutdown_step [OF that(2,1)])
    show "ts_closed t" "\<not> ts_ln t" using inv that(1) by (simp_all add: server_inv_def)
  qed
  have serving: "i \<notin> set (ts_open t)" if "ts_close t = KWait" "has_pc t i CServing" for i
    using inv that by (simp add: server_inv_def tracked_def)
  have returned: "ts_open t = [] \<and> (\<forall>i pc. has_pc t i pc \<longrightarrow> pc = CDone)" if "ts_close t = KReturned"
  proof -
    have d: "\<forall>pc \<in> set (ts_conns t). pc = CDone" using inv that by (simp add: server_inv_def running_0)
    have "i < length (ts_conns t) \<and> ts_conns t ! i \<noteq> CDone" if "i \<in> set (ts_open t)" for i
      using inv that unfolding server_inv_def by blast
    with d have "i \<notin> set (ts_open t)" for i using nth_mem by blast
    then have "ts_open t = []" by (cases "ts_open t") (simp, metis list.set_intros(1))
    with d show ?thesis by (simp add: has_pc_def)
  qed
  show ?thesis
    by (intro conjI impI allI step serving returned [THEN conjunct1] returned [THEN conjunct2, rule_format] shutdown_progress [OF inv])
qed

text \<open>A schedule with one connection, closed while it is served.\<close>

definition demo_listening :: tcpServer where
  "demo_listening = serveConn_register 0 (acceptLoop_conn (Listen_go (snd (Listen_locked True NewTCP_server))))"

definition demo_waiting :: tcpServer where
  "demo_waiting = Close_conns [0] (Close_listener [0] (Close_mark demo_listening))"

lemmas demo_server_defs = NewTCP_server_def server_defs set_pc_def

lemma demo_waiting_reach: "server_reach demo_waiting"
proof -
  have "server_reach (snd (Listen_locked True NewTCP_server))"
    by (rule sr_step [OF sr_new], rule st_listen) (simp_all add: demo_server_defs)
  then have "server_reach (Listen_go (snd (Listen_locked True NewTCP_server)))"
    by (rule sr_step) (rule st_start, simp add: demo_server_defs)
  then have "server_reach (acceptLoop_conn (Listen_go (snd (Listen_locked True NewTCP_server))))"
    by (rule sr_step) (rule st_accept, simp_all add: demo_server_defs)
  then have "server_reach demo_listening" unfolding demo_listening_def
    by (rule sr_step) (rule st_register, simp add: has_pc_def demo_server_defs)
  then have "server_reach (Close_mark demo_listening)"
    by (rule sr_step) (rule st_close, simp add: demo_listening_def demo_server_defs)
  then have "server_reach (Close_listener [0] (Close_mark demo_listening))"
    by (rule sr_step) (rule st_close_ln, simp add: demo_listening_def demo_server_defs)
  then show ?thesis unfolding demo_waiting_def
    by (rule sr_step) (rule st_close_conns, simp add: demo_listening_def demo_server_defs)
qed

theorem tcp_close_returns_witness:
  "ts_close demo_waiting = KWait \<and> ts_wg demo_waiting = 2 \<and> has_pc demo_waiting 0 CServing \<and> 0 \<notin> set (ts_open demo_waiting) \<and>
    (\<exists>t'. server_step demo_waiting t')"
proof -
  have "ts_close demo_waiting = KWait" "ts_wg demo_waiting = 2" "has_pc demo_waiting 0 CServing"
    by (simp_all add: demo_waiting_def demo_listening_def demo_server_defs has_pc_def)
  with tcp_close_returns [OF demo_waiting_reach] show ?thesis by simp
qed

text \<open>
  C40: \<open>Close\<close> can return before the accept loop has ended. \<open>Listen\<close> counts the accept loop in the wait
  group only after it has left its critical section; a \<open>Close\<close> that runs in between finds the count at
  zero and returns, and the accept loop starts afterwards.
\<close>

theorem tcp_listen_close_race: "\<exists>t. server_reach t \<and> ts_close t = KReturned \<and> ts_accept t = AStart"
proof -
  let ?l = "snd (Listen_locked True NewTCP_server)"
  have "server_reach ?l" by (rule sr_step [OF sr_new], rule st_listen) (simp_all add: demo_server_defs)
  then have "server_reach (Close_mark ?l)" by (rule sr_step) (rule st_close, simp add: demo_server_defs)
  then have "server_reach (Close_listener [] (Close_mark ?l))"
    by (rule sr_step) (rule st_close_ln, simp add: demo_server_defs)
  then have "server_reach (Close_conns [] (Close_listener [] (Close_mark ?l)))"
    by (rule sr_step) (rule st_close_conns, simp add: demo_server_defs)
  then have "server_reach (Close_return (Close_conns [] (Close_listener [] (Close_mark ?l))))"
    by (rule sr_step) (rule st_return, simp_all add: demo_server_defs)
  then show ?thesis by (intro exI conjI) (assumption, simp_all add: demo_server_defs)
qed

end
