(* ===== verification/Buffers.thy ===== *)
theory Buffers
  imports Messages
begin

text \<open>
  The shared buffers of \<open>codec/codec.go\<close>: \<open>GetBuf\<close>, \<open>PutBuf\<close> and \<open>Marshal\<close> into a borrowed buffer, over a
  store of buffers by number. \<open>sync.Pool\<close> may hand out any pooled buffer or make a new one, and it may
  drop pooled buffers at any time; the argument \<open>pick\<close> is its choice.
\<close>

record buffers =
  bf_store :: "nat \<Rightarrow> bytes"
  bf_pool :: "nat list"
  bf_next :: nat

definition bufPool :: buffers where
  "bufPool = \<lparr>bf_store = (\<lambda>_. []), bf_pool = [], bf_next = 0\<rparr>"

definition GetBuf :: "nat \<Rightarrow> buffers \<Rightarrow> nat \<times> buffers" where
  "GetBuf pick st =
     (if pick < length (bf_pool st)
      then (bf_pool st ! pick, st\<lparr>bf_pool := remove1 (bf_pool st ! pick) (bf_pool st)\<rparr>)
      else (bf_next st, st\<lparr>bf_store := (bf_store st)(bf_next st := []), bf_next := Suc (bf_next st)\<rparr>))"

definition PutBuf :: "nat \<Rightarrow> buffers \<Rightarrow> buffers" where
  "PutBuf b st = st\<lparr>bf_store := (bf_store st)(b := []), bf_pool := b # bf_pool st\<rparr>"

definition pool_drop :: "nat \<Rightarrow> buffers \<Rightarrow> buffers" where
  "pool_drop b st = st\<lparr>bf_pool := remove1 b (bf_pool st)\<rparr>"

definition write_buf :: "nat \<Rightarrow> bytes \<Rightarrow> buffers \<Rightarrow> buffers" where
  "write_buf b v st = st\<lparr>bf_store := (bf_store st)(b := v)\<rparr>"

text \<open>A holder may put any content into a buffer it has borrowed, and gives it back once.\<close>

inductive buf_reach :: "buffers \<Rightarrow> nat set \<Rightarrow> bool" where
  br_new: "buf_reach bufPool {}"
| br_get: "buf_reach st held \<Longrightarrow> GetBuf pick st = (b, st') \<Longrightarrow> buf_reach st' (insert b held)"
| br_put: "buf_reach st held \<Longrightarrow> b \<in> held \<Longrightarrow> buf_reach (PutBuf b st) (held - {b})"
| br_write: "buf_reach st held \<Longrightarrow> b \<in> held \<Longrightarrow> buf_reach (write_buf b v st) held"
| br_drop: "buf_reach st held \<Longrightarrow> buf_reach (pool_drop b st) held"

definition buf_inv :: "buffers \<Rightarrow> nat set \<Rightarrow> bool" where
  "buf_inv st held \<longleftrightarrow>
     distinct (bf_pool st) \<and> set (bf_pool st) \<inter> held = {} \<and> (\<forall>b \<in> set (bf_pool st) \<union> held. b < bf_next st) \<and>
     (\<forall>b \<in> set (bf_pool st). bf_store st b = [])"

lemma buf_reach_inv: "buf_reach st held \<Longrightarrow> buf_inv st held"
proof (induction rule: buf_reach.induct)
  case (br_get st held pick b st')
  show ?case
  proof (cases "pick < length (bf_pool st)")
    case True
    with br_get.hyps have "b = bf_pool st ! pick" "st' = st\<lparr>bf_pool := remove1 b (bf_pool st)\<rparr>" by (auto simp: GetBuf_def)
    moreover from True this(1) have "b \<in> set (bf_pool st)" by simp
    ultimately show ?thesis using br_get.IH by (auto simp: buf_inv_def)
  next
    case False
    with br_get show ?thesis by (auto simp: GetBuf_def buf_inv_def less_Suc_eq)
  qed
next
  case (br_drop st held b)
  then show ?case using notin_set_remove1 by (auto simp: buf_inv_def pool_drop_def)
qed (auto simp: buf_inv_def bufPool_def PutBuf_def write_buf_def)

text \<open>
  A borrowed buffer is empty and belongs to one holder: it is not one that anyone else holds, and what the
  others do with theirs does not change it.
\<close>

lemma GetBuf_fresh:
  assumes "buf_reach st held" "GetBuf pick st = (b, st')"
  shows "bf_store st' b = []" "b \<notin> held"
proof -
  note inv = buf_reach_inv [OF assms(1)]
  have "bf_store st' b = [] \<and> b \<notin> held"
  proof (cases "pick < length (bf_pool st)")
    case True
    then have "bf_pool st ! pick \<in> set (bf_pool st)" by simp
    with True assms(2) inv show ?thesis by (auto simp: GetBuf_def buf_inv_def)
  next
    case False
    with assms(2) inv show ?thesis by (auto simp: GetBuf_def buf_inv_def)
  qed
  then show "bf_store st' b = []" "b \<notin> held" by simp_all
qed

lemma held_unchanged:
  assumes "buf_reach st held" "b \<in> held"
  shows "GetBuf pick st = (b', st') \<Longrightarrow> bf_store st' b = bf_store st b"
    and "b' \<in> held - {b} \<Longrightarrow> bf_store (PutBuf b' st) b = bf_store st b"
    and "b' \<in> held - {b} \<Longrightarrow> bf_store (write_buf b' v st) b = bf_store st b"
  using buf_reach_inv [OF assms(1)] assms(2)
  by (auto simp: GetBuf_def PutBuf_def write_buf_def buf_inv_def split: if_splits)

end
