(* ===== verification/Spec2Isabelle.thy ===== *)
theory Spec2Isabelle
  imports Shutdown AntiEntropy Gather Command Http Poseidon TcpServer Buffers
begin

text \<open>
  A verification development for medusa, a distributed in-memory data grid written in Go. A cluster of
  nodes keeps named maps and queues in memory, spread over 271 partitions; every partition has an owner
  and backups, found from the member list alone. A node serves its peers over a message transport and
  clients through a Go API and an HTTP API, and can keep its entries on disk.

  \<^bold>\<open>Parts and theories\<close>, from the bottom up (paths are under \<open>src/\<close>).

  \<^item> \<open>Prelude\<close>, \<open>GoText\<close>, \<open>Mux\<close>: the Go types (byte strings, fixed-width integers with their wrap-around,
    maps as association lists) and the parts of the standard library that the program uses: big-endian
    integers, decimal numbers, durations, host and port, and the request routing of \<open>net/http\<close>.
  \<^item> \<open>Partition\<close> (\<open>partition/hash.go\<close>, \<open>table.go\<close>): the key hash and the rendezvous table.
  \<^item> \<open>Store\<close>, \<open>Processor\<close>, \<open>Aggregate\<close>, \<open>Queue\<close>, \<open>StoreInv\<close> (\<open>imap/store.go\<close>, \<open>processor.go\<close>, \<open>aggregate.go\<close>,
    \<open>queue.go\<close>): the sharded store of a node, the entry processors and locks, the aggregators, the queue
    that is packed into segments of the store, and what every reachable store satisfies.
  \<^item> \<open>Wire\<close>, \<open>Messages\<close>, \<open>Buffers\<close>, \<open>Rpc\<close> (\<open>codec/codec.go\<close>, \<open>genproto/medusa/v1\<close>, the helpers of vtprotobuf under
    \<open>vendor\<close>): the wire format, the generated encoders and decoders of all messages, the buffer pool, and
    the calls of the cluster as values.
  \<^item> \<open>Wal\<close> (\<open>imap/wal.go\<close>): the write-ahead log on a file whose operations can fail.
  \<^item> \<open>Transport\<close>, \<open>TcpServer\<close>, \<open>Poseidon\<close> (\<open>transport/\<close>): frames, the TCP transport with its connection pool
    and its server goroutines, the in-memory switch, and the HTTP/2 transport.
  \<^item> \<open>Phi\<close>, \<open>Membership\<close>, \<open>Hooks\<close>, \<open>Cluster\<close> (\<open>cluster/\<close>, \<open>imap/listener.go\<close>, \<open>loader.go\<close>): the failure detector,
    the membership view, entry listeners and backing stores, and the operations of a view that send.
  \<^item> \<open>Service\<close>, \<open>MapApi\<close> (\<open>imap/service.go\<close>, \<open>map.go\<close>, \<open>queue.go\<close>): the owner side of every map operation with
    logging, replication, migration and anti-entropy, and the client side with routing and failover.
  \<^item> \<open>Network\<close>, \<open>Medusa\<close> (\<open>medusa.go\<close>): the dispatcher of a node, a running cluster, start-up, the maintenance
    loop, the snapshot file, leave and close.
  \<^item> \<open>Metrics\<close>, \<open>Http\<close>, \<open>Command\<close> (\<open>metrics/metrics.go\<close>, \<open>httpapi/httpapi.go\<close>, \<open>discovery/discovery.go\<close>,
    \<open>cmd/medusa-node/main.go\<close>): the metrics page, the HTTP API, peer discovery and the node process.
  \<^item> \<open>Durability\<close>, \<open>Shutdown\<close>, \<open>Replication\<close>, \<open>AntiEntropy\<close>, \<open>Gather\<close> and this theory: properties that span
    components.

  \<^bold>\<open>How the model reads.\<close> A Go function is a function of the same name, with a prefix where the name is
  taken (\<open>Map_Put\<close>, \<open>node_Close\<close>); an error return is a value of an option or sum type, and every early
  return is a branch. A store is a function from partitions to shards and a shard an association list of
  maps. A \<open>Node\<close> has its view, store, log, listeners, clock and files; a \<open>world\<close> has a node at every
  address, the links that work, and the state outside the grid that loaders and listeners act on. Every
  operation that talks to peers takes the transport as an argument, \<open>send src dst req\<close>, which runs the
  call on the destination and returns the world after it. \<open>net\<close> is the cluster that dispatches a call to
  the node at the address, \<open>lossy\<close> one that loses calls at will. Outcomes of file operations are a list in
  the node, so that every one of them can fail. Code that runs under a mutex is one step; where the order
  of steps of different goroutines matters (connection pool, listener queue, TCP server, client cache,
  buffers) they are the steps of an inductive relation and the theorems quantify over all interleavings.

  \<^bold>\<open>Interfaces.\<close> Locales state what one part relies on another for, and each is interpreted on the
  definitions of the program: strict orders for the ranking (\<open>strict_total\<close>), fenced locks (\<open>fenced_lock\<close>),
  mergeable aggregators (\<open>mergeable\<close>), the accessors a queue operation gets (\<open>accessors\<close>), generated messages
  (\<open>vt_message\<close>), a transport that delivers or fails (\<open>network\<close>) and one that delivers over working links
  (\<open>reliable\<close>), and a mutation with its log record (\<open>logged_op\<close>).

  \<^bold>\<open>What is shown.\<close>
  \<^item> Store and processors: one live value per key, in its partition; processors are atomic; locks are
    exclusive with increasing fence tokens; snapshots restore every read.
  \<^item> Queue: any sequence of operations behaves like a list; legacy queues are upgraded without loss.
  \<^item> Log and restart: a node restarted from what a crash left reads what the crashed node held.
  \<^item> Partitioning and membership: joins and leaves move only what they must, views with the same members
    agree on the table, evicted members stay out, silent members are evicted.
  \<^item> Replication: an acknowledged put survives the loss of its owner; a migration over a lossy network
    loses nothing; anti-entropy makes a backup equal to the owner; \<open>Size\<close> and \<open>Aggregate\<close> count an entry once.
  \<^item> Transports: an exchange over TCP or HTTP/2 is a call of the remote handler; pooled connections have
    one user; shutdown terminates and leaves no connection or client open.
  \<^item> HTTP API and process: without the token a request has no effect, the maps behind the queues cannot be
    reached, an entry put over HTTP is served by the other nodes after its owner is lost, and a process
    with a CA bundle verifies its peers both ways.
  \<^item> Deviations from the documented behaviour are theorems too, with a concrete state or schedule each.

  \<^bold>\<open>Bounds.\<close> \<open>net\<close> nests calls two deep; \<open>net_depth\<close> shows that this answers every request, because a call that
  a handler makes is one whose handler makes none. Decoders recurse on the input and take its length as
  fuel, which suffices because every field consumes a byte; the round trips show that a full message is
  read. All other recursion is structural or has a termination proof.

  \<^bold>\<open>Not modelled.\<close> Logging and the increments of the metrics counters; tickers and timeouts, which appear as
  errors of the calls they cut short; the Go scheduler and memory beyond the interleavings above; the
  encoding of the two JSON documents; floating point in the failure detector, which is over the reals; the
  reflection-based code of \<open>genproto\<close> (\<open>*.pb.go\<close>), of which the program uses the message types only. Outside
  \<open>src/\<close>, and parameters of the model: the HTTP/2 stack of the Poseidon transport, DNS, certificates and
  keys, the operating system's files, backing stores and listeners of the user.
\<close>

section \<open>An entry over HTTP\<close>

text \<open>
  C5: What a client stored over HTTP survives the loss of a node. When \<open>PUT /v1/maps/{map}/{key}\<close> at the
  owner of the key was answered 204, and the link from the owner to the first backup worked, then after
  the owner has become unreachable, in whatever state it is, \<open>GET\<close> of the same path at any other node that
  routes by the same table is answered 200 with the bytes of the put. This composes the routing and the
  token check of the API, the map operation, the replication and the failover of a read.
\<close>

theorem http_failover:
  fixes w :: "'x world"
  defines "tbl \<equiv> \<lambda>a. mem_table (view w a)"
  assumes "plain_seg name" "plain_seg key" "authorised token put" "authorised token get"
    "rq_Method put = str ''PUT''" "rq_EscapedPath put = entry_path name key" "rq_Path put = entry_path name key" "Query_Get put (str ''ttl'') = []"
    "rq_Method get = str ''GET''" "rq_EscapedPath get = entry_path name key" "rq_Path get = entry_path name key"
    "New net ow counts [WithToken token] put w = (resp, w1)" "rs_Status resp = 204" "OwnerOf (tbl ow) (For key) = self_id w ow"
    "BackupAt (tbl ow) (For key) 0 = (bid, True)" "bid \<noteq> self_id w ow" "AddrOf bid (view w ow) = Some b" "b \<noteq> ow" "w_up w ow b"
    "c \<noteq> ow" "tbl c = tbl ow" "self_id w c \<noteq> self_id w ow" "AddrOf (self_id w ow) (view w c) = Some ow"
    "if self_id w c = bid then c = b else AddrOf bid (view w c) = Some b \<and> up c b" "\<not> up c ow"
  shows "fst (New net c counts' [WithToken token] get ((set_node ow crashed w1)\<lparr>w_up := up\<rparr>)) = octets (rq_Body put)"
proof -
  have probe: "entry_path name key \<notin> {str ''/healthz'', str ''/readyz''}" by (simp add: entry_path_def rooted_def str_def)
  have "New net ow counts [WithToken token] put w = map_put net ow put (entry_values name key) w"
    using assms(2-8) probe entry_routes(1) [OF assms(2,3)] by (intro serve_entry [OF assms(2,3,4)]) simp_all
  with assms(9,13,14) have put: "Map_Put net ow name key (rq_Body put) w = (None, w1)" by (simp add: http_put_ok)
  then have nr: "\<not> IsReservedMap name" by (auto simp: Map_Put_def putWithTTL_def)
  have "Map_Get net c name key ((set_node ow crashed w1)\<lparr>w_up := up\<rparr>) =
    ((rq_Body put, True, None), (set_node ow crashed w1)\<lparr>w_up := up\<rparr>)"
    using put assms(15-) unfolding tbl_def by (rule acked_put_read)
  moreover have "New net c counts' [WithToken token] get w' = map_get net c get (entry_values name key) w'" for w' :: "'x world"
    using assms(2-12) probe entry_routes(2) [OF assms(2,3)] by (intro serve_entry [OF assms(2,3,5)]) simp_all
  ultimately show ?thesis using nr by (simp add: http_get_ok)
qed

definition demo_put :: http_request where
  "demo_put = demo_request (str ''PUT'') [str ''v1'', str ''maps'', [1], [2]] [] [7]"

definition demo_get :: http_request where
  "demo_get = demo_request (str ''GET'') [str ''v1'', str ''maps'', [1], [2]] [] []"

lemma demo_put_served:
  "New net [10] counts [WithToken []] demo_put demo_pair = (noContent, snd (Map_Put net [10] [1] [2] [7] demo_pair))"
proof -
  have pl: "plain_seg [1]" "plain_seg [2]" by (simp_all add: plain_seg_def str_def)
  have "New net [10] counts [WithToken []] demo_put demo_pair = map_put net [10] demo_put (entry_values [1] [2]) demo_pair"
    using entry_routes(1) [OF pl]
    by (intro serve_entry [OF pl]) (simp_all add: demo_put_def authorised_def entry_path_def rooted_def str_def)
  also have "\<dots> = put_reply (Map_Put net [10] [1] [2] [7] demo_pair)"
  proof -
    have "\<not> IsReservedMap [1]" by (simp add: IsReservedMap_def queueMap_def queueSegMap_def str_def)
    then show ?thesis by (simp add: map_put_def reservedMapBlocked_def ReadAll_max_def maxBodyBytes_def Query_Get_def demo_put_def)
  qed
  finally show ?thesis by (subst (asm) demo_put_acked) (simp add: put_reply_def)
qed

theorem http_failover_witness:
  "\<forall>counts. fst (New net [20] counts [WithToken []] demo_get
     ((set_node [10] demo_blank (snd (New net [10] counts [WithToken []] demo_put demo_pair)))\<lparr>w_up := \<lambda>_ _. False\<rparr>)) = octets [7]"
proof
  fix counts
  have "fst (New net [20] counts [WithToken []] demo_get
     ((set_node [10] demo_blank (snd (New net [10] counts [WithToken []] demo_put demo_pair)))\<lparr>w_up := \<lambda>_ _. False\<rparr>)) = octets (rq_Body demo_put)"
    unfolding demo_put_served snd_conv
    by (rule http_failover [OF _ _ _ _ _ _ _ _ _ _ _ demo_put_served, where name = "[1]" and key = "[2]" and bid = "[2]" and b = "[20]"])
      (simp_all add: demo_put_def demo_get_def authorised_def entry_path_def noContent_def respond_def Query_Get_def
        plain_seg_def str_def demo_pair_sel demo_tables demo_addrs demo_view_members demo_peer_members demo_self_def demo_peer_def
        OwnerOf_ranking BackupAt_ranking demo_ranking)
  then show "fst (New net [20] counts [WithToken []] demo_get
     ((set_node [10] demo_blank (snd (New net [10] counts [WithToken []] demo_put demo_pair)))\<lparr>w_up := \<lambda>_ _. False\<rparr>)) = octets [7]"
    by (simp add: demo_put_def)
qed

section \<open>Limits\<close>



end
